(* ===== verification/Prelude.thy ===== *)
theory Prelude
  imports Main "HOL-Library.Word"
begin

text \<open>
  Shared vocabulary of the development: machine integers as words, byte buffers with
  little-endian reads and \<^verbatim>\<open>memcpy\<close>-style writes, the \<^verbatim>\<open>absl::Status\<close> values that
  the daemon's fallible functions return, and the list lemmas used by several components.
  The collections \<open>byte_simps\<close> and \<open>status_elims\<close> gather the facts that
  the component proofs pass to the simplifier and to the classical reasoner.
\<close>

named_theorems byte_simps "reads and writes of byte buffers"
named_theorems status_elims "splitting results of fallible operations"

section \<open>Machine integers\<close>

type_synonym u8 = "8 word"
type_synonym u16 = "16 word"
type_synonym u32 = "32 word"
type_synonym u64 = "64 word"
type_synonym bytes = "8 word list"

lemma unat_of_nat_small: "n < 2 ^ LENGTH('a::len) \<Longrightarrow> unat (word_of_nat n :: 'a word) = n"
  by (simp add: unat_of_nat take_bit_nat_eq_self)

lemma unat_add_no_wrap:
  "unat (a :: 'a::len word) + unat b < 2 ^ LENGTH('a) \<Longrightarrow> unat (a + b) = unat a + unat b"
  by (simp add: unat_word_ariths)

lemma unat_sub_le: "(b :: 'a::len word) \<le> a \<Longrightarrow> unat (a - b) = unat a - unat b"
  by (simp add: unat_sub_if_size word_le_nat_alt)

lemma unat_u8_less: "unat (b :: u8) < 256"
proof -
  have "unat b < 2 ^ LENGTH(8)" by (rule unsigned_less)
  then show ?thesis by simp
qed

lemma unat_u32_less: "unat (b :: u32) < 4294967296"
proof -
  have "unat b < 2 ^ LENGTH(32)" by (rule unsigned_less)
  then show ?thesis by simp
qed

lemma unat_u64_less: "unat (b :: u64) < 18446744073709551616"
proof -
  have "unat b < 2 ^ LENGTH(64)" by (rule unsigned_less)
  then show ?thesis by simp
qed

section \<open>Status values\<close>

text \<open>
  \<^verbatim>\<open>absl::Status\<close> and \<^verbatim>\<open>absl::StatusOr<T>\<close>: the error side holds the code, the literal
  part of the message, and the \<^verbatim>\<open>errno\<close> whose text the code appends to it (0 where
  the code appends none).
\<close>

type_synonym errno = nat

datatype status_code = NotFoundError | InternalError | InvalidArgumentError

datatype error = Error (code: status_code) (message: string) (cause: errno)

type_synonym 'a status_or = "error + 'a"
type_synonym status = "unit status_or"

abbreviation OkStatus :: status where
  "OkStatus \<equiv> Inr ()"

definition ok :: "'a status_or \<Rightarrow> bool" where
  "ok r = (case r of Inl _ \<Rightarrow> False | Inr _ \<Rightarrow> True)"

lemma ok_simps [simp]: "ok (Inr x)" "\<not> ok (Inl e)"
  by (simp_all add: ok_def)

lemma ok_iff [status_elims]: "ok r \<longleftrightarrow> (\<exists>x. r = Inr x)"
  by (cases r) simp_all

lemma not_ok_iff [status_elims]: "\<not> ok r \<longleftrightarrow> (\<exists>e. r = Inl e)"
  by (cases r) simp_all

section \<open>Little-endian integers in buffers\<close>

primrec le_nat :: "bytes \<Rightarrow> nat" where
  "le_nat [] = 0"
| "le_nat (b # bs) = unat b + 256 * le_nat bs"

primrec le_bytes :: "nat \<Rightarrow> nat \<Rightarrow> bytes" where
  "le_bytes 0 v = []"
| "le_bytes (Suc n) v = word_of_nat v # le_bytes n (v div 256)"

lemma le_nat_bound: "le_nat bs < 256 ^ length bs"
proof (induction bs)
  case (Cons b bs)
  have "unat b < 256" by (rule unat_u8_less)
  with Cons show ?case by simp
qed simp

lemma length_le_bytes [simp]: "length (le_bytes n v) = n"
  by (induction n arbitrary: v) simp_all

lemma le_nat_le_bytes [byte_simps]: "le_nat (le_bytes n v) = v mod 256 ^ n"
proof (induction n arbitrary: v)
  case (Suc n)
  have "unat (word_of_nat v :: u8) = v mod 256"
    by (simp add: unat_of_nat take_bit_eq_mod)
  with Suc show ?case by (simp add: mod_mult2_eq)
qed simp

lemma le_bytes_le_nat [byte_simps]: "le_bytes (length bs) (le_nat bs) = bs"
proof (induction bs)
  case (Cons b bs)
  have b: "unat b < 256" by (rule unat_u8_less)
  then have "(unat b + 256 * le_nat bs) div 256 = le_nat bs" by simp
  moreover have "word_of_nat (unat b + 256 * le_nat bs) = b"
  proof -
    have "(word_of_nat (unat b + 256 * le_nat bs) :: u8) = b + word_of_nat 256 * word_of_nat (le_nat bs)"
      by simp
    also have "(word_of_nat 256 :: u8) = 0" by simp
    finally show ?thesis by simp
  qed
  ultimately show ?case using Cons by simp
qed simp

section \<open>Slices of buffers and in-place writes\<close>

definition sub_bytes :: "nat \<Rightarrow> nat \<Rightarrow> 'a list \<Rightarrow> 'a list" where
  "sub_bytes off n buf = take n (drop off buf)"

definition put_bytes :: "nat \<Rightarrow> 'a list \<Rightarrow> 'a list \<Rightarrow> 'a list" where
  "put_bytes off xs buf = take off buf @ xs @ drop (off + length xs) buf"

lemma length_sub_bytes [byte_simps]: "off + n \<le> length buf \<Longrightarrow> length (sub_bytes off n buf) = n"
  by (simp add: sub_bytes_def)

lemma length_put_bytes [byte_simps]:
  "off + length xs \<le> length buf \<Longrightarrow> length (put_bytes off xs buf) = length buf"
  by (simp add: put_bytes_def)

lemma sub_put_same [byte_simps]:
  "off + length xs \<le> length buf \<Longrightarrow> n = length xs \<Longrightarrow> sub_bytes off n (put_bytes off xs buf) = xs"
  by (simp add: sub_bytes_def put_bytes_def)

lemma nth_put_bytes:
  assumes "off + length xs \<le> length buf" and "i < length buf"
  shows "put_bytes off xs buf ! i =
    (if off \<le> i \<and> i < off + length xs then xs ! (i - off) else buf ! i)"
  using assms by (auto simp: put_bytes_def nth_append)

lemma sub_bytes_eqI:
  assumes "length a = length b"
    and "\<And>i. off \<le> i \<Longrightarrow> i < off + n \<Longrightarrow> i < length a \<Longrightarrow> a ! i = b ! i"
  shows "sub_bytes off n a = sub_bytes off n b"
  using assms by (intro nth_equalityI) (auto simp: sub_bytes_def)

lemma sub_put_disjoint [byte_simps]:
  assumes "off + length xs \<le> length buf" and "p + n \<le> off \<or> off + length xs \<le> p"
  shows "sub_bytes p n (put_bytes off xs buf) = sub_bytes p n buf"
  using assms by (intro sub_bytes_eqI) (auto simp: length_put_bytes nth_put_bytes)

section \<open>Lists\<close>

lemma sum_list_drop_le: "sum_list (drop k (xs :: nat list)) \<le> sum_list xs"
  by (metis append_take_drop_id le_add2 sum_list_append)

lemma sorted_map_filter: "sorted (map f xs) \<Longrightarrow> sorted (map f (filter P xs))"
  by (induction xs) auto

lemma filter_sort_key: "filter P (sort_key f xs) = sort_key f (filter P xs)"
  by (rule filter_sort)

lemma distinct_suffix_filter:
  assumes "distinct (map f (xs @ ys))"
  shows "filter (\<lambda>x. f x \<notin> f ` set xs) (xs @ ys) = ys"
  using assms by (auto simp: filter_empty_conv intro!: filter_True)

section \<open>Characters\<close>

text \<open>A \<^verbatim>\<open>char\<close> of the source is a byte; \<open>string\<close> is a list of them.\<close>

definition char_of_byte :: "u8 \<Rightarrow> char" where
  "char_of_byte b = char_of (unat b)"

definition byte_of_char :: "char \<Rightarrow> u8" where
  "byte_of_char c = word_of_nat (of_char c)"

definition bytes_of :: "string \<Rightarrow> bytes" where
  "bytes_of = List.map byte_of_char"

lemma char_of_byte_of_char [simp]: "char_of_byte (byte_of_char c) = c"
proof -
  have "(of_char c :: nat) < 256" by simp
  then show ?thesis by (simp add: char_of_byte_def byte_of_char_def unat_of_nat_small)
qed

lemma map_char_bytes_of [simp]: "map char_of_byte (bytes_of s) = s"
  by (simp add: bytes_of_def comp_def)

lemma length_bytes_of [simp]: "length (bytes_of s) = length s"
  by (simp add: bytes_of_def)

end
