(* ===== verification/C_Strings.thy ===== *)
theory C_Strings
  imports Prelude
begin

text \<open>
  The string functions of the C and C++ libraries that the sources call: the number
  parsers \<^verbatim>\<open>strtoull\<close>, \<^verbatim>\<open>strtoul\<close> and \<^verbatim>\<open>strtol\<close>, decimal and hexadecimal printing, the
  character classes of the C locale, prefix and infix search, and truncating copies. A C
  string is a \<open>string\<close> without the terminating NUL.
\<close>

section \<open>Character classes\<close>

abbreviation ord_of :: "char \<Rightarrow> nat" where
  "ord_of c \<equiv> of_char c"

definition isspace :: "char \<Rightarrow> bool" where
  "isspace c = (ord_of c = 32 \<or> 9 \<le> ord_of c \<and> ord_of c \<le> 13)"

definition isdigit :: "char \<Rightarrow> bool" where
  "isdigit c = (48 \<le> ord_of c \<and> ord_of c \<le> 57)"

definition isxdigit :: "char \<Rightarrow> bool" where
  "isxdigit c = (isdigit c \<or> 65 \<le> ord_of c \<and> ord_of c \<le> 70 \<or> 97 \<le> ord_of c \<and> ord_of c \<le> 102)"

definition isalnum :: "char \<Rightarrow> bool" where
  "isalnum c = (isdigit c \<or> 65 \<le> ord_of c \<and> ord_of c \<le> 90 \<or> 97 \<le> ord_of c \<and> ord_of c \<le> 122)"

definition tolower :: "char \<Rightarrow> char" where
  "tolower c = (if 65 \<le> ord_of c \<and> ord_of c \<le> 90 then char_of (ord_of c + 32) else c)"

section \<open>Printing numbers\<close>

definition digit_char :: "nat \<Rightarrow> char" where
  "digit_char d = char_of (if d < 10 then 48 + d else 87 + d)"

definition digit_value :: "char \<Rightarrow> nat" where
  "digit_value c = (if isdigit c then ord_of c - 48 else ord_of c - 87)"

function show_base :: "nat \<Rightarrow> nat \<Rightarrow> string" where
  "show_base b n =
     (if n < b \<or> b < 2 then [digit_char n] else show_base b (n div b) @ [digit_char (n mod b)])"
  by pat_completeness auto
termination
  by (relation "measure (\<lambda>(b, n). n)") (auto simp: div_less_dividend)

declare show_base.simps [simp del]

definition show_dec :: "nat \<Rightarrow> string" where
  "show_dec n = show_base 10 n"

definition show_hex :: "nat \<Rightarrow> string" where
  "show_hex n = show_base 16 n"

text \<open>The conversion \<^verbatim>\<open>{:016x}\<close>.\<close>

definition show_hex16 :: "nat \<Rightarrow> string" where
  "show_hex16 n = replicate (16 - length (show_hex n)) CHR ''0'' @ show_hex n"

definition number_of :: "nat \<Rightarrow> string \<Rightarrow> nat" where
  "number_of b s = foldl (\<lambda>n c. b * n + digit_value c) 0 s"

lemma ord_of_digit_char: "d < 16 \<Longrightarrow> ord_of (digit_char d) = (if d < 10 then 48 + d else 87 + d)"
  by (simp add: digit_char_def)

lemma digit_value_digit_char [simp]: "d < 16 \<Longrightarrow> digit_value (digit_char d) = d"
  by (simp add: digit_value_def isdigit_def ord_of_digit_char)

lemma isdigit_digit_char [simp]: "d < 10 \<Longrightarrow> isdigit (digit_char d)"
  by (simp add: isdigit_def ord_of_digit_char)

lemma isxdigit_digit_char [simp]: "d < 16 \<Longrightarrow> isxdigit (digit_char d)"
  by (simp add: isxdigit_def isdigit_def ord_of_digit_char)

lemma number_of_append: "number_of b (s @ [c]) = b * number_of b s + digit_value c"
  by (simp add: number_of_def)

lemma number_of_show_base:
  assumes "2 \<le> b" and "b \<le> 16"
  shows "number_of b (show_base b n) = n"
  using assms
proof (induction b n rule: show_base.induct)
  case (1 b n)
  show ?case
  proof (cases "n < b")
    case True
    then show ?thesis using 1 by (simp add: show_base.simps [of b n] number_of_def)
  next
    case False
    have "n mod b < b" using 1(2) by simp
    then have "n mod b < 16" using 1(3) by simp
    then show ?thesis using False 1 by (simp add: show_base.simps [of b n] number_of_append)
  qed
qed

lemma show_base_nonempty [simp]: "show_base b n \<noteq> []"
  by (subst show_base.simps) simp

lemma show_base_digits:
  assumes "2 \<le> b"
  shows "set (show_base b n) \<subseteq> digit_char ` {..<b}"
  using assms
proof (induction b n rule: show_base.induct)
  case (1 b n)
  then show ?case by (subst show_base.simps) auto
qed

lemma show_dec_isdigit: "c \<in> set (show_dec n) \<Longrightarrow> isdigit c"
  using show_base_digits [of 10 n] by (auto simp: show_dec_def)

lemma show_hex_isxdigit: "c \<in> set (show_hex n) \<Longrightarrow> isxdigit c"
  using show_base_digits [of 16 n] by (auto simp: show_hex_def)

lemma show_dec_nonempty [simp]: "show_dec n \<noteq> []"
  by (simp add: show_dec_def)

lemma number_of_show_dec [simp]: "number_of 10 (show_dec n) = n"
  by (simp add: show_dec_def number_of_show_base)

lemma number_of_show_hex [simp]: "number_of 16 (show_hex n) = n"
  by (simp add: show_hex_def number_of_show_base)

lemma show_hex_inject [simp]: "show_hex m = show_hex n \<longleftrightarrow> m = n"
  by (metis number_of_show_hex)

lemma show_dec_inject [simp]: "show_dec m = show_dec n \<longleftrightarrow> m = n"
  by (metis number_of_show_dec)

lemma length_show_base_le:
  assumes "2 \<le> b" and "n < b ^ k" and "0 < k"
  shows "length (show_base b n) \<le> k"
  using assms
proof (induction b n arbitrary: k rule: show_base.induct)
  case (1 b n)
  show ?case
  proof (cases "n < b")
    case True
    then show ?thesis using 1(4) by (simp add: show_base.simps [of b n] Suc_le_eq)
  next
    case False
    then have "1 < k" using 1(2-4) by (cases "k = 1") auto
    then obtain j where k: "k = Suc j" "0 < j" by (cases k) auto
    then have "n div b < b ^ j" using 1(3) by (simp add: less_mult_imp_div_less mult.commute)
    then have "length (show_base b (n div b)) \<le> j" using 1 False k(2) by simp
    then show ?thesis using False 1(2) k by (simp add: show_base.simps [of b n])
  qed
qed

lemma length_show_hex16: "n < 2 ^ 64 \<Longrightarrow> length (show_hex16 n) = 16"
  using length_show_base_le [of 16 n 16] by (simp add: show_hex16_def show_hex_def)

section \<open>Parsing numbers\<close>

text \<open>
  \<^verbatim>\<open>strtoull(s, &end, 10)\<close>: leading white space, an optional sign, decimal digits; the
  value and the text from \<^verbatim>\<open>end\<close> on, or \<open>None\<close> where there is no digit and \<^verbatim>\<open>end\<close> is
  the start of the string. A value too large is \<^verbatim>\<open>ULLONG_MAX\<close>; a minus sign negates the
  unsigned result. \<^verbatim>\<open>unsigned long\<close> has 64 bits, so \<^verbatim>\<open>strtoul\<close> is the same function.
\<close>

fun split_sign :: "string \<Rightarrow> bool \<times> string" where
  "split_sign [] = (False, [])"
| "split_sign (c # s) =
     (if c = CHR ''-'' then (True, s) else if c = CHR ''+'' then (False, s) else (False, c # s))"

definition strtoull :: "string \<Rightarrow> (u64 \<times> string) option" where
  "strtoull s =
     (let (neg, u) = split_sign (dropWhile isspace s);
          ds = takeWhile isdigit u; n = number_of 10 ds in
      if ds = [] then None
      else Some (if n \<ge> 2 ^ 64 then - 1 else if neg then - word_of_nat n else word_of_nat n,
                 dropWhile isdigit u))"

abbreviation strtoul :: "string \<Rightarrow> (u64 \<times> string) option" where
  "strtoul \<equiv> strtoull"

text \<open>\<^verbatim>\<open>strtol\<close> saturates at the bounds of a 64-bit \<^verbatim>\<open>long\<close>.\<close>

definition strtol :: "string \<Rightarrow> (int \<times> string) option" where
  "strtol s =
     (let (neg, u) = split_sign (dropWhile isspace s);
          ds = takeWhile isdigit u; n = int (number_of 10 ds) in
      if ds = [] then None
      else Some (if neg then max (- (2 ^ 63)) (- n) else min (2 ^ 63 - 1) n,
                 dropWhile isdigit u))"

lemma isdigit_not_space: "isdigit c \<Longrightarrow> \<not> isspace c"
  by (auto simp: isdigit_def isspace_def)

lemma isdigit_not_sign: "isdigit c \<Longrightarrow> c \<noteq> CHR ''-'' \<and> c \<noteq> CHR ''+''"
  by (auto simp: isdigit_def)

lemma split_digits:
  assumes "\<forall>c\<in>set ds. isdigit c" and "ds \<noteq> []" and "rest = [] \<or> \<not> isdigit (hd rest)"
  shows "split_sign (dropWhile isspace (ds @ rest)) = (False, ds @ rest)"
    and "takeWhile isdigit (ds @ rest) = ds" and "dropWhile isdigit (ds @ rest) = rest"
proof -
  obtain c ds' where ds: "ds = c # ds'" using assms(2) by (cases ds) auto
  then show "split_sign (dropWhile isspace (ds @ rest)) = (False, ds @ rest)"
    using assms(1) isdigit_not_space isdigit_not_sign by auto
  show "takeWhile isdigit (ds @ rest) = ds" "dropWhile isdigit (ds @ rest) = rest"
    using assms(1,3) by (cases rest; simp)+
qed

lemma strtoull_show_dec:
  assumes "n < 2 ^ 64" and "rest = [] \<or> \<not> isdigit (hd rest)"
  shows "strtoull (show_dec n @ rest) = Some (word_of_nat n, rest)"
  using split_digits [OF _ show_dec_nonempty assms(2), of n] show_dec_isdigit assms(1)
  by (simp add: strtoull_def)

lemma strtol_show_dec:
  assumes "n < 2 ^ 63" and "rest = [] \<or> \<not> isdigit (hd rest)"
  shows "strtol (show_dec n @ rest) = Some (int n, rest)"
  using split_digits [OF _ show_dec_nonempty assms(2), of n] show_dec_isdigit assms(1)
  by (simp add: strtol_def)

section \<open>Searching\<close>

text \<open>\<^verbatim>\<open>std::string::find\<close>: the index of the first occurrence.\<close>

fun find_from :: "string \<Rightarrow> string \<Rightarrow> nat \<Rightarrow> nat option" where
  "find_from pat [] i = (if pat = [] then Some i else None)"
| "find_from pat (c # s) i =
     (if take (length pat) (c # s) = pat then Some i else find_from pat s (Suc i))"

definition find_sub :: "string \<Rightarrow> string \<Rightarrow> nat option" where
  "find_sub pat s = find_from pat s 0"

definition has_prefix :: "string \<Rightarrow> string \<Rightarrow> bool" where
  "has_prefix pat s = (take (length pat) s = pat)"

lemma has_prefix_iff: "has_prefix pat s \<longleftrightarrow> (\<exists>r. s = pat @ r)"
  unfolding has_prefix_def by (metis append_eq_conv_conj append_take_drop_id)

lemma find_from_Some:
  "find_from pat s i = Some j \<Longrightarrow> \<exists>a b. s = a @ pat @ b \<and> j = i + length a \<and>
    (\<forall>k < length a. \<not> has_prefix pat (drop k s))"
proof (induction pat s i arbitrary: j rule: find_from.induct)
  case (1 pat i)
  then show ?case by (auto split: if_splits)
next
  case (2 pat c s i)
  show ?case
  proof (cases "take (length pat) (c # s) = pat")
    case True
    then have "j = i" "c # s = pat @ drop (length pat) (c # s)"
      using 2(2) append_take_drop_id [of "length pat" "c # s"] by auto
    then show ?thesis
      by - (rule exI [of _ "[]"], rule exI [of _ "drop (length pat) (c # s)"], simp)
  next
    case False
    then obtain a b where ab: "s = a @ pat @ b" "j = Suc i + length a"
      "\<forall>k < length a. \<not> has_prefix pat (drop k s)"
      using 2 by fastforce
    have "\<forall>k < length (c # a). \<not> has_prefix pat (drop k (c # s))"
    proof (intro allI impI)
      fix k assume "k < length (c # a)"
      then show "\<not> has_prefix pat (drop k (c # s))"
        using False ab(3) by (cases k) (simp_all add: has_prefix_def)
    qed
    then show ?thesis using ab by (intro exI [of _ "c # a"] exI [of _ b]) simp
  qed
qed

lemma find_from_None: "find_from pat s i = None \<longleftrightarrow> (\<forall>a b. s \<noteq> a @ pat @ b)"
proof (induction pat s i rule: find_from.induct)
  case (1 pat i)
  then show ?case by auto
next
  case (2 pat c s i)
  have "(\<forall>a b. c # s \<noteq> a @ pat @ b) \<longleftrightarrow> \<not> has_prefix pat (c # s) \<and> (\<forall>a b. s \<noteq> a @ pat @ b)"
    unfolding has_prefix_iff by (metis append_Cons append_Nil list.exhaust list.inject)
  then show ?case using 2 by (simp add: has_prefix_def)
qed

lemma find_sub_None: "find_sub pat s = None \<longleftrightarrow> (\<forall>a b. s \<noteq> a @ pat @ b)"
  by (simp add: find_sub_def find_from_None)

section \<open>Truncating copies\<close>

text \<open>
  \<^verbatim>\<open>snprintf(buf, n, ...)\<close> with \<open>0 < n\<close> stores the first \<open>n - 1\<close> characters and a
  NUL; \<^verbatim>\<open>strncpy\<close> into a zeroed buffer of \<open>n\<close> characters whose last one is then set to
  NUL stores the same.
\<close>

definition truncate_to :: "nat \<Rightarrow> string \<Rightarrow> string" where
  "truncate_to n s = take (n - 1) s"

lemma length_truncate_to: "0 < n \<Longrightarrow> length (truncate_to n s) < n"
  by (simp add: truncate_to_def)

lemma truncate_to_fits: "length s < n \<Longrightarrow> truncate_to n s = s"
  by (simp add: truncate_to_def)

end
