(* ===== verification/File_System.thy ===== *)
theory File_System
  imports Prelude "HOL-Library.AList"
begin

text \<open>
  The part of the C++ standard library and of POSIX that the daemon observes: paths as
  \<^verbatim>\<open>std::filesystem::path\<close> computes on them, a file system keyed by path, the two clocks,
  standard output and the log. A path names a file by its spelling: the daemon builds
  every path it uses from the configured directories by the same concatenations, so no
  normalisation is needed. A call of the daemon runs at one instant of both clocks; the
  environment moves them between calls.
\<close>

section \<open>Paths\<close>

definition filename :: "string \<Rightarrow> string" where
  "filename p = rev (takeWhile (\<lambda>c. c \<noteq> CHR ''/'') (rev p))"

text \<open>
  The extension runs from the last dot of the filename, but a filename whose only dot is
  its first character, and the names \<^verbatim>\<open>.\<close> and \<^verbatim>\<open>..\<close>, have none.
\<close>

definition extension :: "string \<Rightarrow> string" where
  "extension p =
     (let f = filename p; e = takeWhile (\<lambda>c. c \<noteq> CHR ''.'') (rev f) in
      if f = ''.'' \<or> f = ''..'' then []
      else if length e + 1 < length f then CHR ''.'' # rev e else [])"

definition replace_extension :: "string \<Rightarrow> string \<Rightarrow> string" where
  "replace_extension p r = take (length p - length (extension p)) p @ r"

definition dir_prefix :: "string \<Rightarrow> string" where
  "dir_prefix d = (if d = [] \<or> last d = CHR ''/'' then d else d @ ''/'')"

text \<open>\<^verbatim>\<open>operator/\<close> with a relative right-hand side.\<close>

definition path_append :: "string \<Rightarrow> string \<Rightarrow> string" where
  "path_append d f = dir_prefix d @ f"

definition is_child :: "string \<Rightarrow> string \<Rightarrow> bool" where
  "is_child d k = (filename k \<noteq> [] \<and> k = path_append d (filename k))"

lemma takeWhile_all: "(\<And>x. x \<in> set xs \<Longrightarrow> P x) \<Longrightarrow> takeWhile P xs = xs"
  by simp

lemma filename_append [simp]:
  assumes "CHR ''/'' \<notin> set f"
  shows "filename (p @ CHR ''/'' # f) = f"
proof -
  have "takeWhile (\<lambda>c. c \<noteq> CHR ''/'') (rev f @ CHR ''/'' # rev p) = rev f"
    using assms by (subst takeWhile_append2) auto
  then show ?thesis by (simp add: filename_def)
qed

lemma filename_simple [simp]:
  assumes "CHR ''/'' \<notin> set f"
  shows "filename f = f"
proof -
  have "takeWhile (\<lambda>c. c \<noteq> CHR ''/'') (rev f) = rev f"
    using assms by (intro takeWhile_all) auto
  then show ?thesis by (simp only: filename_def rev_rev_ident)
qed

lemma filename_no_slash: "CHR ''/'' \<notin> set (filename p)"
  by (auto simp: filename_def dest: set_takeWhileD)

lemma dir_prefix_cases: "dir_prefix d = [] \<or> (\<exists>p. dir_prefix d = p @ ''/'')"
  by (cases d rule: rev_cases) (auto simp: dir_prefix_def)

lemma filename_path_append [simp]:
  assumes "CHR ''/'' \<notin> set f"
  shows "filename (path_append d f) = f"
  using dir_prefix_cases [of d] assms by (auto simp: path_append_def)

lemma is_child_path_append [simp]:
  "CHR ''/'' \<notin> set f \<Longrightarrow> is_child d (path_append d f) \<longleftrightarrow> f \<noteq> []"
  by (simp add: is_child_def)

lemma is_child_irrefl: "\<not> is_child d d"
proof
  assume "is_child d d"
  then have "length (filename d) > 0" and "d = dir_prefix d @ filename d"
    by (auto simp: is_child_def path_append_def)
  then have "length d > length (dir_prefix d)"
    by (metis length_append less_add_same_cancel1)
  then show False by (simp add: dir_prefix_def split: if_splits)
qed

lemma length_extension_le: "length (extension p) \<le> length (filename p)"
  using length_takeWhile_le [of "\<lambda>c. c \<noteq> CHR ''.''" "rev (filename p)"]
  by (auto simp: extension_def Let_def)

lemma extension_of_filename: "extension (path_append d (filename p)) = extension (filename p)"
  by (simp add: extension_def filename_no_slash)

text \<open>A filename that ends in a dotted word without further dots has that extension.\<close>

lemma extension_dotted:
  assumes "f \<noteq> []" and "CHR ''.'' \<notin> set e" and "e \<noteq> []"
    and "CHR ''/'' \<notin> set (f @ e)"
  shows "extension (f @ CHR ''.'' # e) = CHR ''.'' # e"
proof -
  have tw: "takeWhile (\<lambda>c. c \<noteq> CHR ''.'') (rev e @ CHR ''.'' # rev f) = rev e"
    using assms(2) by (subst takeWhile_append2) auto
  have "filename (f @ CHR ''.'' # e) = f @ CHR ''.'' # e"
    using assms(4) by (intro filename_simple) auto
  moreover have "f @ CHR ''.'' # e \<noteq> ''.''" and "f @ CHR ''.'' # e \<noteq> ''..''"
    using assms(1,2,3) by (auto simp: append_eq_Cons_conv)
  ultimately show ?thesis
    using tw assms(1) by (simp add: extension_def)
qed

lemma extension_split:
  assumes "extension p \<noteq> []"
  shows "\<exists>f e. filename p = f @ CHR ''.'' # e \<and> f \<noteq> [] \<and> CHR ''.'' \<notin> set e
    \<and> extension p = CHR ''.'' # e"
proof -
  let ?f = "filename p"
  let ?e = "takeWhile (\<lambda>c. c \<noteq> CHR ''.'') (rev ?f)"
  have ext: "extension p = CHR ''.'' # rev ?e" and len: "length ?e + 1 < length ?f"
    using assms by (auto simp: extension_def Let_def split: if_splits)
  have "length ?e < length (rev ?f)" using len by simp
  then have dot: "rev ?f ! length ?e = CHR ''.''"
    using nth_length_takeWhile [of "\<lambda>c. c \<noteq> CHR ''.''" "rev ?f"] by auto
  have "rev ?f = ?e @ CHR ''.'' # drop (Suc (length ?e)) (rev ?f)"
    using dot \<open>length ?e < length (rev ?f)\<close>
    by (metis append_take_drop_id Cons_nth_drop_Suc takeWhile_eq_take)
  then have "?f = rev (drop (Suc (length ?e)) (rev ?f)) @ CHR ''.'' # rev ?e"
    by (metis append.assoc append_Cons append_Nil rev_append rev_rev_ident rev.simps(2))
  moreover have "rev (drop (Suc (length ?e)) (rev ?f)) \<noteq> []" using len by simp
  moreover have "CHR ''.'' \<notin> set (rev ?e)" by (auto dest: set_takeWhileD)
  ultimately show ?thesis using ext by blast
qed

lemma replace_extension_child:
  assumes "is_child d p" and "extension p \<noteq> []"
    and "r = CHR ''.'' # r'" and "CHR ''.'' \<notin> set r'" and "r' \<noteq> []" and "CHR ''/'' \<notin> set r'"
  shows "is_child d (replace_extension p r)" and "extension (replace_extension p r) = r"
proof -
  obtain f e where f: "filename p = f @ CHR ''.'' # e" "f \<noteq> []"
    and e: "extension p = CHR ''.'' # e"
    using extension_split [OF assms(2)] by blast
  have p: "p = dir_prefix d @ f @ CHR ''.'' # e"
    using assms(1) f(1) by (simp add: is_child_def path_append_def)
  have nf: "CHR ''/'' \<notin> set (f @ CHR ''.'' # r')"
    using filename_no_slash [of p] f(1) assms(6) by auto
  have "take (length p - length (extension p)) p = dir_prefix d @ f"
    unfolding e by (subst (2) p, subst (1) p) simp
  then have eq: "replace_extension p r = path_append d (f @ CHR ''.'' # r')"
    using assms(3) by (simp add: replace_extension_def path_append_def)
  then show "is_child d (replace_extension p r)"
    using nf f(2) by simp
  have "extension (path_append d (f @ CHR ''.'' # r')) = extension (f @ CHR ''.'' # r')"
    using nf extension_of_filename [of d "f @ CHR ''.'' # r'"] by simp
  also have "\<dots> = CHR ''.'' # r'"
    using f(2) assms(4,5) nf by (intro extension_dotted) auto
  finally show "extension (replace_extension p r) = r"
    using eq assms(3) by simp
qed

lemma has_parent:
  assumes "filename p \<noteq> []"
  obtains d where "is_child d p"
proof -
  let ?n = "length (takeWhile (\<lambda>c. c \<noteq> CHR ''/'') (rev p))"
  let ?d = "rev (dropWhile (\<lambda>c. c \<noteq> CHR ''/'') (rev p))"
  have p: "p = ?d @ filename p"
    unfolding filename_def by (metis rev_append rev_rev_ident takeWhile_dropWhile_id)
  have "?d = [] \<or> last ?d = CHR ''/''"
    using hd_dropWhile [of "\<lambda>c. c \<noteq> CHR ''/''" "rev p"] by (auto simp: last_rev)
  then have "dir_prefix ?d = ?d" by (auto simp: dir_prefix_def)
  then show thesis using p assms by (intro that [of ?d]) (simp add: is_child_def path_append_def)
qed

lemma extension_replace_extension:
  assumes "extension p \<noteq> []"
    and "r = CHR ''.'' # r'" and "CHR ''.'' \<notin> set r'" and "r' \<noteq> []" and "CHR ''/'' \<notin> set r'"
  shows "extension (replace_extension p r) = r"
proof -
  have "filename p \<noteq> []" using extension_split [OF assms(1)] by auto
  then obtain d where "is_child d p" by (rule has_parent)
  then show ?thesis using assms by (intro replace_extension_child(2)) auto
qed

section \<open>The world the daemon acts on\<close>

text \<open>
  A node is what a path names. \<open>Unresolvable e\<close> is an entry whose \<^verbatim>\<open>status\<close> call
  fails with \<open>e\<close> (a dangling symbolic link, or a link into a directory the daemon may
  not search); \<open>Stale e\<close> is an entry listed as a regular file that has been removed by
  another process before the daemon's \<^verbatim>\<open>stat\<close>, which then fails with \<open>e\<close>.
\<close>

datatype node =
    Directory
  | Regular (contents: bytes) (mtime_of: int)
  | Special
  | Unresolvable errno
  | Stale errno

text \<open>What the daemon logs through \<^verbatim>\<open>spdlog\<close>, with the data each message shows.\<close>

datatype log_event =
    Pruned string u64 string
  | PatchedModule string
  | PatchFailed string error
  | ReadFailed string error
  | SuppressedDuplicate string
  | ExportFailed string errno
  | Exported string
  | PruneFailed error

text \<open>
  \<open>nodes\<close> lists the files in the order a directory iterator meets them;
  \<open>unreadable\<close> and \<open>undeletable\<close> are the paths on which opening for reading (or
  \<^verbatim>\<open>opendir\<close>) and \<^verbatim>\<open>remove\<close> fail, with the error they report; \<open>read_fails\<close> are files that can be
  opened but not read (\<^verbatim>\<open>EIO\<close>). A write can fail in two ways: the file cannot be opened, or only
  its first bytes fit on the disk, the old content being gone by then.
\<close>

datatype write_fault = OpenFails errno | ShortWrite nat

record world =
  nodes :: "(string \<times> node) list"
  unreadable :: "string \<Rightarrow> errno option"
  undeletable :: "string \<Rightarrow> errno option"
  read_fails :: "string \<Rightarrow> bool"
  unwritable :: "string \<Rightarrow> write_fault option"
  wall_clock :: int
  steady_clock :: int
  out :: string
  log :: "log_event list"

definition lookup :: "world \<Rightarrow> string \<Rightarrow> node option" where
  "lookup w p = map_of (nodes w) p"

definition log_to :: "log_event \<Rightarrow> world \<Rightarrow> world" where
  "log_to e w = w\<lparr>log := log w @ [e]\<rparr>"

definition is_directory :: "world \<Rightarrow> string \<Rightarrow> bool" where
  "is_directory w d = (lookup w d = Some Directory)"

definition children :: "world \<Rightarrow> string \<Rightarrow> (string \<times> node) list" where
  "children w d = filter (\<lambda>kn. is_child d (fst kn)) (nodes w)"

definition directory_iterator :: "world \<Rightarrow> string \<Rightarrow> errno + (string \<times> node) list" where
  "directory_iterator w d =
     (case unreadable w d of Some e \<Rightarrow> Inl e | None \<Rightarrow> Inr (children w d))"

fun entry_is_regular_file :: "node \<Rightarrow> errno + bool" where
  "entry_is_regular_file (Regular bs t) = Inr True"
| "entry_is_regular_file (Stale e) = Inr True"
| "entry_is_regular_file (Unresolvable e) = Inl e"
| "entry_is_regular_file Directory = Inr False"
| "entry_is_regular_file Special = Inr False"

text \<open>\<^verbatim>\<open>stat\<close>: the size and the modification time, of the files the daemon asks about.\<close>

fun stat_node :: "node \<Rightarrow> errno + (u64 \<times> int)" where
  "stat_node (Regular bs t) = Inr (word_of_nat (length bs), t)"
| "stat_node (Stale e) = Inl e"
| "stat_node (Unresolvable e) = Inl e"
| "stat_node Directory = Inr (0, 0)"
| "stat_node Special = Inr (0, 0)"

text \<open>
  \<^verbatim>\<open>std::filesystem::remove\<close>: false without an error when nothing is there; otherwise
  an error, or true and the entry gone. A directory goes only when it is empty
  (\<^verbatim>\<open>ENOTEMPTY\<close> is 39).
\<close>

definition erase :: "string \<Rightarrow> world \<Rightarrow> world" where
  "erase p w = w\<lparr>nodes := filter (\<lambda>kn. fst kn \<noteq> p) (nodes w)\<rparr>"

definition remove_file :: "string \<Rightarrow> world \<Rightarrow> (errno + bool) \<times> world" where
  "remove_file p w =
     (case lookup w p of
        None \<Rightarrow> (Inr False, w)
      | Some (Stale e) \<Rightarrow> (Inr False, w)
      | Some n \<Rightarrow>
          (case undeletable w p of
             Some e \<Rightarrow> (Inl e, w)
           | None \<Rightarrow>
               if n = Directory \<and> children w p \<noteq> [] then (Inl 39, w)
               else (Inr True, erase p w)))"

definition can_open :: "string \<Rightarrow> world \<Rightarrow> bool" where
  "can_open p w = (unreadable w p = None \<and> (case lookup w p of Some (Regular bs t) \<Rightarrow> True | _ \<Rightarrow> False))"

definition read_file :: "string \<Rightarrow> world \<Rightarrow> bytes option" where
  "read_file p w =
     (case unreadable w p of
        Some e \<Rightarrow> None
      | None \<Rightarrow>
          if read_fails w p then None
          else (case lookup w p of Some (Regular bs t) \<Rightarrow> Some bs | _ \<Rightarrow> None))"

definition set_node :: "string \<Rightarrow> node \<Rightarrow> world \<Rightarrow> world" where
  "set_node p n w =
     w\<lparr>nodes := AList.update p n (nodes w)\<rparr>"

text \<open>Opening for writing with truncation, then the whole content, every error being seen.\<close>

definition write_file :: "string \<Rightarrow> bytes \<Rightarrow> world \<Rightarrow> (write_fault + unit) \<times> world" where
  "write_file p bs w =
     (case unwritable w p of
        Some (OpenFails e) \<Rightarrow> (Inl (OpenFails e), w)
      | Some (ShortWrite n) \<Rightarrow>
          if n < length bs
          then (Inl (ShortWrite n), set_node p (Regular (take n bs) (wall_clock w)) w)
          else (Inr (), set_node p (Regular bs (wall_clock w)) w)
      | None \<Rightarrow> (Inr (), set_node p (Regular bs (wall_clock w)) w))"

text \<open>
  An \<^verbatim>\<open>std::ofstream\<close> that is opened with truncation, written once and destroyed. The file buffer of
  the GNU library passes a write of at least \<open>ofstream_chunk\<close> bytes on at once, so that the
  stream fails with it; fewer bytes stay in the buffer until the destructor flushes them, and
  nobody sees the error of this flush.
\<close>

definition ofstream_chunk :: nat where "ofstream_chunk = 1024"

definition ofstream_write :: "string \<Rightarrow> bytes \<Rightarrow> world \<Rightarrow> (write_fault + unit) \<times> world" where
  "ofstream_write p bs w =
     (case write_file p bs w of
        (Inl (ShortWrite n), w1) \<Rightarrow>
          (if length bs < ofstream_chunk then Inr () else Inl (ShortWrite n), w1)
      | r \<Rightarrow> r)"

lemma ofstream_write_file: "\<exists>r'. write_file p bs w = (r', snd (ofstream_write p bs w))"
  by (auto simp: ofstream_write_def split: prod.split sum.split write_fault.split)

text \<open>
  \<^verbatim>\<open>copy_file\<close> with \<^verbatim>\<open>overwrite_existing\<close>; \<^verbatim>\<open>ENOENT\<close> is 2, \<^verbatim>\<open>EIO\<close> 5, \<^verbatim>\<open>EINVAL\<close> 22, \<^verbatim>\<open>ENOSPC\<close> 28.
\<close>

definition copy_file :: "string \<Rightarrow> string \<Rightarrow> world \<Rightarrow> (errno + unit) \<times> world" where
  "copy_file src dst w =
     (case read_file src w of
        None \<Rightarrow> (Inl (case unreadable w src of Some e \<Rightarrow> e | None \<Rightarrow> if can_open src w then 5 else 2), w)
      | Some bs \<Rightarrow>
          if lookup w dst = Some Directory \<or> lookup w dst = Some Special then (Inl 22, w)
          else (case write_file dst bs w of
            (Inl (OpenFails e), w1) \<Rightarrow> (Inl e, w1)
          | (Inl (ShortWrite n), w1) \<Rightarrow> (Inl 28, w1)
          | (Inr _, w1) \<Rightarrow> (Inr (), w1)))"

definition well_formed :: "world \<Rightarrow> bool" where
  "well_formed w = distinct (map fst (nodes w))"

text \<open>The bytes of all files, an upper bound for what any directory holds.\<close>

fun node_usage :: "string \<times> node \<Rightarrow> nat" where
  "node_usage (p, Regular bs t) = length bs"
| "node_usage (p, n) = 0"

definition disk_usage :: "world \<Rightarrow> nat" where
  "disk_usage w = sum_list (map node_usage (nodes w))"

section \<open>Facts about the store\<close>

lemma log_to_simps [simp]:
  "nodes (log_to e w) = nodes w" "lookup (log_to e w) p = lookup w p"
  "unreadable (log_to e w) = unreadable w" "undeletable (log_to e w) = undeletable w" "read_fails (log_to e w) = read_fails w"
  "unwritable (log_to e w) = unwritable w" "wall_clock (log_to e w) = wall_clock w"
  "steady_clock (log_to e w) = steady_clock w" "out (log_to e w) = out w"
  "log (log_to e w) = log w @ [e]"
  by (simp_all add: log_to_def lookup_def)

lemma erase_simps [simp]:
  "nodes (erase p w) = filter (\<lambda>kn. fst kn \<noteq> p) (nodes w)"
  "unreadable (erase p w) = unreadable w" "undeletable (erase p w) = undeletable w" "read_fails (erase p w) = read_fails w"
  "unwritable (erase p w) = unwritable w" "wall_clock (erase p w) = wall_clock w"
  "steady_clock (erase p w) = steady_clock w" "out (erase p w) = out w" "log (erase p w) = log w"
  by (simp_all add: erase_def)

lemma set_node_simps [simp]:
  "unreadable (set_node p n w) = unreadable w" "undeletable (set_node p n w) = undeletable w" "read_fails (set_node p n w) = read_fails w"
  "unwritable (set_node p n w) = unwritable w" "wall_clock (set_node p n w) = wall_clock w"
  "steady_clock (set_node p n w) = steady_clock w" "out (set_node p n w) = out w"
  "log (set_node p n w) = log w"
  by (simp_all add: set_node_def)

lemma map_of_filter_key:
  "map_of (filter (\<lambda>kn. P (fst kn)) xs) p = (if P p then map_of xs p else None)"
  by (induction xs) auto

lemma lookup_erase [simp]: "lookup (erase p w) q = (if q = p then None else lookup w q)"
  by (simp add: lookup_def map_of_filter_key [of "\<lambda>k. k \<noteq> p"])

lemma lookup_set_node [simp]: "lookup (set_node p n w) q = (if q = p then Some n else lookup w q)"
  by (simp add: lookup_def set_node_def update_conv')

lemma well_formed_erase [simp]: "well_formed w \<Longrightarrow> well_formed (erase p w)"
  by (simp add: well_formed_def distinct_map_filter)

lemma well_formed_log_to [simp]: "well_formed (log_to e w) = well_formed w"
  by (simp add: well_formed_def)

lemma well_formed_set_node [simp]: "well_formed w \<Longrightarrow> well_formed (set_node p n w)"
  by (simp add: well_formed_def set_node_def distinct_update)

lemma read_file_log_to [simp]: "read_file p (log_to e w) = read_file p w"
  unfolding read_file_def by (simp only: log_to_simps)

lemma children_filter:
  "nodes w' = filter P (nodes w) \<Longrightarrow> children w' d = filter P (children w d)"
  by (simp add: children_def conj_commute)

text \<open>Results of \<^const>\<open>remove_file\<close>: only the named entry can go, and only on success.\<close>

lemma remove_file_True [status_elims]:
  "remove_file p w = (Inr True, w') \<Longrightarrow> w' = erase p w"
  by (auto simp: remove_file_def split: option.splits node.splits if_splits)

lemma remove_file_cases:
  obtains "remove_file p w = (Inr True, erase p w)"
  | r where "remove_file p w = (r, w)" and "r \<noteq> Inr True"
proof (cases "remove_file p w")
  case (Pair r w')
  show thesis
  proof (cases "r = Inr True")
    case True
    with Pair that(1) show ?thesis by (auto dest: remove_file_True)
  next
    case False
    with Pair have "w' = w"
      by (auto simp: remove_file_def split: option.splits node.splits if_splits)
    with Pair False that(2) show ?thesis by blast
  qed
qed

lemma can_open_read: "read_file p w = Some bs \<Longrightarrow> can_open p w"
  by (auto simp: read_file_def can_open_def split: option.splits node.splits if_splits)

lemma disk_usage_log_to [simp]: "disk_usage (log_to e w) = disk_usage w"
  by (simp add: disk_usage_def)

lemma disk_usage_filter: "nodes w' = filter P (nodes w) \<Longrightarrow> disk_usage w' \<le> disk_usage w"
  unfolding disk_usage_def by (simp only:) (rule sum_list_filter_le_nat)

lemma disk_usage_set_node: "disk_usage (set_node p (Regular bs t) w) \<le> disk_usage w + length bs"
proof -
  have "sum_list (map node_usage (AList.update p (Regular bs t) ns)) \<le> sum_list (map node_usage ns) + length bs" for ns
    by (induction ns) auto
  then show ?thesis by (simp add: disk_usage_def set_node_def)
qed

lemma disk_usage_write_file: "write_file p bs w = (r, w') \<Longrightarrow> disk_usage w' \<le> disk_usage w + length bs"
proof -
  have "disk_usage (set_node p (Regular (take n bs) t) w) \<le> disk_usage w + length bs" for n t
    using disk_usage_set_node [of p "take n bs" t w] by simp
  moreover assume "write_file p bs w = (r, w')"
  ultimately show ?thesis
    using disk_usage_set_node [of p bs "wall_clock w" w]
    by (auto simp: write_file_def split: option.splits write_fault.splits if_splits)
qed

lemma disk_usage_read_file: "read_file p w = Some bs \<Longrightarrow> length bs \<le> disk_usage w"
proof -
  assume "read_file p w = Some bs"
  then obtain t where "(p, Regular bs t) \<in> set (nodes w)"
    by (auto simp: read_file_def lookup_def split: option.splits node.splits if_splits dest: map_of_SomeD)
  then have "length bs \<in> set (map node_usage (nodes w))" by (metis image_eqI set_map node_usage.simps(1))
  then show ?thesis unfolding disk_usage_def by (rule member_le_sum_list) simp
qed

text \<open>Writing files leaves the directories, and the entries that cannot be resolved, as they are.\<close>

definition unresolvable :: "string \<times> node \<Rightarrow> bool" where
  "unresolvable kn = (case snd kn of Unresolvable e \<Rightarrow> True | _ \<Rightarrow> False)"

definition writes_files :: "world \<Rightarrow> world \<Rightarrow> bool" where
  "writes_files w w' =
     (unreadable w' = unreadable w \<and> undeletable w' = undeletable w \<and>
      (\<forall>d. is_directory w' d = is_directory w d) \<and>
      (\<forall>kn\<in>set (nodes w'). kn \<in> set (nodes w) \<or> \<not> unresolvable kn))"

lemma writes_files_refl [simp]: "writes_files w w"
  by (simp add: writes_files_def)

lemma writes_files_trans: "writes_files a b \<Longrightarrow> writes_files b c \<Longrightarrow> writes_files a c"
  unfolding writes_files_def by metis

lemma writes_files_log_to [simp]: "writes_files w (log_to e w') = writes_files w w'"
  by (simp add: writes_files_def is_directory_def)

lemma writes_files_set_node:
  assumes "lookup w p \<noteq> Some Directory"
  shows "writes_files w (set_node p (Regular bs t) w)"
proof -
  have "set (AList.update k v al) \<subseteq> insert (k, v) (set al)" for k v and al :: "(string \<times> node) list"
    by (induction al) auto
  then have "set (nodes (set_node p (Regular bs t) w)) \<subseteq> insert (p, Regular bs t) (set (nodes w))"
    by (simp add: set_node_def)
  then show ?thesis using assms by (fastforce simp: writes_files_def is_directory_def unresolvable_def)
qed

lemma writes_files_write_file:
  "write_file p bs w = (r, w') \<Longrightarrow> lookup w p \<noteq> Some Directory \<Longrightarrow> writes_files w w'"
  using writes_files_set_node [of w p]
  by (auto simp: write_file_def split: option.splits write_fault.splits if_splits)

lemma read_file_regular: "read_file p w = Some bs \<Longrightarrow> \<exists>t. lookup w p = Some (Regular bs t)"
  by (auto simp: read_file_def split: option.splits node.splits if_splits)

end
