(* ===== verification/Disk_Manager.thy ===== *)
theory Disk_Manager
  imports "HOL-Library.Multiset" File_System "HOL-Library.Sublist"
begin

text \<open>
  \<^verbatim>\<open>daemon/disk_manager.cpp\<close>: pruning of the minidump database and of the export
  directory. The first section holds the code's data and operations in their order; the
  locales \<open>dir_listing\<close> and \<open>prune_pass\<close> state what the two directory passes of the code
  share, and are interpreted on the crash-report pass and on the export pass; the policy
  they implement is the abstract \<open>retained\<close>, the longest suffix of the oldest-first
  list that respects the limits.
\<close>

section \<open>Data\<close>

record CrashReport =
  dmp_path :: string
  meta_path :: string
  report_size :: u64
  report_mtime :: int

record ExportFile =
  export_file_path :: string
  export_size :: u64
  export_mtime :: int

record DiskManagerConfig =
  db_path :: string
  export_path :: string
  max_bytes :: u64
  max_age_seconds :: u32

section \<open>Listing\<close>

text \<open>
  The loop over a directory iterator shares one \<^verbatim>\<open>std::error_code\<close> between the iterator
  check at its head and the \<^verbatim>\<open>is_regular_file\<close> call in its body; the second argument is
  that variable. The sort is by modification time; \<^verbatim>\<open>std::ranges::sort\<close> leaves the order of
  equal keys open, and the model takes the order of the directory.
\<close>

fun ListCrashReports_loop ::
  "(string \<times> node) list \<Rightarrow> errno option \<Rightarrow> CrashReport list \<Rightarrow> errno option \<times> CrashReport list"
where
  "ListCrashReports_loop [] err reports = (err, reports)"
| "ListCrashReports_loop ((p, n) # es) err reports =
     (if err \<noteq> None then (err, reports)
      else case entry_is_regular_file n of
        Inl e \<Rightarrow> ListCrashReports_loop es (Some e) reports
      | Inr reg \<Rightarrow>
          if \<not> reg then ListCrashReports_loop es None reports
          else if extension p \<noteq> ''.dmp'' then ListCrashReports_loop es None reports
          else (case stat_node n of
            Inl e \<Rightarrow> ListCrashReports_loop es None reports
          | Inr (sz, mt) \<Rightarrow>
              ListCrashReports_loop es None
                (reports @ [\<lparr>dmp_path = p, meta_path = replace_extension p ''.meta'',
                             report_size = sz, report_mtime = mt\<rparr>])))"

definition ListCrashReports :: "string \<Rightarrow> world \<Rightarrow> CrashReport list status_or" where
  "ListCrashReports dir w =
     (if \<not> is_directory w dir then Inl (Error NotFoundError (''Not a directory: '' @ dir) 0)
      else case (case directory_iterator w dir of
                   Inl e \<Rightarrow> (Some e, [])
                 | Inr es \<Rightarrow> ListCrashReports_loop es None []) of
        (Some e, reports) \<Rightarrow>
          Inl (Error InternalError (''directory_iterator error for '' @ dir @ '': '') e)
      | (None, reports) \<Rightarrow> Inr (sort_key report_mtime reports))"

fun ListExportFiles_loop ::
  "string \<Rightarrow> (string \<times> node) list \<Rightarrow> errno option \<Rightarrow> ExportFile list \<Rightarrow> errno option \<times> ExportFile list"
where
  "ListExportFiles_loop ext [] err files = (err, files)"
| "ListExportFiles_loop ext ((p, n) # es) err files =
     (if err \<noteq> None then (err, files)
      else case entry_is_regular_file n of
        Inl e \<Rightarrow> ListExportFiles_loop ext es (Some e) files
      | Inr reg \<Rightarrow>
          if \<not> reg then ListExportFiles_loop ext es None files
          else if extension p \<noteq> ext then ListExportFiles_loop ext es None files
          else (case stat_node n of
            Inl e \<Rightarrow> ListExportFiles_loop ext es None files
          | Inr (sz, mt) \<Rightarrow>
              ListExportFiles_loop ext es None
                (files @ [\<lparr>export_file_path = p, export_size = sz, export_mtime = mt\<rparr>])))"

definition ListExportFiles :: "string \<Rightarrow> string \<Rightarrow> world \<Rightarrow> ExportFile list status_or" where
  "ListExportFiles ext dir w =
     (if \<not> is_directory w dir then Inl (Error NotFoundError (''Not a directory: '' @ dir) 0)
      else case (case directory_iterator w dir of
                   Inl e \<Rightarrow> (Some e, [])
                 | Inr es \<Rightarrow> ListExportFiles_loop ext es None []) of
        (Some e, files) \<Rightarrow>
          Inl (Error InternalError (''directory_iterator error for '' @ dir @ '': '') e)
      | (None, files) \<Rightarrow> Inr (sort_key export_mtime files))"

section \<open>Removal\<close>

text \<open>
  The removals return the new running total: the code updates it through a reference, or
  in place. A removal that finds nothing fails like one that is refused, with no error
  text. The \<^verbatim>\<open>.meta\<close> sidecar is removed best-effort.
\<close>

definition RemoveCrashReport ::
  "CrashReport \<Rightarrow> u64 \<Rightarrow> string \<Rightarrow> world \<Rightarrow> u64 status_or \<times> world"
where
  "RemoveCrashReport report total_bytes reason w =
     (case remove_file (dmp_path report) w of
        (Inl e, w1) \<Rightarrow>
          (Inl (Error InternalError (''Failed to remove '' @ dmp_path report @ '': '') e), w1)
      | (Inr False, w1) \<Rightarrow>
          (Inl (Error InternalError (''Failed to remove '' @ dmp_path report @ '': '') 0), w1)
      | (Inr True, w1) \<Rightarrow>
          (Inr (total_bytes - report_size report),
           snd (remove_file (meta_path report)
             (log_to (Pruned (dmp_path report) (report_size report) reason) w1))))"

definition RemoveExportFile ::
  "ExportFile \<Rightarrow> u64 \<Rightarrow> string \<Rightarrow> world \<Rightarrow> u64 status_or \<times> world"
where
  "RemoveExportFile file total_bytes reason w =
     (case remove_file (export_file_path file) w of
        (Inl e, w1) \<Rightarrow>
          (Inl (Error InternalError (''Failed to remove '' @ export_file_path file @ '': '') e), w1)
      | (Inr False, w1) \<Rightarrow>
          (Inl (Error InternalError (''Failed to remove '' @ export_file_path file @ '': '') 0), w1)
      | (Inr True, w1) \<Rightarrow>
          (Inr (total_bytes - export_size file),
           log_to (Pruned (export_file_path file) (export_size file) reason) w1))"

section \<open>The two passes\<close>

definition over_size :: "u64 \<Rightarrow> u64 \<Rightarrow> bool" where
  "over_size max_b total_bytes = (max_b > 0 \<and> total_bytes > max_b)"

text \<open>
  \<^verbatim>\<open>now\<close> and \<^verbatim>\<open>mtime\<close> are \<^verbatim>\<open>time_t\<close>: where their difference is positive it fits the
  \<^verbatim>\<open>uint64_t\<close> it is cast to, so the comparison is one of integers.
\<close>

definition over_age :: "u32 \<Rightarrow> int \<Rightarrow> int \<Rightarrow> bool" where
  "over_age max_age now mtime = (max_age > 0 \<and> now > mtime \<and> now - mtime > uint max_age)"

fun PrunePendingDir_loop ::
  "u64 \<Rightarrow> u32 \<Rightarrow> int \<Rightarrow> CrashReport list \<Rightarrow> u64 \<Rightarrow> world \<Rightarrow> status \<times> world"
where
  "PrunePendingDir_loop max_b max_age now [] total_bytes w = (OkStatus, w)"
| "PrunePendingDir_loop max_b max_age now (report # reports) total_bytes w =
     (if \<not> over_size max_b total_bytes \<and> \<not> over_age max_age now (report_mtime report)
      then PrunePendingDir_loop max_b max_age now reports total_bytes w
      else case RemoveCrashReport report total_bytes
                  (if over_age max_age now (report_mtime report) then ''age'' else ''size'') w of
        (Inl e, w1) \<Rightarrow> (Inl e, w1)
      | (Inr total1, w1) \<Rightarrow> PrunePendingDir_loop max_b max_age now reports total1 w1)"

definition PrunePendingDir :: "string \<Rightarrow> u64 \<Rightarrow> u32 \<Rightarrow> world \<Rightarrow> status \<times> world" where
  "PrunePendingDir dir max_b max_age w =
     (if max_b = 0 \<and> max_age = 0 then (OkStatus, w)
      else case ListCrashReports dir w of
        Inl e \<Rightarrow> (Inl e, w)
      | Inr reports \<Rightarrow>
          PrunePendingDir_loop max_b max_age (wall_clock w) reports
            (foldl (\<lambda>total r. total + report_size r) 0 reports) w)"

fun PruneExportDir_loop ::
  "u64 \<Rightarrow> u32 \<Rightarrow> int \<Rightarrow> ExportFile list \<Rightarrow> u64 \<Rightarrow> world \<Rightarrow> status \<times> world"
where
  "PruneExportDir_loop max_b max_age now [] total_bytes w = (OkStatus, w)"
| "PruneExportDir_loop max_b max_age now (file # files) total_bytes w =
     (if \<not> over_size max_b total_bytes \<and> \<not> over_age max_age now (export_mtime file)
      then PruneExportDir_loop max_b max_age now files total_bytes w
      else case RemoveExportFile file total_bytes
                  (if over_age max_age now (export_mtime file) then ''age'' else ''size'') w of
        (Inl e, w1) \<Rightarrow> (Inl e, w1)
      | (Inr total1, w1) \<Rightarrow> PruneExportDir_loop max_b max_age now files total1 w1)"

definition PruneExportDir :: "string \<Rightarrow> string \<Rightarrow> u64 \<Rightarrow> u32 \<Rightarrow> world \<Rightarrow> status \<times> world" where
  "PruneExportDir ext dir max_b max_age w =
     (if max_b = 0 \<and> max_age = 0 then (OkStatus, w)
      else case ListExportFiles ext dir w of
        Inl e \<Rightarrow> (Inl e, w)
      | Inr files \<Rightarrow>
          PruneExportDir_loop max_b max_age (wall_clock w) files
            (foldl (\<lambda>total f. total + export_size f) 0 files) w)"

section \<open>Public operations\<close>

definition pending_dir :: "DiskManagerConfig \<Rightarrow> string" where
  "pending_dir config = db_path config @ ''/pending''"

definition GetTotalMinidumpSize :: "string \<Rightarrow> world \<Rightarrow> u64 status_or" where
  "GetTotalMinidumpSize db w =
     (case ListCrashReports (db @ ''/pending'') w of
        Inl e \<Rightarrow> Inr 0
      | Inr reports \<Rightarrow> Inr (foldl (\<lambda>total r. total + report_size r) 0 reports))"

definition PruneMinidumps :: "DiskManagerConfig \<Rightarrow> world \<Rightarrow> status \<times> world" where
  "PruneMinidumps config w =
     (case PrunePendingDir (pending_dir config) (max_bytes config) (max_age_seconds config) w of
        (status, w1) \<Rightarrow>
          if \<not> ok status \<and> (case status of Inl e \<Rightarrow> code e \<noteq> NotFoundError | Inr _ \<Rightarrow> False)
          then (status, w1)
          else if export_path config \<noteq> []
          then PruneExportDir ''.crashdump'' (export_path config) (max_bytes config)
                 (max_age_seconds config) w1
          else (OkStatus, w1))"

section \<open>The retention policy\<close>

text \<open>
  What the passes promise: of the entries in oldest-first order, the longest suffix whose
  total size is within \<open>max_b\<close> (0: no limit) and none of which is older than
  \<open>max_age\<close> (0: no limit).
\<close>

definition total_size :: "('a \<Rightarrow> u64) \<Rightarrow> 'a list \<Rightarrow> nat" where
  "total_size sz xs = (\<Sum>x\<leftarrow>xs. unat (sz x))"

definition within_limits ::
  "('a \<Rightarrow> u64) \<Rightarrow> ('a \<Rightarrow> int) \<Rightarrow> u64 \<Rightarrow> u32 \<Rightarrow> int \<Rightarrow> 'a list \<Rightarrow> bool"
where
  "within_limits sz mt max_b max_age now xs =
     ((max_b > 0 \<longrightarrow> total_size sz xs \<le> unat max_b) \<and>
      (\<forall>x\<in>set xs. \<not> over_age max_age now (mt x)))"

fun retained ::
  "('a \<Rightarrow> u64) \<Rightarrow> ('a \<Rightarrow> int) \<Rightarrow> u64 \<Rightarrow> u32 \<Rightarrow> int \<Rightarrow> 'a list \<Rightarrow> 'a list"
where
  "retained sz mt max_b max_age now [] = []"
| "retained sz mt max_b max_age now (x # xs) =
     (if within_limits sz mt max_b max_age now (x # xs) then x # xs
      else retained sz mt max_b max_age now xs)"

lemma total_size_simps [simp]:
  "total_size sz [] = 0" "total_size sz (x # xs) = unat (sz x) + total_size sz xs"
  "total_size sz (xs @ ys) = total_size sz xs + total_size sz ys"
  by (simp_all add: total_size_def)

lemma within_limits_Nil [simp]: "within_limits sz mt max_b max_age now []"
  by (simp add: within_limits_def)

lemma within_limits_suffix:
  "within_limits sz mt max_b max_age now xs \<Longrightarrow> suffix ys xs
    \<Longrightarrow> within_limits sz mt max_b max_age now ys"
  by (auto simp: within_limits_def suffix_def)

lemma total_size_mset: "mset xs = mset ys \<Longrightarrow> total_size sz xs = total_size sz ys"
  by (simp only: total_size_def sum_mset_sum_list [symmetric] mset_map)

lemma retained_within: "within_limits sz mt max_b max_age now (retained sz mt max_b max_age now xs)"
  by (induction xs) simp_all

lemma retained_suffix: "suffix (retained sz mt max_b max_age now xs) xs"
  by (induction xs) (simp_all add: suffix_ConsI)

lemma retained_strict_suffix: "strict_suffix (retained sz mt max_b max_age now xs) (x # xs)"
proof -
  have "length (retained sz mt max_b max_age now xs) \<le> length xs"
    by (rule suffix_length_le [OF retained_suffix])
  then show ?thesis
    using suffix_ConsI [OF retained_suffix] by (auto simp: strict_suffix_def)
qed

lemma retained_longest:
  "suffix ys xs \<Longrightarrow> within_limits sz mt max_b max_age now ys
    \<Longrightarrow> suffix ys (retained sz mt max_b max_age now xs)"
  by (induction xs) (auto simp: suffix_Cons)

lemma retained_idem [simp]:
  "within_limits sz mt max_b max_age now xs \<Longrightarrow> retained sz mt max_b max_age now xs = xs"
  by (cases xs) simp_all

lemma retained_unlimited: "retained sz mt 0 0 now xs = xs"
  by (intro retained_idem) (simp add: within_limits_def over_age_def)

lemma over_age_mono: "over_age max_age now t \<Longrightarrow> t' \<le> t \<Longrightarrow> over_age max_age now t'"
  by (auto simp: over_age_def)

lemma total_size_suffix: "suffix ys xs \<Longrightarrow> total_size sz ys \<le> total_size sz xs"
  by (auto simp: suffix_def)

lemma foldl_total:
  "foldl (\<lambda>t x. t + sz x) a xs = a + word_of_nat (total_size sz xs)"
  by (induction xs arbitrary: a) (simp_all add: add.assoc)

section \<open>Deletions\<close>

text \<open>
  \<open>removes ext exts P w w'\<close>: from \<open>w\<close> to \<open>w'\<close> only entries went away. Of those with
  extension \<open>ext\<close> exactly the paths \<open>P\<close> went; every other one that went has an
  extension of \<open>exts\<close> and lies in the directory of a path of \<open>P\<close>.
\<close>

definition same_env :: "world \<Rightarrow> world \<Rightarrow> bool" where
  "same_env w w' = (unreadable w' = unreadable w \<and> undeletable w' = undeletable w \<and>
     read_fails w' = read_fails w \<and> unwritable w' = unwritable w \<and> wall_clock w' = wall_clock w \<and>
     steady_clock w' = steady_clock w \<and> out w' = out w)"

definition drops :: "string set \<Rightarrow> world \<Rightarrow> world \<Rightarrow> bool" where
  "drops V w w' = (same_env w w' \<and> nodes w' = filter (\<lambda>kn. fst kn \<notin> V) (nodes w))"

definition removes :: "string \<Rightarrow> string set \<Rightarrow> string set \<Rightarrow> world \<Rightarrow> world \<Rightarrow> bool" where
  "removes ext exts P w w' = (\<exists>V. drops V w w' \<and>
     (\<forall>q\<in>V. extension q \<in> exts \<and> (\<exists>p\<in>P. \<forall>d. is_child d p \<longrightarrow> is_child d q)) \<and>
     (\<forall>q. extension q = ext \<longrightarrow> (q \<in> V) = (q \<in> P)))"

lemma same_env_refl [simp]: "same_env w w"
  by (simp add: same_env_def)

lemma same_env_trans: "same_env w w1 \<Longrightarrow> same_env w1 w2 \<Longrightarrow> same_env w w2"
  by (simp add: same_env_def)

lemma drops_none [simp]: "drops {} w w"
  by (simp add: drops_def)

lemma drops_erase [simp]: "drops {p} w (erase p w)"
  by (simp add: drops_def same_env_def)

lemma drops_log_to: "drops V w w' \<Longrightarrow> drops V w (log_to e w')"
  by (simp add: drops_def same_env_def)

lemma drops_trans: "drops U w w1 \<Longrightarrow> drops V w1 w2 \<Longrightarrow> drops (U \<union> V) w w2"
  by (auto simp: drops_def conj_commute intro: same_env_trans filter_cong)

lemma lookup_drops: "drops V w w' \<Longrightarrow> lookup w' p = (if p \<in> V then None else lookup w p)"
  by (simp add: lookup_def drops_def map_of_filter_key [of "\<lambda>k. k \<notin> V"])

lemma children_drops: "drops V w w' \<Longrightarrow> children w' d = filter (\<lambda>kn. fst kn \<notin> V) (children w d)"
  by (rule children_filter) (simp add: drops_def)

lemma well_formed_drops: "drops V w w' \<Longrightarrow> well_formed w \<Longrightarrow> well_formed w'"
  by (simp add: drops_def well_formed_def distinct_map_filter)

lemma removes_none: "removes ext exts {} w w"
  unfolding removes_def by (rule exI [of _ "{}"]) simp

lemma removes_trans:
  assumes "removes ext exts P w w1" and "removes ext exts Q w1 w2"
  shows "removes ext exts (P \<union> Q) w w2"
proof -
  obtain U where U: "drops U w w1"
    "\<forall>q\<in>U. extension q \<in> exts \<and> (\<exists>p\<in>P. \<forall>d. is_child d p \<longrightarrow> is_child d q)"
    "\<forall>q. extension q = ext \<longrightarrow> (q \<in> U) = (q \<in> P)"
    using assms(1) by (auto simp: removes_def)
  obtain V where V: "drops V w1 w2"
    "\<forall>q\<in>V. extension q \<in> exts \<and> (\<exists>p\<in>Q. \<forall>d. is_child d p \<longrightarrow> is_child d q)"
    "\<forall>q. extension q = ext \<longrightarrow> (q \<in> V) = (q \<in> Q)"
    using assms(2) by (auto simp: removes_def)
  show ?thesis
    unfolding removes_def using drops_trans [OF U(1) V(1)] U(2,3) V(2,3) by blast
qed

lemma removes_frame:
  "removes ext exts P w w' \<Longrightarrow> lookup w' q \<noteq> lookup w q
    \<Longrightarrow> lookup w' q = None \<and> extension q \<in> exts \<and> (\<exists>p\<in>P. \<forall>d. is_child d p \<longrightarrow> is_child d q)"
  by (auto simp: removes_def lookup_drops split: if_splits)

section \<open>Listing a directory, for either kind of entry\<close>

text \<open>
  What a scan should yield from a directory without unresolvable entries: path, size and
  modification time of each regular file with the wanted extension.
\<close>

fun scanned :: "string \<Rightarrow> (string \<times> node) list \<Rightarrow> (string \<times> u64 \<times> int) list" where
  "scanned ext [] = []"
| "scanned ext ((p, n) # es) =
     (case n of
        Regular bs t \<Rightarrow>
          if extension p = ext then (p, word_of_nat (length bs), t) # scanned ext es
          else scanned ext es
      | _ \<Rightarrow> scanned ext es)"

lemma scanned_filter:
  "scanned ext (filter (\<lambda>kn. P (fst kn)) es) = filter (\<lambda>x. P (fst x)) (scanned ext es)"
  by (induction ext es rule: scanned.induct) (auto split: node.splits)

lemma scanned_subseq: "subseq (map fst (scanned ext es)) (map fst es)"
  by (induction ext es rule: scanned.induct) (auto split: node.splits)

lemma scanned_paths: "fst ` set (scanned ext es) \<subseteq> fst ` set es"
  using list_emb_set [OF scanned_subseq] by force

lemma scanned_distinct: "distinct (map fst es) \<Longrightarrow> distinct (map fst (scanned ext es))"
  using scanned_subseq [of ext es] by (auto simp: subseq_conv_nths distinct_nthsI)

lemma scanned_extension: "x \<in> set (scanned ext es) \<Longrightarrow> extension (fst x) = ext"
  by (induction ext es rule: scanned.induct) (auto split: node.splits if_splits)

locale dir_listing =
  fixes ext :: string
    and mk :: "string \<Rightarrow> u64 \<Rightarrow> int \<Rightarrow> 'a"
    and path_of :: "'a \<Rightarrow> string"
    and size_of :: "'a \<Rightarrow> u64"
    and mtime_of :: "'a \<Rightarrow> int"
    and scan :: "(string \<times> node) list \<Rightarrow> errno option \<Rightarrow> 'a list \<Rightarrow> errno option \<times> 'a list"
    and list_dir :: "string \<Rightarrow> world \<Rightarrow> 'a list status_or"
  assumes fields: "path_of (mk p s t) = p" "size_of (mk p s t) = s" "mtime_of (mk p s t) = t"
    and scan_Nil: "scan [] err acc = (err, acc)"
    and scan_Cons: "scan ((p, n) # es) err acc =
      (if err \<noteq> None then (err, acc)
       else case entry_is_regular_file n of
         Inl e \<Rightarrow> scan es (Some e) acc
       | Inr reg \<Rightarrow>
           if \<not> reg then scan es None acc
           else if extension p \<noteq> ext then scan es None acc
           else (case stat_node n of
             Inl e \<Rightarrow> scan es None acc
           | Inr (sz, mt) \<Rightarrow> scan es None (acc @ [mk p sz mt])))"
    and list_dir: "list_dir d w =
      (if \<not> is_directory w d then Inl (Error NotFoundError (''Not a directory: '' @ d) 0)
       else case (case directory_iterator w d of Inl e \<Rightarrow> (Some e, []) | Inr es \<Rightarrow> scan es None []) of
         (Some e, xs) \<Rightarrow> Inl (Error InternalError (''directory_iterator error for '' @ d @ '': '') e)
       | (None, xs) \<Rightarrow> Inr (sort_key mtime_of xs))"
begin

definition item :: "'a \<Rightarrow> bool" where
  "item x = (x = mk (path_of x) (size_of x) (mtime_of x) \<and> extension (path_of x) = ext)"

definition mk_all :: "(string \<times> u64 \<times> int) list \<Rightarrow> 'a list" where
  "mk_all = map (\<lambda>(p, s, t). mk p s t)"

lemma path_mk_all: "map path_of (mk_all xs) = map fst xs"
  by (induction xs) (auto simp: mk_all_def fields)

lemma scan_after_error: "scan es (Some e) acc = (Some e, acc)"
  by (cases es) (auto simp: scan_Nil scan_Cons split_paired_all)

lemma scan_resolvable:
  "\<forall>kn\<in>set es. \<not> unresolvable kn \<Longrightarrow> scan es None acc = (None, acc @ mk_all (scanned ext es))"
proof (induction es arbitrary: acc)
  case Nil
  show ?case by (simp add: scan_Nil mk_all_def)
next
  case (Cons kn es)
  obtain p n where "kn = (p, n)" by (cases kn)
  with Cons show ?case
    by (cases n) (auto simp: scan_Cons mk_all_def unresolvable_def)
qed

lemma scan_unresolvable:
  "\<forall>kn\<in>set as. \<not> unresolvable kn \<Longrightarrow>
    scan (as @ (p, Unresolvable e) # bs) None acc = (Some e, acc @ mk_all (scanned ext as))"
proof (induction as arbitrary: acc)
  case Nil
  show ?case by (simp add: scan_Cons scan_after_error mk_all_def)
next
  case (Cons kn es)
  obtain q n where "kn = (q, n)" by (cases kn)
  with Cons show ?case
    by (cases n) (auto simp: scan_Cons mk_all_def unresolvable_def)
qed

lemma first_unresolvable:
  assumes "\<not> (\<forall>kn\<in>set es. \<not> unresolvable kn)"
  obtains as p e bs where "es = as @ (p, Unresolvable e) # bs" "\<forall>kn\<in>set as. \<not> unresolvable kn"
proof -
  have "\<exists>kn\<in>set es. unresolvable kn" using assms by blast
  then obtain as kn bs where es: "es = as @ kn # bs" and kn: "unresolvable kn"
    and as: "\<forall>kn\<in>set as. \<not> unresolvable kn"
    by (metis split_list_first_prop)
  obtain p e where "kn = (p, Unresolvable e)"
    using kn by (cases kn) (auto simp: unresolvable_def split: node.splits)
  with that es as show thesis by blast
qed

text \<open>The listing succeeds exactly on a readable directory in which every entry resolves.\<close>

lemma list_dir_Inr_iff:
  "list_dir d w = Inr xs \<longleftrightarrow>
    is_directory w d \<and> unreadable w d = None \<and> (\<forall>kn\<in>set (children w d). \<not> unresolvable kn) \<and>
    xs = sort_key mtime_of (mk_all (scanned ext (children w d)))"
proof (cases "\<forall>kn\<in>set (children w d). \<not> unresolvable kn")
  case True
  then show ?thesis
    by (auto simp: list_dir directory_iterator_def scan_resolvable split: option.splits)
next
  case False
  then obtain as p e bs where "children w d = as @ (p, Unresolvable e) # bs"
    "\<forall>kn\<in>set as. \<not> unresolvable kn"
    by (rule first_unresolvable)
  then show ?thesis using False
    by (auto simp: list_dir directory_iterator_def scan_unresolvable split: option.splits)
qed

text \<open>One entry whose status cannot be read fails the listing of the whole directory.\<close>

lemma list_dir_unresolvable:
  assumes "is_directory w d" and "unreadable w d = None"
    and "children w d = as @ (p, Unresolvable e) # bs"
    and "\<forall>kn\<in>set as. \<not> unresolvable kn"
  shows "list_dir d w = Inl (Error InternalError (''directory_iterator error for '' @ d @ '': '') e)"
  using assms by (simp add: list_dir directory_iterator_def scan_unresolvable)

text \<open>Deletions of files of other kinds do not change what is listed.\<close>

lemma list_dir_other:
  assumes xs: "list_dir d w = Inr xs" and drop: "drops V w w'"
    and "\<forall>q\<in>V. extension q \<noteq> ext" and "is_directory w' d"
  shows "list_dir d w' = Inr xs"
proof -
  have ch: "children w' d = filter (\<lambda>kn. fst kn \<notin> V) (children w d)"
    using drop by (rule children_drops)
  have "scanned ext (children w' d) = filter (\<lambda>x. fst x \<notin> V) (scanned ext (children w d))"
    unfolding ch by (rule scanned_filter)
  also have "\<dots> = scanned ext (children w d)"
    using assms(3) scanned_extension by (intro filter_True) blast
  finally show ?thesis
    using xs drop assms(4) ch by (simp add: list_dir_Inr_iff drops_def same_env_def)
qed

lemma list_dir_sorted: "list_dir d w = Inr xs \<Longrightarrow> sorted (map mtime_of xs)"
  by (simp add: list_dir_Inr_iff)

lemma list_dir_distinct:
  assumes "list_dir d w = Inr xs" and "well_formed w"
  shows "distinct (map path_of xs)"
proof -
  have "distinct (map fst (children w d))"
    using assms(2) by (simp add: well_formed_def children_def distinct_map_filter)
  then have "distinct (map path_of (mk_all (scanned ext (children w d))))"
    by (simp add: path_mk_all scanned_distinct)
  then show ?thesis using assms(1) by (simp add: list_dir_Inr_iff distinct_map)
qed

lemma list_dir_item:
  assumes "list_dir d w = Inr xs" and "x \<in> set xs"
  shows "item x" and "is_child d (path_of x)"
proof -
  have "x \<in> set (mk_all (scanned ext (children w d)))"
    using assms by (simp add: list_dir_Inr_iff)
  then obtain p s t where x: "x = mk p s t" and in_scan: "(p, s, t) \<in> set (scanned ext (children w d))"
    by (auto simp: mk_all_def)
  show "item x" using x scanned_extension [OF in_scan] by (simp add: item_def fields)
  have "p \<in> fst ` set (children w d)" using in_scan scanned_paths by force
  then show "is_child d (path_of x)" using x by (auto simp: children_def fields)
qed

text \<open>What a directory lists takes no more room than the disk holds.\<close>

lemma scanned_usage: "sum_list (map (\<lambda>x. unat (fst (snd x))) (scanned ext es)) \<le> sum_list (map node_usage es)"
  by (induction ext es rule: scanned.induct)
    (auto split: node.splits simp: unsigned_of_nat take_bit_eq_mod intro: add_mono mod_less_eq_dividend le_trans)

lemma list_dir_usage:
  assumes "list_dir d w = Inr xs"
  shows "total_size size_of xs \<le> disk_usage w"
proof -
  let ?ys = "mk_all (scanned ext (children w d))"
  have "xs = sort_key mtime_of ?ys" using assms by (simp add: list_dir_Inr_iff)
  then have "mset xs = mset ?ys" by simp
  then have "total_size size_of xs = total_size size_of ?ys"
    by (rule total_size_mset)
  also have "\<dots> = sum_list (map (\<lambda>x. unat (fst (snd x))) (scanned ext (children w d)))"
    by (simp add: total_size_def mk_all_def comp_def case_prod_beta fields)
  also have "\<dots> \<le> sum_list (map node_usage (children w d))" by (rule scanned_usage)
  also have "\<dots> \<le> disk_usage w" unfolding disk_usage_def children_def by (rule sum_list_filter_le_nat)
  finally show ?thesis .
qed

lemma list_dir_items: "list_dir d w = Inr xs \<Longrightarrow> \<forall>x\<in>set xs. item x"
  using list_dir_item(1) by blast

end

section \<open>A pruning pass, for either kind of entry\<close>

locale prune_pass = dir_listing ext mk path_of size_of mtime_of scan list_dir
  for ext :: string
    and mk :: "string \<Rightarrow> u64 \<Rightarrow> int \<Rightarrow> 'a"
    and path_of :: "'a \<Rightarrow> string"
    and size_of :: "'a \<Rightarrow> u64"
    and mtime_of :: "'a \<Rightarrow> int"
    and scan :: "(string \<times> node) list \<Rightarrow> errno option \<Rightarrow> 'a list \<Rightarrow> errno option \<times> 'a list"
    and list_dir :: "string \<Rightarrow> world \<Rightarrow> 'a list status_or" +
  fixes exts :: "string set"
    and rm :: "'a \<Rightarrow> u64 \<Rightarrow> string \<Rightarrow> world \<Rightarrow> u64 status_or \<times> world"
    and loop :: "u64 \<Rightarrow> u32 \<Rightarrow> int \<Rightarrow> 'a list \<Rightarrow> u64 \<Rightarrow> world \<Rightarrow> status \<times> world"
    and pass :: "string \<Rightarrow> u64 \<Rightarrow> u32 \<Rightarrow> world \<Rightarrow> status \<times> world"
  assumes loop_Nil: "loop max_b max_age now [] tot w = (OkStatus, w)"
    and loop_Cons: "loop max_b max_age now (x # xs) tot w =
      (if \<not> over_size max_b tot \<and> \<not> over_age max_age now (mtime_of x)
       then loop max_b max_age now xs tot w
       else case rm x tot (if over_age max_age now (mtime_of x) then ''age'' else ''size'') w of
         (Inl e, w1) \<Rightarrow> (Inl e, w1)
       | (Inr tot1, w1) \<Rightarrow> loop max_b max_age now xs tot1 w1)"
    and pass: "pass d max_b max_age w =
      (if max_b = 0 \<and> max_age = 0 then (OkStatus, w)
       else case list_dir d w of
         Inl e \<Rightarrow> (Inl e, w)
       | Inr xs \<Rightarrow> loop max_b max_age (wall_clock w) xs (foldl (\<lambda>t x. t + size_of x) 0 xs) w)"
    and rm_Inr: "x = mk (path_of x) (size_of x) (mtime_of x) \<Longrightarrow> extension (path_of x) = ext
      \<Longrightarrow> rm x tot reason w = (Inr tot1, w1)
      \<Longrightarrow> tot1 = tot - size_of x \<and> removes ext exts {path_of x} w w1"
    and rm_Inl: "rm x tot reason w = (Inl e, w1) \<Longrightarrow> w1 = w \<and> code e = InternalError"
    and rm_succeeds: "lookup w (path_of x) = Some (Regular bs t) \<Longrightarrow> undeletable w (path_of x) = None
      \<Longrightarrow> ok (fst (rm x tot reason w))"
    and rm_refused: "lookup w (path_of x) = Some (Regular bs t) \<Longrightarrow> undeletable w (path_of x) = Some err
      \<Longrightarrow> rm x tot reason w = (Inl (Error InternalError (''Failed to remove '' @ path_of x @ '': '') err), w)"
begin

lemma rm_item:
  assumes "item x" and "rm x tot reason w = (Inr tot1, w1)"
  shows "tot1 = tot - size_of x" and "removes ext exts {path_of x} w w1"
  using rm_Inr [of x tot reason w tot1 w1] assms by (simp_all add: item_def)

lemma loop_within:
  "\<not> over_size max_b tot \<Longrightarrow> \<forall>x\<in>set xs. \<not> over_age max_age now (mtime_of x)
    \<Longrightarrow> loop max_b max_age now xs tot w = (OkStatus, w)"
  by (induction xs) (simp_all add: loop_Nil loop_Cons)

text \<open>An item is pruned exactly when the entries from it on exceed the limits.\<close>

lemma prune_head_iff:
  assumes "sorted (map mtime_of (x # xs))" and "total_size size_of (x # xs) < 2 ^ 64"
    and tot: "tot = word_of_nat (total_size size_of (x # xs))"
  shows "(over_size max_b tot \<or> over_age max_age now (mtime_of x)) =
    (\<not> within_limits size_of mtime_of max_b max_age now (x # xs))"
proof -
  have "unat tot = total_size size_of (x # xs)"
    using assms(2) unfolding tot by (intro unat_of_nat_small) simp
  then have "over_size max_b tot \<longleftrightarrow> \<not> (max_b > 0 \<longrightarrow> total_size size_of (x # xs) \<le> unat max_b)"
    by (auto simp: over_size_def word_less_nat_alt not_le)
  moreover have "over_age max_age now (mtime_of x) \<longleftrightarrow>
      \<not> (\<forall>y\<in>set (x # xs). \<not> over_age max_age now (mtime_of y))"
    using assms(1) by (auto intro: over_age_mono)
  ultimately show ?thesis unfolding within_limits_def by blast
qed

text \<open>
  The loop deletes a prefix; when it succeeds the rest is what the policy retains, and
  when a removal fails it stops there, with more left than the policy retains.
\<close>

lemma loop_prunes:
  assumes "sorted (map mtime_of xs)" and "total_size size_of xs < 2 ^ 64"
    and "tot = word_of_nat (total_size size_of xs)"
    and "\<forall>x\<in>set xs. item x"
    and "loop max_b max_age now xs tot w = (r, w')"
  shows "\<exists>ds rest. xs = ds @ rest \<and> removes ext exts (path_of ` set ds) w w' \<and>
    (case r of
       Inr _ \<Rightarrow> rest = retained size_of mtime_of max_b max_age now xs
     | Inl e \<Rightarrow> code e = InternalError \<and>
         strict_suffix (retained size_of mtime_of max_b max_age now xs) rest)"
  using assms
proof (induction xs arbitrary: tot w)
  case Nil
  then show ?case by (auto simp: loop_Nil removes_none)
next
  case (Cons x xs)
  let ?ret = "retained size_of mtime_of max_b max_age now"
  note head = prune_head_iff [OF Cons.prems(1,2,3), of max_b max_age now]
  show ?case
  proof (cases "within_limits size_of mtime_of max_b max_age now (x # xs)")
    case True
    then have "\<not> over_size max_b tot" "\<forall>y\<in>set (x # xs). \<not> over_age max_age now (mtime_of y)"
      using head by (auto simp: within_limits_def)
    then have "r = OkStatus" "w' = w" using Cons.prems(5) loop_within by fastforce+
    then show ?thesis using True
      by - (rule exI [of _ "[]"], rule exI [of _ "x # xs"], simp add: removes_none)
  next
    case False
    let ?reason = "if over_age max_age now (mtime_of x) then ''age'' else ''size''"
    obtain r1 w1 where rm: "rm x tot ?reason w = (r1, w1)" by fastforce
    have step: "(case r1 of Inl e \<Rightarrow> (Inl e, w1) | Inr t1 \<Rightarrow> loop max_b max_age now xs t1 w1) = (r, w')"
      using Cons.prems(5) False head rm by (auto simp: loop_Cons split: sum.splits)
    show ?thesis
    proof (cases r1)
      case (Inl e)
      then have "r = Inl e" "w' = w" "code e = InternalError"
        using step rm rm_Inl by auto
      moreover have "strict_suffix (?ret xs) (x # xs)"
        by (rule retained_strict_suffix)
      ultimately show ?thesis using False
        by - (rule exI [of _ "[]"], rule exI [of _ "x # xs"], simp add: removes_none)
    next
      case (Inr t1)
      have "item x" using Cons.prems(4) by simp
      then have t1: "t1 = tot - size_of x" and rm1: "removes ext exts {path_of x} w w1"
        using rm_item [of x tot ?reason w t1 w1] rm Inr by simp_all
      have "t1 = word_of_nat (total_size size_of xs)"
        using Cons.prems(3) by (simp add: t1)
      moreover have "loop max_b max_age now xs t1 w1 = (r, w')" using step Inr by simp
      ultimately obtain ds rest where ih: "xs = ds @ rest" "removes ext exts (path_of ` set ds) w1 w'"
        "case r of Inr _ \<Rightarrow> rest = ?ret xs
          | Inl e \<Rightarrow> code e = InternalError \<and> strict_suffix (?ret xs) rest"
        using Cons.IH [of t1 w1] Cons.prems(1,2,4) by auto
      have "removes ext exts (path_of ` set (x # ds)) w w'"
        using removes_trans [OF rm1 ih(2)] by simp
      moreover have ret: "?ret (x # xs) = ?ret xs" using False by simp
      ultimately show ?thesis unfolding ret using ih(1,3)
        by - (rule exI [of _ "x # ds"], rule exI [of _ rest], simp)
    qed
  qed
qed

lemma loop_removes:
  assumes "\<forall>x\<in>set xs. item x"
    and "loop max_b max_age now xs tot w = (r, w')"
  shows "\<exists>P \<subseteq> path_of ` set xs. removes ext exts P w w'"
  using assms
proof (induction xs arbitrary: tot w)
  case Nil
  then show ?case by (auto simp: loop_Nil removes_none)
next
  case (Cons x xs)
  let ?reason = "if over_age max_age now (mtime_of x) then ''age'' else ''size''"
  have x: "item x" using Cons.prems(1) by simp
  obtain r1 w1 where rm: "rm x tot ?reason w = (r1, w1)" by fastforce
  consider "loop max_b max_age now xs tot w = (r, w')"
    | e where "r1 = Inl e" "w' = w1"
    | t1 where "r1 = Inr t1" "loop max_b max_age now xs t1 w1 = (r, w')"
    using Cons.prems(2) rm by (auto simp: loop_Cons split: if_splits sum.splits)
  then show ?case
  proof cases
    case 1
    then obtain P where "P \<subseteq> path_of ` set xs" "removes ext exts P w w'"
      using Cons.IH [of tot w] Cons.prems(1) by auto
    then show ?thesis by auto
  next
    case 2
    then have "w' = w" using rm_Inl rm by blast
    then show ?thesis using removes_none by blast
  next
    case 3
    have "removes ext exts {path_of x} w w1" using rm_item(2) [OF x] rm 3(1) by blast
    moreover obtain P where "P \<subseteq> path_of ` set xs" "removes ext exts P w1 w'"
      using Cons.IH [of t1 w1] Cons.prems(1) 3(2) by auto
    ultimately show ?thesis
      by (intro exI [of _ "{path_of x} \<union> P"]) (auto intro: removes_trans [of _ _ "{path_of x}", simplified])
  qed
qed

text \<open>After deletions the directory lists the entries that were not deleted.\<close>

lemma list_dir_after:
  assumes xs: "list_dir d w = Inr (ds @ rest)" and "well_formed w"
    and rem: "removes ext exts (path_of ` set ds) w w'"
  shows "list_dir d w' = Inr rest"
proof -
  let ?P = "path_of ` set ds"
  obtain V where V: "drops V w w'" "\<forall>q\<in>V. \<exists>p\<in>?P. \<forall>d. is_child d p \<longrightarrow> is_child d q"
    "\<forall>q. extension q = ext \<longrightarrow> (q \<in> V) = (q \<in> ?P)"
    using rem by (auto simp: removes_def)
  note listed = xs [unfolded list_dir_Inr_iff]
  have "\<forall>q\<in>V. is_child d q" using V(2) list_dir_item(2) [OF xs] by fastforce
  then have "d \<notin> V" using is_child_irrefl by blast
  then have dir: "is_directory w' d"
    using listed by (simp add: is_directory_def lookup_drops [OF V(1)])
  have ch: "children w' d = filter (\<lambda>kn. fst kn \<notin> V) (children w d)"
    using V(1) by (rule children_drops)
  have "scanned ext (children w' d) = filter (\<lambda>x. fst x \<notin> V) (scanned ext (children w d))"
    unfolding ch by (rule scanned_filter)
  also have "\<dots> = filter (\<lambda>x. fst x \<notin> ?P) (scanned ext (children w d))"
    using V(3) scanned_extension by (intro filter_cong) auto
  finally have "mk_all (scanned ext (children w' d)) =
      filter (\<lambda>x. path_of x \<notin> ?P) (mk_all (scanned ext (children w d)))"
    by (simp add: mk_all_def filter_map comp_def case_prod_beta fields)
  then have "sort_key mtime_of (mk_all (scanned ext (children w' d))) =
      filter (\<lambda>x. path_of x \<notin> ?P) (ds @ rest)"
    using listed by (simp add: filter_sort_key)
  also have "\<dots> = rest"
    using list_dir_distinct [OF xs assms(2)] by (rule distinct_suffix_filter)
  finally show ?thesis
    using dir listed V(1) ch by (simp add: list_dir_Inr_iff drops_def same_env_def)
qed

lemma pass_outcome:
  assumes xs: "list_dir d w = Inr xs" and "well_formed w" and "total_size size_of xs < 2 ^ 64"
    and run: "pass d max_b max_age w = (r, w')"
  shows "\<exists>ds rest. xs = ds @ rest \<and> removes ext exts (path_of ` set ds) w w' \<and>
    list_dir d w' = Inr rest \<and>
    (case r of
       Inr _ \<Rightarrow> rest = retained size_of mtime_of max_b max_age (wall_clock w) xs
     | Inl e \<Rightarrow> code e = InternalError \<and>
         strict_suffix (retained size_of mtime_of max_b max_age (wall_clock w) xs) rest)"
proof (cases "max_b = 0 \<and> max_age = 0")
  case True
  then have "r = OkStatus" "w' = w" using run by (auto simp: pass)
  then show ?thesis using True xs
    by - (rule exI [of _ "[]"], rule exI [of _ xs], simp add: retained_unlimited removes_none)
next
  case False
  have items: "\<forall>x\<in>set xs. item x"
    by (rule list_dir_items [OF xs])
  have "loop max_b max_age (wall_clock w) xs (word_of_nat (total_size size_of xs)) w = (r, w')"
    using run xs False by (auto simp: pass foldl_total)
  then obtain ds rest where "xs = ds @ rest" "removes ext exts (path_of ` set ds) w w'"
    "case r of
       Inr _ \<Rightarrow> rest = retained size_of mtime_of max_b max_age (wall_clock w) xs
     | Inl e \<Rightarrow> code e = InternalError \<and>
         strict_suffix (retained size_of mtime_of max_b max_age (wall_clock w) xs) rest"
    using loop_prunes [OF list_dir_sorted [OF xs] assms(3) refl items] by blast
  then show ?thesis using list_dir_after [of d w ds rest w'] xs assms(2) by blast
qed

text \<open>A directory within the limits is left alone.\<close>

lemma pass_idle:
  assumes xs: "list_dir d w = Inr xs" and "total_size size_of xs < 2 ^ 64"
    and within: "within_limits size_of mtime_of max_b max_age (wall_clock w) xs"
  shows "pass d max_b max_age w = (OkStatus, w)"
proof -
  have "unat (word_of_nat (total_size size_of xs) :: u64) = total_size size_of xs"
    using assms(2) by (intro unat_of_nat_small) simp
  then have "\<not> over_size max_b (word_of_nat (total_size size_of xs))"
    using within by (auto simp: within_limits_def over_size_def word_less_nat_alt)
  then show ?thesis
    using xs within by (simp add: pass foldl_total loop_within within_limits_def)
qed

lemma pass_removes:
  assumes "pass d max_b max_age w = (r, w')"
  shows "\<exists>P. removes ext exts P w w' \<and> (\<forall>p\<in>P. is_child d p)"
proof (cases "(max_b = 0 \<and> max_age = 0) \<or> (\<exists>e. list_dir d w = Inl e)")
  case True
  then have "w' = w" using assms by (auto simp: pass split: if_splits)
  then show ?thesis using removes_none by blast
next
  case False
  then obtain xs where xs: "list_dir d w = Inr xs" by (cases "list_dir d w") auto
  have "\<forall>x\<in>set xs. item x"
    by (rule list_dir_items [OF xs])
  moreover have "loop max_b max_age (wall_clock w) xs (foldl (\<lambda>t x. t + size_of x) 0 xs) w = (r, w')"
    using assms xs False by (auto simp: pass)
  ultimately obtain P where "P \<subseteq> path_of ` set xs" "removes ext exts P w w'"
    using loop_removes [of xs max_b max_age "wall_clock w"] by meson
  then show ?thesis using list_dir_item(2) [OF xs] by blast
qed

lemma loop_succeeds:
  assumes "distinct (map path_of xs)"
    and "\<forall>x\<in>set xs. item x"
    and "\<forall>x\<in>set xs. (\<exists>bs t. lookup w (path_of x) = Some (Regular bs t)) \<and>
      undeletable w (path_of x) = None"
  shows "ok (fst (loop max_b max_age now xs tot w))"
  using assms
proof (induction xs arbitrary: tot w)
  case Nil
  show ?case by (simp add: loop_Nil)
next
  case (Cons x xs)
  let ?reason = "if over_age max_age now (mtime_of x) then ''age'' else ''size''"
  have x: "item x" using Cons.prems(2) by simp
  obtain t1 w1 where rm: "rm x tot ?reason w = (Inr t1, w1)"
    using rm_succeeds [of w x _ _ tot ?reason] Cons.prems(3)
    by (cases "rm x tot ?reason w") (auto simp: ok_iff)
  have rem: "removes ext exts {path_of x} w w1" using rm_item(2) [OF x rm] .
  have "lookup w1 (path_of y) = lookup w (path_of y) \<and> undeletable w1 = undeletable w"
    if y: "y \<in> set xs" for y
  proof -
    have "path_of y \<in> path_of ` set xs" using y by blast
    then have "path_of y \<noteq> path_of x" using Cons.prems(1) by auto
    moreover have "extension (path_of y) = ext" using Cons.prems(2) y by (simp add: item_def)
    ultimately
    show ?thesis using rem by (auto simp: removes_def lookup_drops drops_def same_env_def)
  qed
  then have "\<forall>y\<in>set xs. (\<exists>bs t. lookup w1 (path_of y) = Some (Regular bs t)) \<and>
      undeletable w1 (path_of y) = None"
    using Cons.prems(3) by auto
  then have "ok (fst (loop max_b max_age now xs t1 w1))"
    using Cons.IH Cons.prems(1,2) by simp
  moreover have "ok (fst (loop max_b max_age now xs tot w))"
    using Cons.IH Cons.prems by simp
  ultimately show ?case using rm by (simp add: loop_Cons)
qed

lemma listed_is_regular:
  assumes xs: "list_dir d w = Inr xs" and "well_formed w" and "x \<in> set xs"
  shows "\<exists>bs t. lookup w (path_of x) = Some (Regular bs t)"
proof -
  have scan: "(p, s, t) \<in> set (scanned ext es) \<Longrightarrow> \<exists>bs. (p, Regular bs t) \<in> set es" for p s t es
    by (induction ext es rule: scanned.induct) (auto split: node.splits if_splits)
  have "x \<in> set (mk_all (scanned ext (children w d)))"
    using assms by (simp add: list_dir_Inr_iff)
  then obtain p s t where "x = mk p s t" "(p, s, t) \<in> set (scanned ext (children w d))"
    by (auto simp: mk_all_def)
  then obtain bs where "(path_of x, Regular bs t) \<in> set (nodes w)"
    using scan by (fastforce simp: fields children_def)
  then show ?thesis using assms(2) by (auto simp: lookup_def well_formed_def)
qed

text \<open>What is listed stays as it is while other listed items are removed.\<close>

lemma removes_other_item:
  assumes "removes ext exts {path_of x} w w1" and "item y" and "path_of y \<noteq> path_of x"
  shows "lookup w1 (path_of y) = lookup w (path_of y) \<and> undeletable w1 = undeletable w"
  using assms by (auto simp: removes_def lookup_drops drops_def same_env_def item_def)

text \<open>The first item to be pruned that cannot be deleted ends the loop with its error.\<close>

lemma loop_stops:
  assumes "sorted (map mtime_of (gone @ r # left))" and "total_size size_of (gone @ r # left) < 2 ^ 64"
    and "tot = word_of_nat (total_size size_of (gone @ r # left))"
    and "\<forall>x\<in>set (gone @ r # left). item x" and "distinct (map path_of (gone @ r # left))"
    and "\<forall>x\<in>set (gone @ [r]). \<exists>bs t. lookup w (path_of x) = Some (Regular bs t)"
    and "\<forall>x\<in>set gone. undeletable w (path_of x) = None" and "undeletable w (path_of r) = Some e"
    and "length (retained size_of mtime_of max_b max_age now (gone @ r # left)) \<le> length left"
  shows "\<exists>w'. loop max_b max_age now (gone @ r # left) tot w =
      (Inl (Error InternalError (''Failed to remove '' @ path_of r @ '': '') e), w') \<and>
    removes ext exts (path_of ` set gone) w w'"
  using assms
proof (induction gone arbitrary: tot w)
  case Nil
  have "\<not> within_limits size_of mtime_of max_b max_age now (r # left)" using Nil.prems(9) by auto
  then have "over_size max_b tot \<or> over_age max_age now (mtime_of r)"
    using prune_head_iff [of r left tot max_b max_age now] Nil.prems(1-3) by simp
  moreover obtain bs t where "lookup w (path_of r) = Some (Regular bs t)" using Nil.prems(6) by auto
  ultimately show ?case
    using rm_refused [of w r bs t e tot] Nil.prems(8) removes_none by (auto simp: loop_Cons)
next
  case (Cons x gone)
  let ?xs = "gone @ r # left"
  let ?reason = "if over_age max_age now (mtime_of x) then ''age'' else ''size''"
  have not_within: "\<not> within_limits size_of mtime_of max_b max_age now (x # ?xs)" using Cons.prems(9) by auto
  then have over: "over_size max_b tot \<or> over_age max_age now (mtime_of x)"
    using prune_head_iff [of x ?xs tot max_b max_age now] Cons.prems(1-3) by simp
  obtain bs t where x: "lookup w (path_of x) = Some (Regular bs t)" "item x" "undeletable w (path_of x) = None"
    using Cons.prems(4,6,7) by auto
  then obtain t1 w1 where rm: "rm x tot ?reason w = (Inr t1, w1)"
    using rm_succeeds [of w x bs t tot ?reason] by (cases "rm x tot ?reason w") (auto simp: ok_iff)
  note gone = rm_item [OF x(2) rm]
  have keep: "lookup w1 (path_of y) = lookup w (path_of y) \<and> undeletable w1 = undeletable w"
    if "y \<in> set ?xs" for y
  proof -
    have "item y" using that Cons.prems(4) by auto
    have "path_of y \<in> path_of ` set ?xs" using that by blast
    moreover have "path_of x \<notin> path_of ` set ?xs" using Cons.prems(5) by (simp add: image_Un)
    ultimately have "path_of y \<noteq> path_of x" by metis
    with \<open>item y\<close> show ?thesis using removes_other_item [OF gone(2)] by blast
  qed
  have same: "undeletable w1 = undeletable w" using keep [of r] by simp
  have "\<exists>w'. loop max_b max_age now ?xs t1 w1 =
      (Inl (Error InternalError (''Failed to remove '' @ path_of r @ '': '') e), w') \<and>
    removes ext exts (path_of ` set gone) w1 w'"
  proof (rule Cons.IH)
    show "t1 = word_of_nat (total_size size_of ?xs)" using Cons.prems(3) gone(1) by simp
    show "\<forall>y\<in>set (gone @ [r]). \<exists>bs t. lookup w1 (path_of y) = Some (Regular bs t)"
      using Cons.prems(6) keep by auto
    show "\<forall>y\<in>set gone. undeletable w1 (path_of y) = None" "undeletable w1 (path_of r) = Some e"
      using Cons.prems(7,8) same by simp_all
    show "length (retained size_of mtime_of max_b max_age now ?xs) \<le> length left"
      using Cons.prems(9) not_within by simp
  qed (use Cons.prems(1,2,4,5) in auto)
  then obtain w' where w': "loop max_b max_age now ?xs t1 w1 =
      (Inl (Error InternalError (''Failed to remove '' @ path_of r @ '': '') e), w')"
    "removes ext exts (path_of ` set gone) w1 w'" by blast
  have "removes ext exts (path_of ` set (x # gone)) w w'" using removes_trans [OF gone(2) w'(2)] by simp
  then show ?case using over rm w'(1) by (auto simp: loop_Cons)
qed

text \<open>A pass over deletable files of a listable directory succeeds.\<close>

lemma pass_succeeds:
  assumes xs: "list_dir d w = Inr xs" and "well_formed w"
    and "\<forall>p. is_child d p \<and> extension p = ext \<longrightarrow> undeletable w p = None"
  shows "ok (fst (pass d max_b max_age w))"
proof -
  have "\<forall>x\<in>set xs. (\<exists>bs t. lookup w (path_of x) = Some (Regular bs t)) \<and>
      undeletable w (path_of x) = None"
    using listed_is_regular [OF xs assms(2)] list_dir_item [OF xs] assms(3) unfolding item_def by blast
  moreover have "\<forall>x\<in>set xs. item x"
    by (rule list_dir_items [OF xs])
  ultimately show ?thesis
    using loop_succeeds list_dir_distinct [OF xs assms(2)] xs by (simp add: pass)
qed

lemma pass_stops:
  assumes xs: "list_dir d w = Inr (gone @ r # left)" and "well_formed w"
    and "total_size size_of (gone @ r # left) < 2 ^ 64"
    and "length (retained size_of mtime_of max_b max_age (wall_clock w) (gone @ r # left)) \<le> length left"
    and "\<forall>x\<in>set gone. undeletable w (path_of x) = None" and "undeletable w (path_of r) = Some e"
  shows "\<exists>w'. pass d max_b max_age w =
      (Inl (Error InternalError (''Failed to remove '' @ path_of r @ '': '') e), w') \<and>
    removes ext exts (path_of ` set gone) w w' \<and> list_dir d w' = Inr (r # left)"
proof -
  have "\<forall>x\<in>set (gone @ [r]). \<exists>bs t. lookup w (path_of x) = Some (Regular bs t)"
    using listed_is_regular [OF xs assms(2)] by auto
  then obtain w' where w': "loop max_b max_age (wall_clock w) (gone @ r # left)
      (word_of_nat (total_size size_of (gone @ r # left))) w =
      (Inl (Error InternalError (''Failed to remove '' @ path_of r @ '': '') e), w')"
    "removes ext exts (path_of ` set gone) w w'"
    using loop_stops [OF list_dir_sorted [OF xs] assms(3) refl list_dir_items [OF xs]
        list_dir_distinct [OF xs assms(2)] _ assms(5,6,4)] by blast
  have "\<not> (max_b = 0 \<and> max_age = 0)" using assms(4) by (auto simp: retained_unlimited)
  then have "pass d max_b max_age w = loop max_b max_age (wall_clock w) (gone @ r # left)
      (word_of_nat (total_size size_of (gone @ r # left))) w"
    by (simp only: pass xs foldl_total if_False sum.case add_0)
  then show ?thesis using w' list_dir_after [OF xs assms(2) w'(2)] by simp
qed

end

section \<open>The two interpretations\<close>

lemma RemoveCrashReport_Inl:
  "RemoveCrashReport r tot reason w = (Inl e, w1) \<Longrightarrow> w1 = w \<and> code e = InternalError"
  by (cases rule: remove_file_cases [of "dmp_path r" w])
    (auto simp: RemoveCrashReport_def split: sum.splits bool.splits)

lemma RemoveExportFile_Inl:
  "RemoveExportFile f tot reason w = (Inl e, w1) \<Longrightarrow> w1 = w \<and> code e = InternalError"
  by (cases rule: remove_file_cases [of "export_file_path f" w])
    (auto simp: RemoveExportFile_def split: sum.splits bool.splits)

lemma RemoveCrashReport_drops:
  assumes "RemoveCrashReport r tot reason w = (Inr t, w1)"
  shows "t = tot - report_size r"
    and "drops {dmp_path r} w w1 \<or> drops {dmp_path r, meta_path r} w w1"
proof -
  let ?w = "log_to (Pruned (dmp_path r) (report_size r) reason) (erase (dmp_path r) w)"
  have w1: "t = tot - report_size r \<and> w1 = snd (remove_file (meta_path r) ?w)"
    using assms
    by (cases rule: remove_file_cases [of "dmp_path r" w])
      (auto simp: RemoveCrashReport_def split: sum.splits bool.splits)
  then show "t = tot - report_size r" by simp
  have "drops {dmp_path r} w ?w" by (intro drops_log_to drops_erase)
  moreover have "w1 = ?w \<or> w1 = erase (meta_path r) ?w"
    using w1 by (cases rule: remove_file_cases [of "meta_path r" ?w]) auto
  ultimately show "drops {dmp_path r} w w1 \<or> drops {dmp_path r, meta_path r} w w1"
    using drops_trans [of "{dmp_path r}" w ?w "{meta_path r}", OF _ drops_erase]
    by (metis insert_is_Un)
qed

lemma RemoveExportFile_drops:
  assumes "RemoveExportFile f tot reason w = (Inr t, w1)"
  shows "t = tot - export_size f" and "drops {export_file_path f} w w1"
proof -
  have "t = tot - export_size f \<and> w1 = log_to (Pruned (export_file_path f) (export_size f) reason)
      (erase (export_file_path f) w)"
    using assms
    by (cases rule: remove_file_cases [of "export_file_path f" w])
      (auto simp: RemoveExportFile_def split: sum.splits bool.splits)
  then show "t = tot - export_size f" and "drops {export_file_path f} w w1"
    by (auto intro: drops_log_to)
qed

lemma removes_single:
  assumes "drops V w w'" and "p \<in> V" and "\<forall>q\<in>V. extension q \<in> exts"
    and "\<forall>q\<in>V. q \<noteq> p \<longrightarrow> extension q \<noteq> ext" and "extension p = ext"
    and "\<forall>q\<in>V. \<forall>d. is_child d p \<longrightarrow> is_child d q"
  shows "removes ext exts {p} w w'"
  unfolding removes_def using assms by blast

interpretation pending: prune_pass "''.dmp''"
  "\<lambda>p s t. \<lparr>dmp_path = p, meta_path = replace_extension p ''.meta'', report_size = s, report_mtime = t\<rparr>"
  dmp_path report_size report_mtime ListCrashReports_loop ListCrashReports
  "{''.dmp'', ''.meta''}" RemoveCrashReport PrunePendingDir_loop PrunePendingDir
proof (unfold_locales, goal_cases)
  case (10 x tot reason w tot1 w1)
  have meta: "meta_path x = replace_extension (dmp_path x) ''.meta''"
    using arg_cong [OF 10(1), of meta_path] by simp
  have ext: "extension (meta_path x) = ''.meta''"
    unfolding meta using 10(2) by (intro extension_replace_extension) auto
  have child: "is_child d (meta_path x)" if "is_child d (dmp_path x)" for d
    unfolding meta using that 10(2) by (intro replace_extension_child(1)) auto
  obtain V where "drops V w w1" "dmp_path x \<in> V" "V \<subseteq> {dmp_path x, meta_path x}"
    using RemoveCrashReport_drops(2) [OF 10(3)] by blast
  then have "removes ''.dmp'' {''.dmp'', ''.meta''} {dmp_path x} w w1"
    using ext child 10(2) by (intro removes_single [of V]) auto
  then show ?case using RemoveCrashReport_drops(1) [OF 10(3)] by simp
next
  case (11 x tot reason w e w1)
  then show ?case by (rule RemoveCrashReport_Inl)
next
  case (12 w x bs t tot reason)
  then show ?case by (simp add: RemoveCrashReport_def remove_file_def)
next
  case (13 w x bs t err tot reason)
  then show ?case by (simp add: RemoveCrashReport_def remove_file_def)
qed (simp_all add: ListCrashReports_def PrunePendingDir_def)

interpretation export: prune_pass ext
  "\<lambda>p s t. \<lparr>export_file_path = p, export_size = s, export_mtime = t\<rparr>"
  export_file_path export_size export_mtime "ListExportFiles_loop ext" "ListExportFiles ext"
  "{ext}" RemoveExportFile PruneExportDir_loop "PruneExportDir ext"
  for ext :: string
proof (unfold_locales, goal_cases)
  case (10 x tot reason w tot1 w1)
  have "removes ext {ext} {export_file_path x} w w1"
    using RemoveExportFile_drops(2) [OF 10(3)] 10(2) by (rule_tac removes_single) auto
  then show ?case using RemoveExportFile_drops(1) [OF 10(3)] by simp
next
  case (11 x tot reason w e w1)
  then show ?case by (rule RemoveExportFile_Inl)
next
  case (12 w x bs t tot reason)
  then show ?case by (simp add: RemoveExportFile_def remove_file_def)
next
  case (13 w x bs t err tot reason)
  then show ?case by (simp add: RemoveExportFile_def remove_file_def)
qed (simp_all add: ListExportFiles_def PruneExportDir_def)

section \<open>The two passes together\<close>

lemma extension_pending_dir [simp]: "extension (pending_dir config) = []"
proof -
  have "filename (pending_dir config) = ''pending''"
    using filename_append [of "''pending''" "db_path config"] by (simp add: pending_dir_def)
  then show ?thesis by (simp add: extension_def)
qed

lemma removes_exts_drops:
  "removes ext exts P w w' \<Longrightarrow> \<exists>V. drops V w w' \<and> (\<forall>q\<in>V. extension q \<in> exts)"
  by (auto simp: removes_def)

lemma export_pass_keeps_reports:
  assumes "PruneExportDir ''.crashdump'' d max_b max_age w = (r, w')"
    and reports: "ListCrashReports (pending_dir config) w = Inr reports"
  shows "ListCrashReports (pending_dir config) w' = Inr reports"
proof -
  obtain V where V: "drops V w w'" "\<forall>q\<in>V. extension q = ''.crashdump''"
    using export.pass_removes [OF assms(1)] removes_exts_drops by fastforce
  then have "pending_dir config \<notin> V" by fastforce
  then have "is_directory w' (pending_dir config)"
    using reports V(1) by (simp add: pending.list_dir_Inr_iff is_directory_def lookup_drops)
  then show ?thesis using pending.list_dir_other [OF reports V(1)] V(2) by simp
qed

lemma pending_pass_keeps_exports:
  assumes "PrunePendingDir d max_b max_age w = (r, w')"
    and "ListExportFiles ''.crashdump'' e w = Inr files" and "is_directory w' e"
  shows "ListExportFiles ''.crashdump'' e w' = Inr files"
proof -
  obtain V where V: "drops V w w'" "\<forall>q\<in>V. extension q \<in> {''.dmp'', ''.meta''}"
    using pending.pass_removes [OF assms(1)] removes_exts_drops by metis
  then show ?thesis using export.list_dir_other [OF assms(2) V(1) _ assms(3)] by fastforce
qed

lemma export_pass_directory:
  "PruneExportDir ext d max_b max_age w = (OkStatus, w') \<Longrightarrow> \<not> (max_b = 0 \<and> max_age = 0)
    \<Longrightarrow> is_directory w d"
  by (auto simp: PruneExportDir_def export.list_dir_Inr_iff split: if_splits sum.splits)

lemma removes_env: "removes ext exts P w w' \<Longrightarrow> same_env w w'"
  by (auto simp: removes_def drops_def)

lemma removes_well_formed: "removes ext exts P w w' \<Longrightarrow> well_formed w \<Longrightarrow> well_formed w'"
  by (auto simp: removes_def intro: well_formed_drops)

lemma prune_minidumps_exports:
  assumes wf: "well_formed w"
    and reports: "ListCrashReports (pending_dir config) w = Inr reports"
    and files: "ListExportFiles ''.crashdump'' (export_path config) w = Inr files"
    and "total_size export_size files < 2 ^ 64"
    and "export_path config \<noteq> []"
    and run: "PruneMinidumps config w = (OkStatus, w')"
  shows "ListExportFiles ''.crashdump'' (export_path config) w' = Inr (retained export_size export_mtime
      (max_bytes config) (max_age_seconds config) (wall_clock w) files)"
proof -
  let ?b = "max_bytes config" and ?a = "max_age_seconds config"
  obtain r1 w1 where p1: "PrunePendingDir (pending_dir config) ?b ?a w = (r1, w1)" by fastforce
  obtain P where P: "removes ''.dmp'' {''.dmp'', ''.meta''} P w w1"
    using pending.pass_removes [OF p1] by blast
  have p2: "PruneExportDir ''.crashdump'' (export_path config) ?b ?a w1 = (OkStatus, w')"
    using run p1 assms(5) by (auto simp: PruneMinidumps_def split: if_splits)
  have "w1 = w \<or> is_directory w1 (export_path config)"
    using p1 export_pass_directory [OF p2] by (cases "?b = 0 \<and> ?a = 0") (auto simp: PrunePendingDir_def)
  then have "ListExportFiles ''.crashdump'' (export_path config) w1 = Inr files"
    using pending_pass_keeps_exports [OF p1 files] files by blast
  then show ?thesis
    using export.pass_outcome [OF _ removes_well_formed [OF P wf] assms(4) p2] removes_env [OF P]
    by (auto simp: same_env_def)
qed

lemma prune_minidumps_reports:
  assumes wf: "well_formed w"
    and reports: "ListCrashReports (pending_dir config) w = Inr reports"
    and "total_size report_size reports < 2 ^ 64"
    and run: "PruneMinidumps config w = (OkStatus, w')"
  shows "ListCrashReports (pending_dir config) w' = Inr (retained report_size report_mtime
      (max_bytes config) (max_age_seconds config) (wall_clock w) reports)"
proof -
  let ?b = "max_bytes config" and ?a = "max_age_seconds config"
  obtain r1 w1 where p1: "PrunePendingDir (pending_dir config) ?b ?a w = (r1, w1)" by fastforce
  note out = pending.pass_outcome [OF reports wf assms(3) p1]
  have r1: "r1 = OkStatus"
  proof (cases r1)
    case (Inl e)
    then have "code e = InternalError" using out by auto
    then show ?thesis using run p1 Inl by (auto simp: PruneMinidumps_def)
  qed simp
  then have l1: "ListCrashReports (pending_dir config) w1 = Inr (retained report_size report_mtime
      ?b ?a (wall_clock w) reports)"
    using out by auto
  show ?thesis
  proof (cases "export_path config = []")
    case True
    then show ?thesis using run p1 r1 l1 by (simp add: PruneMinidumps_def)
  next
    case False
    then have "PruneExportDir ''.crashdump'' (export_path config) ?b ?a w1 = (OkStatus, w')"
      using run p1 r1 by (simp add: PruneMinidumps_def)
    then show ?thesis using l1 by (rule export_pass_keeps_reports)
  qed
qed

lemma prune_minidumps_removes:
  assumes "PruneMinidumps config w = (r, w')"
  obtains P Q w1 where "removes ''.dmp'' {''.dmp'', ''.meta''} P w w1"
    and "\<forall>p\<in>P. is_child (pending_dir config) p"
    and "removes ''.crashdump'' {''.crashdump''} Q w1 w'"
    and "\<forall>q\<in>Q. export_path config \<noteq> [] \<and> is_child (export_path config) q"
proof -
  let ?b = "max_bytes config" and ?a = "max_age_seconds config"
  obtain r1 w1 where p1: "PrunePendingDir (pending_dir config) ?b ?a w = (r1, w1)" by fastforce
  obtain P where P: "removes ''.dmp'' {''.dmp'', ''.meta''} P w w1" "\<forall>p\<in>P. is_child (pending_dir config) p"
    using pending.pass_removes [OF p1] by blast
  consider "w' = w1"
    | "export_path config \<noteq> []" "PruneExportDir ''.crashdump'' (export_path config) ?b ?a w1 = (r, w')"
    using assms p1 by (auto simp: PruneMinidumps_def split: if_splits)
  then show thesis
  proof cases
    case 1
    then show ?thesis using that [OF P, of "{}"] removes_none by blast
  next
    case 2
    then show ?thesis using that [OF P] export.pass_removes [OF 2(2)] by blast
  qed
qed

lemma prune_minidumps_env:
  assumes "PruneMinidumps config w = (r, w')"
  shows "same_env w w'" and "well_formed w \<Longrightarrow> well_formed w'"
proof -
  obtain P Q w1 where P: "removes ''.dmp'' {''.dmp'', ''.meta''} P w w1"
    and Q: "removes ''.crashdump'' {''.crashdump''} Q w1 w'"
    using assms by (rule prune_minidumps_removes)
  show "same_env w w'" using removes_env [OF P] removes_env [OF Q] by (rule same_env_trans)
  show "well_formed w'" if "well_formed w"
    using removes_well_formed [OF Q] removes_well_formed [OF P that] by blast
qed

lemma pruned_total_within:
  assumes "well_formed w" and "max_bytes config > 0"
    and "\<forall>reports. ListCrashReports (pending_dir config) w = Inr reports \<longrightarrow>
      total_size report_size reports < 2 ^ 64"
    and "PruneMinidumps config w = (OkStatus, w')"
  shows "\<exists>total_bytes. GetTotalMinidumpSize (db_path config) w' = Inr total_bytes \<and>
    total_bytes \<le> max_bytes config"
proof (cases "ListCrashReports (pending_dir config) w")
  case (Inr reports)
  let ?ret = "retained report_size report_mtime (max_bytes config) (max_age_seconds config)
    (wall_clock w) reports"
  have "total_size report_size ?ret \<le> unat (max_bytes config)"
    using assms(2) retained_within [of report_size report_mtime "max_bytes config"]
    by (auto simp: within_limits_def)
  moreover have "ListCrashReports (pending_dir config) w' = Inr ?ret"
    using prune_minidumps_reports [OF assms(1) Inr _ assms(4)] assms(3) Inr by blast
  ultimately show ?thesis
    using unat_u64_less [of "max_bytes config"]
    by (simp add: GetTotalMinidumpSize_def pending_dir_def foldl_total word_le_nat_alt
        unat_of_nat_small)
next
  case (Inl e)
  have "max_bytes config \<noteq> 0" using assms(2) by auto
  with Inl have "code e = NotFoundError"
    using assms(4) by (auto simp: PruneMinidumps_def PrunePendingDir_def split: if_splits)
  then have "\<not> is_directory w (pending_dir config)"
    using Inl by (auto simp: ListCrashReports_def split: if_splits prod.splits option.splits)
  moreover obtain P Q w1 where "removes ''.dmp'' {''.dmp'', ''.meta''} P w w1"
    "removes ''.crashdump'' {''.crashdump''} Q w1 w'"
    using prune_minidumps_removes [OF assms(4)] by metis
  ultimately have "\<not> is_directory w' (pending_dir config)"
    by (auto simp: is_directory_def removes_def lookup_drops split: if_splits)
  then show ?thesis
    by (simp add: GetTotalMinidumpSize_def pending_dir_def ListCrashReports_def)
qed

section \<open>Properties\<close>

text \<open>
  The world of the witnesses: three reports of four bytes each in \<^verbatim>\<open>/db/pending\<close>, the
  oldest with a sidecar, and two exports in \<^verbatim>\<open>/ex\<close>; the limit is eight bytes.
\<close>

definition disk_world :: world where
  "disk_world = \<lparr>nodes =
      [(''/db'', Directory), (''/db/pending'', Directory), (''/ex'', Directory),
       (''/db/pending/b.dmp'', Regular [1, 2, 3, 4] 200),
       (''/db/pending/a.dmp'', Regular [1, 2, 3, 4] 100),
       (''/db/pending/a.meta'', Regular [0] 100),
       (''/db/pending/c.dmp'', Regular [1, 2, 3, 4] 300),
       (''/ex/p.crashdump'', Regular [1, 2, 3, 4, 5] 100),
       (''/ex/q.crashdump'', Regular [1, 2, 3, 4, 5] 150)],
    unreadable = (\<lambda>_. None), undeletable = (\<lambda>_. None), read_fails = (\<lambda>_. False), unwritable = (\<lambda>_. None),
    wall_clock = 1000, steady_clock = 0, out = [], log = []\<rparr>"

definition disk_config :: DiskManagerConfig where
  "disk_config = \<lparr>db_path = ''/db'', export_path = ''/ex'', max_bytes = 8, max_age_seconds = 0\<rparr>"

definition report_of :: "string \<Rightarrow> int \<Rightarrow> CrashReport" where
  "report_of stem t = \<lparr>dmp_path = stem @ ''.dmp'', meta_path = stem @ ''.meta'',
     report_size = 4, report_mtime = t\<rparr>"

definition export_of :: "string \<Rightarrow> int \<Rightarrow> ExportFile" where
  "export_of stem t = \<lparr>export_file_path = stem @ ''.crashdump'', export_size = 5, export_mtime = t\<rparr>"

lemma disk_world_reports: "ListCrashReports (pending_dir disk_config) disk_world =
    Inr [report_of ''/db/pending/a'' 100, report_of ''/db/pending/b'' 200, report_of ''/db/pending/c'' 300]"
  by code_simp

lemma disk_world_exports: "ListExportFiles ''.crashdump'' (export_path disk_config) disk_world =
    Inr [export_of ''/ex/p'' 100, export_of ''/ex/q'' 150]"
  by code_simp

lemma disk_world_prunes:
  "PruneMinidumps disk_config disk_world = (OkStatus, snd (PruneMinidumps disk_config disk_world))"
proof -
  have "fst (PruneMinidumps disk_config disk_world) = OkStatus" by code_simp
  then show ?thesis by (simp add: prod_eq_iff)
qed

lemma disk_world_well_formed: "well_formed disk_world"
  by code_simp

text \<open>
  C1. \<^verbatim>\<open>PruneMinidumps\<close> implements the retention policy. When it returns OK, each of the
  two directories lists exactly the policy's longest suffix of what it listed before, in
  oldest-first order: the crash reports of \<^verbatim>\<open>pending/\<close>, and the exports when an export
  directory is configured. The passes do not disturb each other. Directories hold less
  than $2^{64}$ bytes in all.
\<close>

theorem prune_minidumps_refines_retention:
  assumes "well_formed w"
    and "ListCrashReports (pending_dir config) w = Inr reports"
    and "ListExportFiles ''.crashdump'' (export_path config) w = Inr files"
    and "total_size report_size reports < 2 ^ 64" and "total_size export_size files < 2 ^ 64"
    and "export_path config \<noteq> []"
    and "PruneMinidumps config w = (OkStatus, w')"
  shows "ListCrashReports (pending_dir config) w' = Inr (retained report_size report_mtime
      (max_bytes config) (max_age_seconds config) (wall_clock w) reports) \<and>
    ListExportFiles ''.crashdump'' (export_path config) w' = Inr (retained export_size export_mtime
      (max_bytes config) (max_age_seconds config) (wall_clock w) files)"
  using prune_minidumps_reports [OF assms(1,2,4,7)]
    prune_minidumps_exports [OF assms(1,2,3,5,6,7)] by simp

lemma retained_disk_world:
  "retained report_size report_mtime (max_bytes disk_config) (max_age_seconds disk_config)
      (wall_clock disk_world)
      [report_of ''/db/pending/a'' 100, report_of ''/db/pending/b'' 200, report_of ''/db/pending/c'' 300]
    = [report_of ''/db/pending/b'' 200, report_of ''/db/pending/c'' 300]"
  "retained export_size export_mtime (max_bytes disk_config) (max_age_seconds disk_config)
      (wall_clock disk_world) [export_of ''/ex/p'' 100, export_of ''/ex/q'' 150]
    = [export_of ''/ex/q'' 150]"
  by code_simp+

theorem prune_minidumps_refines_retention_witness:
  "ListCrashReports ''/db/pending'' (snd (PruneMinidumps disk_config disk_world)) =
      Inr [report_of ''/db/pending/b'' 200, report_of ''/db/pending/c'' 300] \<and>
   ListExportFiles ''.crashdump'' ''/ex'' (snd (PruneMinidumps disk_config disk_world)) =
      Inr [export_of ''/ex/q'' 150]"
proof -
  have sizes: "total_size report_size [report_of ''/db/pending/a'' 100, report_of ''/db/pending/b'' 200,
      report_of ''/db/pending/c'' 300] < 2 ^ 64"
    "total_size export_size [export_of ''/ex/p'' 100, export_of ''/ex/q'' 150] < 2 ^ 64"
    "export_path disk_config \<noteq> []"
    by (simp_all add: report_of_def export_of_def disk_config_def)
  show ?thesis
    using prune_minidumps_refines_retention [OF disk_world_well_formed disk_world_reports
        disk_world_exports sizes disk_world_prunes]
    unfolding retained_disk_world by (simp add: pending_dir_def disk_config_def)
qed

text \<open>
  The limits hold after a successful prune: the total that
  \<^verbatim>\<open>GetTotalMinidumpSize\<close> then reports is at most \<^verbatim>\<open>max_bytes\<close> where that is set, also when
  \<^verbatim>\<open>pending/\<close> does not exist yet.
\<close>

theorem prune_minidumps_meets_size_limit:
  assumes "well_formed w" and "max_bytes config > 0"
    and "\<forall>reports. ListCrashReports (pending_dir config) w = Inr reports \<longrightarrow>
      total_size report_size reports < 2 ^ 64"
    and "PruneMinidumps config w = (OkStatus, w')"
  shows "\<exists>total_bytes. GetTotalMinidumpSize (db_path config) w' = Inr total_bytes \<and>
    total_bytes \<le> max_bytes config"
  using assms by (rule pruned_total_within)

theorem prune_minidumps_meets_size_limit_witness:
  "\<exists>total_bytes. GetTotalMinidumpSize ''/db'' (snd (PruneMinidumps disk_config disk_world)) =
    Inr total_bytes \<and> total_bytes \<le> 8"
proof -
  have "max_bytes disk_config > 0" by (simp add: disk_config_def)
  moreover have "\<forall>reports. ListCrashReports (pending_dir disk_config) disk_world = Inr reports \<longrightarrow>
      total_size report_size reports < 2 ^ 64"
    unfolding disk_world_reports by (auto simp: report_of_def)
  ultimately show ?thesis
    using prune_minidumps_meets_size_limit [OF disk_world_well_formed _ _ disk_world_prunes]
    by (simp add: disk_config_def)
qed

text \<open>
  Pruning is minimal: every suffix of the oldest-first list of reports that already
  respects the limits survives a successful prune as a whole.
\<close>

theorem prune_minidumps_keeps_conforming_suffix:
  assumes "well_formed w"
    and "ListCrashReports (pending_dir config) w = Inr reports"
    and "total_size report_size reports < 2 ^ 64"
    and "PruneMinidumps config w = (OkStatus, w')"
    and "suffix kept reports"
    and "within_limits report_size report_mtime (max_bytes config) (max_age_seconds config)
      (wall_clock w) kept"
  shows "\<exists>survivors. ListCrashReports (pending_dir config) w' = Inr survivors \<and> suffix kept survivors"
  using prune_minidumps_reports [OF assms(1-4)] retained_longest [OF assms(5,6)] by simp

theorem prune_minidumps_keeps_conforming_suffix_witness:
  "\<exists>survivors. ListCrashReports ''/db/pending'' (snd (PruneMinidumps disk_config disk_world)) =
      Inr survivors \<and> suffix [report_of ''/db/pending/c'' 300] survivors"
proof -
  have "total_size report_size [report_of ''/db/pending/a'' 100, report_of ''/db/pending/b'' 200,
      report_of ''/db/pending/c'' 300] < 2 ^ 64"
    and "suffix [report_of ''/db/pending/c'' 300] [report_of ''/db/pending/a'' 100,
      report_of ''/db/pending/b'' 200, report_of ''/db/pending/c'' 300]"
    and "within_limits report_size report_mtime (max_bytes disk_config) (max_age_seconds disk_config)
      (wall_clock disk_world) [report_of ''/db/pending/c'' 300]"
    by (simp_all add: report_of_def suffix_def disk_config_def within_limits_def over_age_def)
  then show ?thesis
    using prune_minidumps_keeps_conforming_suffix [OF disk_world_well_formed disk_world_reports _
        disk_world_prunes]
    by (simp add: pending_dir_def disk_config_def)
qed

text \<open>
  C20. Whatever its outcome, \<^verbatim>\<open>PruneMinidumps\<close> only deletes, and only \<^verbatim>\<open>.dmp\<close> and \<^verbatim>\<open>.meta\<close>
  files directly in \<^verbatim>\<open>db_path/pending\<close> and \<^verbatim>\<open>.crashdump\<close> files directly in a configured
  export directory.
\<close>

theorem prune_minidumps_touches_only_dumps:
  assumes "PruneMinidumps config w = (r, w')" and "lookup w' p \<noteq> lookup w p"
  shows "lookup w' p = None \<and>
    (is_child (pending_dir config) p \<and> extension p \<in> {''.dmp'', ''.meta''} \<or>
     export_path config \<noteq> [] \<and> is_child (export_path config) p \<and> extension p = ''.crashdump'')"
proof -
  obtain P Q w1 where P: "removes ''.dmp'' {''.dmp'', ''.meta''} P w w1"
      "\<forall>p\<in>P. is_child (pending_dir config) p"
    and Q: "removes ''.crashdump'' {''.crashdump''} Q w1 w'"
      "\<forall>q\<in>Q. export_path config \<noteq> [] \<and> is_child (export_path config) q"
    using prune_minidumps_removes [OF assms(1)] by metis
  show ?thesis
  proof (cases "lookup w' p = lookup w1 p")
    case True
    then have "lookup w1 p \<noteq> lookup w p" using assms(2) by simp
    then show ?thesis using removes_frame [OF P(1)] P(2) True by metis
  next
    case False
    then show ?thesis using removes_frame [OF Q(1) False] Q(2) by auto
  qed
qed

theorem prune_minidumps_touches_only_dumps_witness:
  "lookup (snd (PruneMinidumps disk_config disk_world)) ''/db/pending/a.meta'' = None \<and>
    (is_child (pending_dir disk_config) ''/db/pending/a.meta'' \<and>
       extension ''/db/pending/a.meta'' \<in> {''.dmp'', ''.meta''} \<or>
     export_path disk_config \<noteq> [] \<and> is_child (export_path disk_config) ''/db/pending/a.meta'' \<and>
       extension ''/db/pending/a.meta'' = ''.crashdump'')"
proof -
  have "lookup (snd (PruneMinidumps disk_config disk_world)) ''/db/pending/a.meta''
      \<noteq> lookup disk_world ''/db/pending/a.meta''"
    by code_simp
  then show ?thesis by (rule prune_minidumps_touches_only_dumps [OF disk_world_prunes])
qed

text \<open>
  C24. One entry of \<^verbatim>\<open>pending/\<close> whose status cannot be read blocks pruning: the error
  variable that the listing loop shares with its iterator makes the whole listing fail,
  \<^verbatim>\<open>PruneMinidumps\<close> returns that error, and nothing is deleted in either directory, although
  the loop means to skip such an entry.
\<close>

theorem unresolvable_entry_blocks_pruning:
  assumes "is_directory w (pending_dir config)" and "unreadable w (pending_dir config) = None"
    and "(p, Unresolvable e) \<in> set (children w (pending_dir config))"
    and "max_bytes config \<noteq> 0 \<or> max_age_seconds config \<noteq> 0"
  shows "\<exists>e'. PruneMinidumps config w =
    (Inl (Error InternalError (''directory_iterator error for '' @ pending_dir config @ '': '') e'), w)"
proof -
  have "\<not> (\<forall>kn\<in>set (children w (pending_dir config)). \<not> unresolvable kn)"
    using assms(3) by (force simp: unresolvable_def)
  then obtain as q e' bs where "children w (pending_dir config) = as @ (q, Unresolvable e') # bs"
    and "\<forall>kn\<in>set as. \<not> unresolvable kn"
    by (rule pending.first_unresolvable)
  then show ?thesis
    using pending.list_dir_unresolvable [OF assms(1,2)] assms(4)
    by (auto simp: PruneMinidumps_def PrunePendingDir_def)
qed

definition dangling_world :: world where
  "dangling_world = disk_world\<lparr>nodes := nodes disk_world @ [(''/db/pending/link'', Unresolvable 2)]\<rparr>"

theorem unresolvable_entry_blocks_pruning_witness:
  "\<exists>e'. PruneMinidumps disk_config dangling_world =
    (Inl (Error InternalError (''directory_iterator error for '' @ pending_dir disk_config @ '': '') e'),
     dangling_world)"
proof (rule unresolvable_entry_blocks_pruning)
  show "is_directory dangling_world (pending_dir disk_config)" by code_simp
  show "unreadable dangling_world (pending_dir disk_config) = None"
    by (simp add: dangling_world_def disk_world_def)
  show "(''/db/pending/link'', Unresolvable 2) \<in> set (children dangling_world (pending_dir disk_config))"
    by code_simp
  show "max_bytes disk_config \<noteq> 0 \<or> max_age_seconds disk_config \<noteq> 0"
    by (simp add: disk_config_def)
qed

lemma prune_pending_result:
  assumes "well_formed w"
    and "\<not> is_directory w (pending_dir config) \<or> (\<exists>reports. ListCrashReports (pending_dir config) w = Inr reports)"
    and "\<forall>p. is_child (pending_dir config) p \<and> extension p = ''.dmp'' \<longrightarrow> undeletable w p = None"
    and "PrunePendingDir (pending_dir config) max_b max_age w = (r, w')"
  shows "ok r \<or> (\<exists>e. r = Inl e \<and> code e = NotFoundError)"
proof (cases "is_directory w (pending_dir config)")
  case True
  then obtain reports where "ListCrashReports (pending_dir config) w = Inr reports" using assms(2) by blast
  from pending.pass_succeeds [OF this assms(1,3), of max_b max_age] show ?thesis using assms(4) by simp
next
  case False
  then show ?thesis using assms(4)
    by (auto simp: PrunePendingDir_def ListCrashReports_def ok_iff split: if_splits)
qed

lemma prune_succeeds:
  assumes "well_formed w"
    and "\<not> is_directory w (pending_dir config) \<or> (\<exists>reports. ListCrashReports (pending_dir config) w = Inr reports)"
    and "\<forall>p. is_child (pending_dir config) p \<and> extension p = ''.dmp'' \<longrightarrow> undeletable w p = None"
    and "export_path config \<noteq> [] \<Longrightarrow>
      (\<exists>files. ListExportFiles ''.crashdump'' (export_path config) w = Inr files) \<and>
      (\<forall>p. is_child (export_path config) p \<and> extension p = ''.crashdump'' \<longrightarrow> undeletable w p = None) \<and>
      extension (export_path config) \<notin> {''.dmp'', ''.meta''}"
  shows "ok (fst (PruneMinidumps config w))"
proof -
  let ?b = "max_bytes config" and ?a = "max_age_seconds config"
  obtain r1 w1 where p1: "PrunePendingDir (pending_dir config) ?b ?a w = (r1, w1)" by fastforce
  note r1 = prune_pending_result [OF assms(1-3) p1]
  obtain P where P: "removes ''.dmp'' {''.dmp'', ''.meta''} P w w1"
    using pending.pass_removes [OF p1] by blast
  show ?thesis
  proof (cases "export_path config = []")
    case True
    then show ?thesis using r1 p1 by (auto simp: PruneMinidumps_def ok_iff)
  next
    case False
    then obtain files where files: "ListExportFiles ''.crashdump'' (export_path config) w = Inr files"
      using assms(4) by blast
    then have "is_directory w1 (export_path config)"
      using removes_frame [OF P, of "export_path config"] assms(4) [OF False]
      by (auto simp: is_directory_def export.list_dir_Inr_iff)
    then have "ListExportFiles ''.crashdump'' (export_path config) w1 = Inr files"
      using pending_pass_keeps_exports [OF p1 files] by blast
    moreover have "undeletable w1 = undeletable w" using removes_env [OF P] by (simp add: same_env_def)
    ultimately have "ok (fst (PruneExportDir ''.crashdump'' (export_path config) ?b ?a w1))"
      using assms(4) [OF False] removes_well_formed [OF P assms(1)] by (intro export.pass_succeeds) simp_all
    then show ?thesis using r1 p1 by (auto simp: PruneMinidumps_def ok_iff)
  qed
qed

text \<open>The conditions of success, as a property of the world.\<close>

definition unlocked :: "world \<Rightarrow> string \<Rightarrow> string \<Rightarrow> bool" where
  "unlocked w d ext = (\<forall>p. is_child d p \<and> extension p = ext \<longrightarrow> undeletable w p = None)"

definition listable :: "world \<Rightarrow> string \<Rightarrow> bool" where
  "listable w d = (unreadable w d = None \<and> (\<forall>kn\<in>set (children w d). \<not> unresolvable kn))"

definition prunable :: "DiskManagerConfig \<Rightarrow> world \<Rightarrow> bool" where
  "prunable config w =
     (listable w (pending_dir config) \<and> unlocked w (pending_dir config) ''.dmp'' \<and>
      (export_path config \<noteq> [] \<longrightarrow>
         is_directory w (export_path config) \<and> listable w (export_path config) \<and>
         unlocked w (export_path config) ''.crashdump'' \<and> extension (export_path config) \<notin> {''.dmp'', ''.meta''}))"

lemma prunable_writes:
  assumes "writes_files w w'" and "prunable config w"
  shows "prunable config w'"
proof -
  have "listable w' d" if "listable w d" for d
    using that assms(1) by (auto simp: listable_def writes_files_def children_def)
  moreover have "unlocked w' d ext = unlocked w d ext" for d ext
    using assms(1) by (simp add: unlocked_def writes_files_def)
  moreover have "is_directory w' d = is_directory w d" for d using assms(1) by (simp add: writes_files_def)
  ultimately show ?thesis using assms(2) by (simp add: prunable_def)
qed

lemma prunable_prunes: "prunable config w \<Longrightarrow> well_formed w \<Longrightarrow> ok (fst (PruneMinidumps config w))"
  by (intro prune_succeeds)
    (auto simp: prunable_def listable_def unlocked_def pending.list_dir_Inr_iff export.list_dir_Inr_iff)

text \<open>
  C25. \<^verbatim>\<open>PruneMinidumps\<close> returns OK when no \<^verbatim>\<open>.dmp\<close> file of \<^verbatim>\<open>pending/\<close> is protected against deletion
  and \<^verbatim>\<open>pending/\<close> can be listed or is missing, and, if an export directory is configured, the same
  holds of it and its \<^verbatim>\<open>.crashdump\<close> files (it has to exist, and its own name must not end like that of
  a dump). Without an export directory, the default, nothing else is asked of any other path.
\<close>

theorem prune_minidumps_succeeds:
  assumes "well_formed w"
    and "\<not> is_directory w (pending_dir config) \<or> (\<exists>reports. ListCrashReports (pending_dir config) w = Inr reports)"
    and "\<forall>p. is_child (pending_dir config) p \<and> extension p = ''.dmp'' \<longrightarrow> undeletable w p = None"
    and "export_path config \<noteq> [] \<Longrightarrow>
      (\<exists>files. ListExportFiles ''.crashdump'' (export_path config) w = Inr files) \<and>
      (\<forall>p. is_child (export_path config) p \<and> extension p = ''.crashdump'' \<longrightarrow> undeletable w p = None) \<and>
      extension (export_path config) \<notin> {''.dmp'', ''.meta''}"
  shows "ok (fst (PruneMinidumps config w))"
  using assms by (rule prune_succeeds)

text \<open>The default, without an export directory, in a world where an unrelated path is protected.\<close>

theorem prune_minidumps_succeeds_witness:
  "ok (fst (PruneMinidumps (disk_config\<lparr>export_path := []\<rparr>) (disk_world\<lparr>undeletable := [''/ex/x.crashdump'' \<mapsto> 13]\<rparr>)))"
proof (rule prune_minidumps_succeeds)
  let ?w = "disk_world\<lparr>undeletable := [''/ex/x.crashdump'' \<mapsto> 13]\<rparr>" and ?c = "disk_config\<lparr>export_path := []\<rparr>"
  show "well_formed ?w" using disk_world_well_formed by (simp add: well_formed_def)
  have "ListCrashReports (pending_dir ?c) ?w = Inr [report_of ''/db/pending/a'' 100, report_of ''/db/pending/b'' 200,
      report_of ''/db/pending/c'' 300]" by code_simp
  then show "\<not> is_directory ?w (pending_dir ?c) \<or> (\<exists>reports. ListCrashReports (pending_dir ?c) ?w = Inr reports)" by blast
  have "extension ''/ex/x.crashdump'' \<noteq> ''.dmp''" by code_simp
  then show "\<forall>p. is_child (pending_dir ?c) p \<and> extension p = ''.dmp'' \<longrightarrow> undeletable ?w p = None" by auto
qed simp

text \<open>
  C26. The first report that the policy prunes and that cannot be deleted stops the pass: it
  returns the \<^verbatim>\<open>InternalError\<close> that names this report, the reports before it are gone, and it and
  all younger ones are still there, although the policy retains only some of the younger ones.
\<close>

theorem failed_removal_stops_pass:
  assumes "well_formed w" and "ListCrashReports dir w = Inr (gone @ r # left)"
    and "total_size report_size (gone @ r # left) < 2 ^ 64"
    and "length (retained report_size report_mtime max_b max_age (wall_clock w) (gone @ r # left)) \<le> length left"
    and "\<forall>x\<in>set gone. undeletable w (dmp_path x) = None" and "undeletable w (dmp_path r) = Some e"
  shows "\<exists>w'. PrunePendingDir dir max_b max_age w =
      (Inl (Error InternalError (''Failed to remove '' @ dmp_path r @ '': '') e), w') \<and>
    ListCrashReports dir w' = Inr (r # left)"
  using pending.pass_stops [OF assms(2,1,3-6)] by blast

definition stuck_world :: world where
  "stuck_world = disk_world\<lparr>undeletable := [''/db/pending/b.dmp'' \<mapsto> 13]\<rparr>"

theorem failed_removal_stops_pass_witness:
  "\<exists>w'. PrunePendingDir ''/db/pending'' 4 0 stuck_world =
      (Inl (Error InternalError (''Failed to remove '' @ dmp_path (report_of ''/db/pending/b'' 200) @ '': '') 13), w') \<and>
    ListCrashReports ''/db/pending'' w' =
      Inr [report_of ''/db/pending/b'' 200, report_of ''/db/pending/c'' 300]"
proof (rule failed_removal_stops_pass [where gone = "[report_of ''/db/pending/a'' 100]"])
  show "well_formed stuck_world" by code_simp
  show "ListCrashReports ''/db/pending'' stuck_world = Inr ([report_of ''/db/pending/a'' 100] @
      report_of ''/db/pending/b'' 200 # [report_of ''/db/pending/c'' 300])"
    by code_simp
qed (simp_all add: report_of_def stuck_world_def within_limits_def total_size_def over_age_def)

lemma removes_usage: "removes ext exts P w w' \<Longrightarrow> disk_usage w' \<le> disk_usage w"
  by (auto simp: removes_def drops_def intro: disk_usage_filter)

lemma pending_settled:
  assumes "well_formed w" and "disk_usage w < 2 ^ 64" and "max_bytes config \<noteq> 0 \<or> max_age_seconds config \<noteq> 0"
    and run: "PruneMinidumps config w = (OkStatus, w')"
  shows "\<exists>r. PrunePendingDir (pending_dir config) (max_bytes config) (max_age_seconds config) w' = (r, w') \<and>
    (r = OkStatus \<or> (\<exists>e. r = Inl e \<and> code e = NotFoundError))"
proof (cases "ListCrashReports (pending_dir config) w")
  case (Inr reports)
  let ?ret = "retained report_size report_mtime (max_bytes config) (max_age_seconds config) (wall_clock w) reports"
  have small: "total_size report_size reports < 2 ^ 64"
    using pending.list_dir_usage [OF Inr] assms(2) by simp
  have "total_size report_size ?ret < 2 ^ 64"
    using total_size_suffix [OF retained_suffix] small by (rule le_less_trans)
  moreover have "wall_clock w' = wall_clock w" using prune_minidumps_env(1) [OF run] by (simp add: same_env_def)
  ultimately show ?thesis
    using pending.pass_idle [OF prune_minidumps_reports [OF assms(1) Inr small run]] retained_within by metis
next
  case (Inl e)
  then have "code e = NotFoundError"
    using run assms(3) by (auto simp: PruneMinidumps_def PrunePendingDir_def split: if_splits)
  then have "\<not> is_directory w (pending_dir config)"
    using Inl by (auto simp: ListCrashReports_def split: if_splits prod.splits option.splits)
  moreover obtain P Q w1 where "removes ''.dmp'' {''.dmp'', ''.meta''} P w w1"
    "removes ''.crashdump'' {''.crashdump''} Q w1 w'"
    using prune_minidumps_removes [OF run] by metis
  ultimately have "\<not> is_directory w' (pending_dir config)"
    by (auto simp: is_directory_def removes_def lookup_drops split: if_splits)
  then show ?thesis using assms(3) by (auto simp: PrunePendingDir_def ListCrashReports_def)
qed

lemma exports_settled:
  assumes "well_formed w" and "disk_usage w < 2 ^ 64" and "max_bytes config \<noteq> 0 \<or> max_age_seconds config \<noteq> 0"
    and "export_path config \<noteq> []" and run: "PruneMinidumps config w = (OkStatus, w')"
  shows "PruneExportDir ''.crashdump'' (export_path config) (max_bytes config) (max_age_seconds config) w' = (OkStatus, w')"
proof -
  let ?b = "max_bytes config" and ?a = "max_age_seconds config"
  obtain r1 w1 where p1: "PrunePendingDir (pending_dir config) ?b ?a w = (r1, w1)" by fastforce
  obtain P where P: "removes ''.dmp'' {''.dmp'', ''.meta''} P w w1"
    using pending.pass_removes [OF p1] by blast
  have p2: "PruneExportDir ''.crashdump'' (export_path config) ?b ?a w1 = (OkStatus, w')"
    using run p1 assms(4) by (auto simp: PruneMinidumps_def split: if_splits)
  then obtain files where files: "ListExportFiles ''.crashdump'' (export_path config) w1 = Inr files"
    using assms(3) by (auto simp: PruneExportDir_def split: if_splits sum.splits)
  let ?ret = "retained export_size export_mtime ?b ?a (wall_clock w1) files"
  have small: "total_size export_size files < 2 ^ 64"
    using export.list_dir_usage [OF files] removes_usage [OF P] assms(2) by simp
  have after: "ListExportFiles ''.crashdump'' (export_path config) w' = Inr ?ret"
    using export.pass_outcome [OF files removes_well_formed [OF P assms(1)] small p2] by auto
  have "total_size export_size ?ret < 2 ^ 64"
    using total_size_suffix [OF retained_suffix] small by (rule le_less_trans)
  moreover have "wall_clock w' = wall_clock w1"
    using prune_minidumps_env(1) [OF run] removes_env [OF P] by (simp add: same_env_def)
  ultimately show ?thesis using export.pass_idle [OF after] retained_within by metis
qed

text \<open>
  C27. A \<^verbatim>\<open>PruneMinidumps\<close> that has returned OK has finished its work: a second run at the same time
  returns OK and changes nothing, neither files nor log. The directories may be missing and export
  may be disabled; assumed is only that the disk holds less than 2^64 bytes.
\<close>

theorem prune_minidumps_idempotent:
  assumes "well_formed w" and "disk_usage w < 2 ^ 64" and "PruneMinidumps config w = (OkStatus, w')"
  shows "PruneMinidumps config w' = (OkStatus, w')"
proof (cases "max_bytes config = 0 \<and> max_age_seconds config = 0")
  case True
  then show ?thesis by (simp add: PruneMinidumps_def PrunePendingDir_def PruneExportDir_def)
next
  case False
  then show ?thesis
    using pending_settled [OF assms(1,2) _ assms(3)] exports_settled [OF assms(1,2) _ _ assms(3)]
    by (auto simp: PruneMinidumps_def)
qed

theorem prune_minidumps_idempotent_witness:
  "PruneMinidumps disk_config (snd (PruneMinidumps disk_config disk_world)) =
    (OkStatus, snd (PruneMinidumps disk_config disk_world))"
  by (rule prune_minidumps_idempotent [OF disk_world_well_formed _ disk_world_prunes])
    (simp add: disk_usage_def disk_world_def)

text \<open>
  \<^verbatim>\<open>GetTotalMinidumpSize\<close> never fails: it is the sum of the report sizes where
  \<^verbatim>\<open>pending/\<close> can be listed and 0 where it cannot, whatever the reason.
\<close>

theorem get_total_minidump_size_spec:
  "GetTotalMinidumpSize db w = Inr (case ListCrashReports (db @ ''/pending'') w of
     Inr reports \<Rightarrow> word_of_nat (total_size report_size reports) | Inl e \<Rightarrow> 0)"
  by (simp add: GetTotalMinidumpSize_def foldl_total split: sum.splits)

end
