(* ===== verification/Watcherd_Main.thy ===== *)
theory Watcherd_Main
  imports C_Strings Disk_Manager
begin

text \<open>
  \<^verbatim>\<open>daemon/main.cpp\<close>: the command line and the environment of \<^verbatim>\<open>crashomon-watcherd\<close>, with
  the logger that \<^verbatim>\<open>daemon/log.h\<close> sets up. A
  null pointer is \<open>None\<close>. The size and age parsers compute at the width of their
  results, so a value too large for it wraps.
\<close>

section \<open>Sizes and ages\<close>

definition kBytesPerKilobyte :: u64 where "kBytesPerKilobyte = 1024"
definition kSecondsPerHour :: u32 where "kSecondsPerHour = 3600"
definition kSecondsPerDay :: u32 where "kSecondsPerDay = 86400"

definition ParseSize :: "string option \<Rightarrow> u64" where
  "ParseSize str =
     (case str of
        None \<Rightarrow> 0
      | Some s \<Rightarrow>
          if s = [] then 0
          else case strtoull s of
            None \<Rightarrow> 0
          | Some (val, end) \<Rightarrow>
              if end = [] \<or> end = ''B'' then val
              else if end = ''K'' \<or> end = ''KB'' then val * kBytesPerKilobyte
              else if end = ''M'' \<or> end = ''MB'' then val * kBytesPerKilobyte * kBytesPerKilobyte
              else if end = ''G'' \<or> end = ''GB''
              then val * kBytesPerKilobyte * kBytesPerKilobyte * kBytesPerKilobyte
              else 0)"

definition ParseAge :: "string option \<Rightarrow> u32" where
  "ParseAge str =
     (case str of
        None \<Rightarrow> 0
      | Some s \<Rightarrow>
          if s = [] then 0
          else case strtoul s of
            None \<Rightarrow> 0
          | Some (val, end) \<Rightarrow>
              if end = [] \<or> end = ''s'' then ucast val
              else if end = ''h'' then ucast val * kSecondsPerHour
              else if end = ''d'' then ucast val * kSecondsPerDay
              else 0)"

section \<open>Arguments\<close>

definition GetArgValue :: "string \<Rightarrow> string \<Rightarrow> string option" where
  "GetArgValue arg key =
     (let key_len = length key in
      if take key_len arg \<noteq> key then None
      else case drop key_len arg of
        c # v \<Rightarrow> if c = CHR ''='' then Some v else None
      | [] \<Rightarrow> None)"

record DaemonOptions =
  opt_db_path :: string
  opt_socket_path :: string
  opt_export_path :: string
  opt_max_bytes :: u64
  opt_max_age_sec :: u32
  opt_patch_build_ids :: bool

definition default_options :: "(string \<Rightarrow> string option) \<Rightarrow> DaemonOptions" where
  "default_options getenv =
     \<lparr>opt_db_path = (case getenv ''CRASHOMON_DB_PATH'' of Some p \<Rightarrow> p | None \<Rightarrow> ''/var/crashomon''),
      opt_socket_path = (case getenv ''CRASHOMON_SOCKET_PATH'' of Some p \<Rightarrow> p
        | None \<Rightarrow> ''/run/crashomon/handler.sock''),
      opt_export_path = (case getenv ''CRASHOMON_EXPORT_PATH'' of Some p \<Rightarrow> p | None \<Rightarrow> []),
      opt_max_bytes = 0, opt_max_age_sec = 0, opt_patch_build_ids = True\<rparr>"

text \<open>One iteration of the argument loop: \<open>None\<close> is the early \<^verbatim>\<open>return 1\<close>.\<close>

definition parse_arg :: "string \<Rightarrow> DaemonOptions \<Rightarrow> DaemonOptions option" where
  "parse_arg arg opts =
     (case GetArgValue arg ''--db-path'' of
        Some v \<Rightarrow> Some (opts\<lparr>opt_db_path := v\<rparr>)
      | None \<Rightarrow>
     (case GetArgValue arg ''--socket-path'' of
        Some v \<Rightarrow> Some (opts\<lparr>opt_socket_path := v\<rparr>)
      | None \<Rightarrow>
     (case GetArgValue arg ''--max-size'' of
        Some v \<Rightarrow> Some (opts\<lparr>opt_max_bytes := ParseSize (Some v)\<rparr>)
      | None \<Rightarrow>
     (case GetArgValue arg ''--max-age'' of
        Some v \<Rightarrow> Some (opts\<lparr>opt_max_age_sec := ParseAge (Some v)\<rparr>)
      | None \<Rightarrow>
     (case GetArgValue arg ''--export-path'' of
        Some v \<Rightarrow> Some (opts\<lparr>opt_export_path := v\<rparr>)
      | None \<Rightarrow>
     (case GetArgValue arg ''--patch-build-ids'' of
        Some v \<Rightarrow>
          if v = ''never'' then Some (opts\<lparr>opt_patch_build_ids := False\<rparr>)
          else if v \<noteq> ''auto'' then None
          else Some opts
      | None \<Rightarrow> None))))))"

fun parse_args :: "string list \<Rightarrow> DaemonOptions \<Rightarrow> DaemonOptions option" where
  "parse_args [] opts = Some opts"
| "parse_args (arg # args) opts =
     (case parse_arg arg opts of None \<Rightarrow> None | Some o1 \<Rightarrow> parse_args args o1)"

definition prune_config :: "DaemonOptions \<Rightarrow> DiskManagerConfig" where
  "prune_config opts = \<lparr>db_path = opt_db_path opts, export_path = opt_export_path opts,
     max_bytes = opt_max_bytes opts, max_age_seconds = opt_max_age_sec opts\<rparr>"

text \<open>
  \<^verbatim>\<open>main\<close>: the exit code, and the options it hands to \<^verbatim>\<open>RunWatcher\<close>, whose return value is
  the parameter \<open>run_watcher\<close> (its arguments: database path, socket path, pruning limits,
  export path, patch flag).
\<close>

definition watcherd_main ::
  "(string \<Rightarrow> string option) \<Rightarrow> string list \<Rightarrow>
    (string \<Rightarrow> string \<Rightarrow> DiskManagerConfig \<Rightarrow> string \<Rightarrow> bool \<Rightarrow> 'r) \<Rightarrow> (int \<Rightarrow> 'r) \<Rightarrow> 'r"
where
  "watcherd_main getenv args run_watcher exit_with =
     (case parse_args args (default_options getenv) of
        None \<Rightarrow> exit_with 1
      | Some opts \<Rightarrow> run_watcher (opt_db_path opts) (opt_socket_path opts) (prune_config opts)
          (opt_export_path opts) (opt_patch_build_ids opts))"

text \<open>
  \<^verbatim>\<open>InitLogging\<close> of \<^verbatim>\<open>daemon/log.h\<close>, the first call of \<^verbatim>\<open>main\<close>: the default logger of spdlog.
  Under systemd, which sets \<^verbatim>\<open>JOURNAL_STREAM\<close>, lines carry no timestamp of their own.
\<close>

datatype sink = Stderr_Sink

record Logger =
  logger_name :: string
  logger_sink :: sink
  logger_pattern :: string
  logger_level :: string

definition InitLogging :: "(string \<Rightarrow> string option) \<Rightarrow> Logger" where
  "InitLogging getenv =
     \<lparr>logger_name = ''watcherd'', logger_sink = Stderr_Sink,
      logger_pattern = (if getenv ''JOURNAL_STREAM'' \<noteq> None then ''[%l] %v''
        else ''[%Y-%m-%d %H:%M:%S.%e] [%l] %v''),
      logger_level = ''info''\<rparr>"

lemma InitLogging_timestamp:
  "find_sub ''%H:%M:%S'' (logger_pattern (InitLogging getenv)) = None \<longleftrightarrow> getenv ''JOURNAL_STREAM'' \<noteq> None"
proof -
  have "find_sub ''%H:%M:%S'' ''[%l] %v'' = None" by code_simp
  moreover have "find_sub ''%H:%M:%S'' ''[%Y-%m-%d %H:%M:%S.%e] [%l] %v'' \<noteq> None" by code_simp
  ultimately show ?thesis by (simp only: InitLogging_def Logger.simps split: if_split) blast
qed

section \<open>What the parsers promise\<close>

text \<open>The suffixes the help text documents, with the factors they stand for.\<close>

definition size_factor :: "string \<Rightarrow> nat option" where
  "size_factor u =
     map_of [([], 1), (''B'', 1), (''K'', 2 ^ 10), (''KB'', 2 ^ 10), (''M'', 2 ^ 20),
             (''MB'', 2 ^ 20), (''G'', 2 ^ 30), (''GB'', 2 ^ 30)] u"

definition age_factor :: "string \<Rightarrow> nat option" where
  "age_factor u = map_of [([], 1), (''s'', 1), (''h'', 3600), (''d'', 24 * 3600)] u"

text \<open>
  What the two parsers share: a number, then a unit from a table, at the width of the
  result.
\<close>

locale unit_parser =
  fixes parser :: "string option \<Rightarrow> 'w::len word" and factor :: "string \<Rightarrow> nat option"
  assumes parser_number: "strtoull s = Some (word_of_nat n, u) \<Longrightarrow> s \<noteq> [] \<Longrightarrow>
    parser (Some s) = (case factor u of None \<Rightarrow> 0 | Some k \<Rightarrow> word_of_nat (n * k))"
begin

lemma parser_text:
  assumes "n < 2 ^ 64" and "u = [] \<or> \<not> isdigit (hd u)"
  shows "parser (Some (show_dec n @ u)) = (case factor u of None \<Rightarrow> 0 | Some k \<Rightarrow> word_of_nat (n * k))"
  using parser_number [OF strtoull_show_dec [OF assms]] by simp

lemma parser_value:
  assumes "n < 2 ^ 64" and "u = [] \<or> \<not> isdigit (hd u)"
  shows "unat (parser (Some (show_dec n @ u))) =
    (case factor u of None \<Rightarrow> 0 | Some k \<Rightarrow> n * k mod 2 ^ LENGTH('w))"
  unfolding parser_text [OF assms]
  by (simp add: unat_of_nat take_bit_eq_mod del: of_nat_mult split: option.split)

text \<open>A product that is a multiple of the modulus parses to 0, which stands for no limit.\<close>

lemma parser_wraps_to_0:
  assumes "n < 2 ^ 64" and "u = [] \<or> \<not> isdigit (hd u)" and "factor u = Some k"
    and "n * k mod 2 ^ LENGTH('w) = 0"
  shows "parser (Some (show_dec n @ u)) = 0"
  using parser_value [OF assms(1,2)] assms(3,4) by (simp add: unat_eq_zero)

end

lemma ucast_u64_u32_of_nat: "ucast (word_of_nat n :: u64) = (word_of_nat n :: u32)"
  by (simp add: unsigned_of_nat word_of_nat_eq_iff)

interpretation size_text: unit_parser ParseSize size_factor
  by unfold_locales (auto simp: ParseSize_def size_factor_def kBytesPerKilobyte_def)

interpretation age_text: unit_parser ParseAge age_factor
  by unfold_locales
    (auto simp: ParseAge_def age_factor_def kSecondsPerHour_def kSecondsPerDay_def ucast_u64_u32_of_nat)

text \<open>
  C28. A decimal number below 2^64 followed by a documented suffix parses to the number
  times the factor of the suffix, reduced modulo 2^64; a suffix that is not documented
  gives 0.
\<close>

theorem ParseSize_value:
  assumes "n < 2 ^ 64" and "u = [] \<or> \<not> isdigit (hd u)"
  shows "unat (ParseSize (Some (show_dec n @ u))) =
    (case size_factor u of None \<Rightarrow> 0 | Some k \<Rightarrow> n * k mod 2 ^ 64)"
  using size_text.parser_value [OF assms] by (simp split: option.split)

theorem ParseSize_value_witness:
  "unat (ParseSize (Some (show_dec 100 @ ''M''))) = 104857600"
  using ParseSize_value [of 100 "''M''"] by (simp add: isdigit_def size_factor_def)

text \<open>
  A decimal number below 2^64 followed by a documented suffix parses to that many
  seconds, hours or days reduced modulo 2^32; a suffix that is not documented gives 0.
\<close>

theorem ParseAge_value:
  assumes "n < 2 ^ 64" and "u = [] \<or> \<not> isdigit (hd u)"
  shows "unat (ParseAge (Some (show_dec n @ u))) =
    (case age_factor u of None \<Rightarrow> 0 | Some k \<Rightarrow> n * k mod 2 ^ 32)"
  using age_text.parser_value [OF assms] by (simp split: option.split)

theorem ParseAge_value_witness:
  "unat (ParseAge (Some (show_dec 7 @ ''d''))) = 604800"
  using ParseAge_value [of 7 "''d''"] by (simp add: isdigit_def age_factor_def)

text \<open>
  The consequence at the edge of the range: a limit large enough to wrap to 0 turns the
  limit off, since a limit of 0 means none.
\<close>

lemma huge_limit_is_no_limit:
  "ParseSize (Some (show_dec (2 ^ 34) @ ''G'')) = 0" "ParseAge (Some (show_dec (2 ^ 32) @ ''s'')) = 0"
  by (rule size_text.parser_wraps_to_0 [where k = "2 ^ 30"]; simp add: size_factor_def isdigit_def)
    (rule age_text.parser_wraps_to_0 [where k = 1]; simp add: age_factor_def isdigit_def)

section \<open>The command line\<close>

lemma GetArgValue_iff: "GetArgValue arg key = Some v \<longleftrightarrow> arg = key @ ''='' @ v"
proof
  assume "GetArgValue arg key = Some v"
  then have "take (length key) arg = key" and "drop (length key) arg = ''='' @ v"
    by (auto simp: GetArgValue_def Let_def split: if_splits list.splits)
  then show "arg = key @ ''='' @ v" by (metis append_take_drop_id)
qed (simp add: GetArgValue_def)

text \<open>
  The last value an argument list gives to a key. \<open>recognised\<close> are the arguments the
  loop accepts.
\<close>

fun last_value :: "string \<Rightarrow> string list \<Rightarrow> string option" where
  "last_value key [] = None"
| "last_value key (arg # args) =
     (case last_value key args of Some v \<Rightarrow> Some v | None \<Rightarrow> GetArgValue arg key)"

definition recognised :: "string \<Rightarrow> bool" where
  "recognised arg =
     (GetArgValue arg ''--db-path'' \<noteq> None \<or> GetArgValue arg ''--socket-path'' \<noteq> None \<or>
      GetArgValue arg ''--max-size'' \<noteq> None \<or> GetArgValue arg ''--max-age'' \<noteq> None \<or>
      GetArgValue arg ''--export-path'' \<noteq> None \<or>
      GetArgValue arg ''--patch-build-ids'' = Some ''auto'' \<or>
      GetArgValue arg ''--patch-build-ids'' = Some ''never'')"

definition turns_patching_off :: "string \<Rightarrow> bool" where
  "turns_patching_off arg = (GetArgValue arg ''--patch-build-ids'' = Some ''never'')"

lemma last_value_spec:
  "last_value key (args @ (key @ ''='' @ v) # rest) =
     (case last_value key rest of Some u \<Rightarrow> Some u | None \<Rightarrow> Some v)"
proof (induction args)
  case Nil
  have "GetArgValue (key @ ''='' @ v) key = Some v" by (simp add: GetArgValue_iff)
  then show ?case by (simp only: append_Nil last_value.simps)
next
  case (Cons a args)
  then show ?case by (simp only: append_Cons last_value.simps split: option.split) simp
qed

text \<open>At most one key matches an argument.\<close>

lemma GetArgValue_unique:
  assumes "GetArgValue arg k = Some v" and "CHR ''='' \<notin> set k" and "CHR ''='' \<notin> set k'"
    and "k' \<noteq> k"
  shows "GetArgValue arg k' = None"
proof (rule ccontr)
  assume "GetArgValue arg k' \<noteq> None"
  then obtain v' where "arg = k' @ ''='' @ v'" by (auto simp: GetArgValue_iff)
  moreover have "arg = k @ ''='' @ v" using assms(1) by (simp add: GetArgValue_iff)
  moreover have "takeWhile (\<lambda>c. c \<noteq> CHR ''='') (l @ ''='' @ u) = l" if "CHR ''='' \<notin> set l" for l u
    using that by (subst takeWhile_append2) auto
  ultimately have "k' = k" using assms(2,3) by metis
  with assms(4) show False by blast
qed

lemma parse_arg_None: "parse_arg arg opts = None \<longleftrightarrow> \<not> recognised arg"
  unfolding parse_arg_def recognised_def by (simp split: option.split)

lemma parse_arg_Some:
  assumes "recognised arg"
  shows "parse_arg arg opts = Some
    \<lparr>opt_db_path = (case GetArgValue arg ''--db-path'' of Some v \<Rightarrow> v | None \<Rightarrow> opt_db_path opts),
     opt_socket_path =
       (case GetArgValue arg ''--socket-path'' of Some v \<Rightarrow> v | None \<Rightarrow> opt_socket_path opts),
     opt_export_path =
       (case GetArgValue arg ''--export-path'' of Some v \<Rightarrow> v | None \<Rightarrow> opt_export_path opts),
     opt_max_bytes = (case GetArgValue arg ''--max-size'' of
       Some v \<Rightarrow> ParseSize (Some v) | None \<Rightarrow> opt_max_bytes opts),
     opt_max_age_sec = (case GetArgValue arg ''--max-age'' of
       Some v \<Rightarrow> ParseAge (Some v) | None \<Rightarrow> opt_max_age_sec opts),
     opt_patch_build_ids = (opt_patch_build_ids opts \<and> \<not> turns_patching_off arg)\<rparr>"
proof -
  note other = GetArgValue_unique [of arg]
  have "GetArgValue arg ''--db-path'' \<noteq> None \<or> GetArgValue arg ''--socket-path'' \<noteq> None \<or>
    GetArgValue arg ''--max-size'' \<noteq> None \<or> GetArgValue arg ''--max-age'' \<noteq> None \<or>
    GetArgValue arg ''--export-path'' \<noteq> None \<or> GetArgValue arg ''--patch-build-ids'' \<noteq> None"
    using assms by (auto simp only: recognised_def option.simps)
  then consider v where "GetArgValue arg ''--db-path'' = Some v"
    | v where "GetArgValue arg ''--socket-path'' = Some v"
    | v where "GetArgValue arg ''--max-size'' = Some v"
    | v where "GetArgValue arg ''--max-age'' = Some v"
    | v where "GetArgValue arg ''--export-path'' = Some v"
    | v where "GetArgValue arg ''--patch-build-ids'' = Some v"
    by (metis option.exhaust)
  then show ?thesis
  proof cases
    case 1
    note 1 [simp] and other [OF 1, simp]
    show ?thesis by (simp add: parse_arg_def turns_patching_off_def)
  next
    case 2
    note 2 [simp] and other [OF 2, simp]
    show ?thesis by (simp add: parse_arg_def turns_patching_off_def)
  next
    case 3
    note 3 [simp] and other [OF 3, simp]
    show ?thesis by (simp add: parse_arg_def turns_patching_off_def)
  next
    case 4
    note 4 [simp] and other [OF 4, simp]
    show ?thesis by (simp add: parse_arg_def turns_patching_off_def)
  next
    case 5
    note 5 [simp] and other [OF 5, simp]
    show ?thesis by (simp add: parse_arg_def turns_patching_off_def)
  next
    case 6
    note 6 [simp] and other [OF 6, simp]
    have "v = ''never'' \<or> v = ''auto''" using assms by (simp add: recognised_def) blast
    then show ?thesis by (elim disjE) (simp_all add: parse_arg_def turns_patching_off_def)
  qed
qed

lemma parse_args_None: "parse_args args opts = None \<longleftrightarrow> (\<exists>arg\<in>set args. \<not> recognised arg)"
proof (induction args arbitrary: opts)
  case (Cons a args)
  then show ?case
    using parse_arg_None [of a opts] by (cases "parse_arg a opts") auto
qed simp

lemma parse_args_Some:
  assumes "\<forall>arg\<in>set args. recognised arg"
  shows "parse_args args opts = Some
    \<lparr>opt_db_path = (case last_value ''--db-path'' args of Some v \<Rightarrow> v | None \<Rightarrow> opt_db_path opts),
     opt_socket_path =
       (case last_value ''--socket-path'' args of Some v \<Rightarrow> v | None \<Rightarrow> opt_socket_path opts),
     opt_export_path =
       (case last_value ''--export-path'' args of Some v \<Rightarrow> v | None \<Rightarrow> opt_export_path opts),
     opt_max_bytes = (case last_value ''--max-size'' args of
       Some v \<Rightarrow> ParseSize (Some v) | None \<Rightarrow> opt_max_bytes opts),
     opt_max_age_sec = (case last_value ''--max-age'' args of
       Some v \<Rightarrow> ParseAge (Some v) | None \<Rightarrow> opt_max_age_sec opts),
     opt_patch_build_ids =
       (opt_patch_build_ids opts \<and> (\<forall>arg\<in>set args. \<not> turns_patching_off arg))\<rparr>"
  using assms
proof (induction args arbitrary: opts)
  case (Cons a args)
  then show ?case by (simp add: parse_arg_Some split: option.split)
qed simp

text \<open>The value of a setting: command line, then environment, then default.\<close>

definition setting ::
  "(string \<Rightarrow> string option) \<Rightarrow> string list \<Rightarrow> string \<Rightarrow> string \<Rightarrow> string \<Rightarrow> string"
where
  "setting getenv args key env d =
     (case last_value key args of Some v \<Rightarrow> v
      | None \<Rightarrow> (case getenv env of Some v \<Rightarrow> v | None \<Rightarrow> d))"

text \<open>
  C29. When every argument is recognised, the watcher runs with, for each setting, the last
  value given on the command line, else the environment's, else the built-in default; the
  patcher is on unless some argument turns it off. The pruning limits take the same paths.
\<close>

theorem watcherd_main_settings:
  assumes "\<forall>arg\<in>set args. recognised arg"
  shows "watcherd_main getenv args run_watcher exit_with =
    (let db = setting getenv args ''--db-path'' ''CRASHOMON_DB_PATH'' ''/var/crashomon'';
         socket = setting getenv args ''--socket-path'' ''CRASHOMON_SOCKET_PATH'' ''/run/crashomon/handler.sock'';
         export = setting getenv args ''--export-path'' ''CRASHOMON_EXPORT_PATH'' []
     in run_watcher db socket
          \<lparr>db_path = db, export_path = export,
           max_bytes = ParseSize (last_value ''--max-size'' args),
           max_age_seconds = ParseAge (last_value ''--max-age'' args)\<rparr>
          export (\<forall>arg\<in>set args. \<not> turns_patching_off arg))"
  unfolding watcherd_main_def parse_args_Some [OF assms(1)]
  by (simp add: setting_def default_options_def prune_config_def ParseSize_def ParseAge_def Let_def
      split: option.split)

theorem watcherd_main_settings_witness:
  "watcherd_main (\<lambda>v. if v = ''CRASHOMON_EXPORT_PATH'' then Some ''/e'' else None)
     [''--db-path=/a'', ''--max-size=2K'', ''--db-path=/b'']
     (\<lambda>db sk cfg ex patch. (db, max_bytes cfg, ex, patch)) (\<lambda>_. ([], 0, [], False))
   = (''/b'', 2048, ''/e'', True)" (is "watcherd_main ?env ?args ?run ?exit = _")
proof -
  have r: "\<forall>arg\<in>set ?args. recognised arg" by code_simp
  have "setting ?env ?args ''--db-path'' ''CRASHOMON_DB_PATH'' ''/var/crashomon'' = ''/b''" by code_simp
  moreover have "setting ?env ?args ''--export-path'' ''CRASHOMON_EXPORT_PATH'' [] = ''/e''" by code_simp
  moreover have "last_value ''--max-size'' ?args = Some ''2K''" by code_simp
  moreover have "ParseSize (Some ''2K'') = 2048"
    by (simp add: ParseSize_def strtoull_def number_of_def isspace_def isdigit_def
        digit_value_def kBytesPerKilobyte_def)
  moreover have "\<forall>arg\<in>set ?args. \<not> turns_patching_off arg" by code_simp
  ultimately show ?thesis
    unfolding watcherd_main_settings [OF r] Let_def by (simp only: DiskManagerConfig.simps simp_thms prod.inject)
qed

text \<open>
  \<^verbatim>\<open>main\<close> returns 1 without running the watcher exactly when some argument is not
  recognised.
\<close>

theorem watcherd_main_rejects:
  "watcherd_main getenv args (\<lambda>_ _ _ _ _. None) Some =
    (if \<exists>arg\<in>set args. \<not> recognised arg then Some 1 else None)"
proof (cases "\<exists>arg\<in>set args. \<not> recognised arg")
  case True
  then show ?thesis by (simp add: watcherd_main_def parse_args_None [THEN iffD2])
next
  case False
  then have "\<forall>arg\<in>set args. recognised arg" by blast
  from parse_args_Some [OF this] False show ?thesis by (simp add: watcherd_main_def)
qed

end
