(* ===== verification/Elf_Build_Id.thy ===== *)
theory Elf_Build_Id
  imports File_System C_Strings
begin

text \<open>
  The part of \<^verbatim>\<open>daemon/minidump_patcher.cpp\<close> that computes the build id of an ELF file from
  its private mapping: the GNU build-id note, or else a hash of the text section. The last
  page of the mapping is filled with zeros, and an access beyond it faults; the code has few
  checks of its own, so every read returns an \<open>option\<close>, where \<open>None\<close> is such a fault.
\<close>

unbundle bit_operations_syntax

section \<open>Constants\<close>

definition kXorHashSize :: nat where "kXorHashSize = 16"
definition kXorMaxBytes :: nat where "kXorMaxBytes = 4096"
definition kNtGnuBuildId :: u32 where "kNtGnuBuildId = 3"

section \<open>The mapped ELF file\<close>

definition page_size :: nat where "page_size = 4096"

definition mapping_end :: "bytes \<Rightarrow> nat" where
  "mapping_end m = (length m + page_size - 1) div page_size * page_size"

text \<open>A pointer into the mapping is its distance from the base, modulo 2^64.\<close>

definition map_at :: "bytes \<Rightarrow> u64 \<Rightarrow> u8 option" where
  "map_at m p =
     (if unat p < length m then Some (m ! unat p)
      else if unat p < mapping_end m then Some 0 else None)"

fun fetch :: "bytes \<Rightarrow> u64 \<Rightarrow> nat \<Rightarrow> bytes option" where
  "fetch m p 0 = Some []"
| "fetch m p (Suc n) =
     (case map_at m p of
        None \<Rightarrow> None
      | Some b \<Rightarrow> (case fetch m (p + 1) n of None \<Rightarrow> None | Some bs \<Rightarrow> Some (b # bs)))"

definition load :: "bytes \<Rightarrow> u64 \<Rightarrow> nat \<Rightarrow> nat option" where
  "load m p n = map_option le_nat (fetch m p n)"

text \<open>\<^verbatim>\<open>strcmp(p, lit) == 0\<close>: the comparison stops at the first difference.\<close>

fun strcmp_eq :: "bytes \<Rightarrow> u64 \<Rightarrow> bytes \<Rightarrow> bool option" where
  "strcmp_eq m p [] = map_option (\<lambda>b. b = 0) (map_at m p)"
| "strcmp_eq m p (c # cs) =
     (case map_at m p of
        None \<Rightarrow> None
      | Some b \<Rightarrow> if b \<noteq> c then Some False else strcmp_eq m (p + 1) cs)"

text \<open>
  \<^verbatim>\<open>(n + 3U) & ~size_t{3}\<close>: the sum has 32 bits, so sizes near 2^32 are padded to 0.
\<close>

definition pad4 :: "u32 \<Rightarrow> nat" where
  "pad4 n = unat (ucast (n + 3) AND (NOT 3 :: u64))"

text \<open>
  The note walk. \<open>base\<close> points at the notes, \<open>pos\<close> stays below \<open>len\<close> where it is
  read; it grows by at least the 12 bytes of a note header.
\<close>

function ParseBuildIdNote_loop :: "bytes \<Rightarrow> u64 \<Rightarrow> nat \<Rightarrow> nat \<Rightarrow> bytes option" where
  "ParseBuildIdNote_loop m base len pos =
     (if pos + 12 \<le> len then
        (case (load m (base + word_of_nat pos) 4, load m (base + word_of_nat (pos + 4)) 4,
               load m (base + word_of_nat (pos + 8)) 4) of
           (Some namesz, Some descsz, Some ntype) \<Rightarrow>
             (let namesz_padded = pad4 (word_of_nat namesz);
                  descsz_padded = pad4 (word_of_nat descsz);
                  desc_off = pos + 12 + namesz_padded in
              if word_of_nat ntype = kNtGnuBuildId \<and> descsz > 0 \<and> desc_off + descsz \<le> len
              then fetch m (base + word_of_nat desc_off) descsz
              else ParseBuildIdNote_loop m base len (pos + 12 + namesz_padded + descsz_padded))
         | _ \<Rightarrow> None)
      else Some [])"
  by pat_completeness auto
termination
  by (relation "measure (\<lambda>(m, base, len, pos). len - pos)") (auto simp: Let_def)

declare ParseBuildIdNote_loop.simps [simp del]

definition ParseBuildIdNote :: "bytes \<Rightarrow> u64 \<Rightarrow> nat \<Rightarrow> bytes option" where
  "ParseBuildIdNote m base len = ParseBuildIdNote_loop m base len 0"

record SectionFields =
  sh_name :: u32
  sh_type :: u32
  sh_offset :: u64
  sh_size :: u64

text \<open>
  The fields of \<^verbatim>\<open>Elf64_Shdr\<close> and \<^verbatim>\<open>Elf32_Shdr\<close> at their offsets in \<^verbatim>\<open>elf.h\<close>.
\<close>

definition ReadShdr :: "bytes \<Rightarrow> u64 \<Rightarrow> u16 \<Rightarrow> u16 \<Rightarrow> bool \<Rightarrow> SectionFields option" where
  "ReadShdr m e_shoff e_shentsize index is64 =
     (let shdr = e_shoff + ucast index * ucast e_shentsize in
      case (load m shdr 4, load m (shdr + 4) 4,
            if is64 then load m (shdr + 24) 8 else load m (shdr + 16) 4,
            if is64 then load m (shdr + 32) 8 else load m (shdr + 20) 4) of
        (Some nm, Some ty, Some offs, Some sz) \<Rightarrow>
          Some \<lparr>sh_name = word_of_nat nm, sh_type = word_of_nat ty,
                sh_offset = word_of_nat offs, sh_size = word_of_nat sz\<rparr>
      | _ \<Rightarrow> None)"

definition SHT_PROGBITS :: u32 where "SHT_PROGBITS = 1"
definition SHT_NOTE :: u32 where "SHT_NOTE = 7"

text \<open>
  The scan of the section headers. \<open>Inl bid\<close> is the early return with a build id,
  \<open>Inr (text_off, text_size)\<close> the end of the loop.
\<close>

fun scan_sections ::
  "bytes \<Rightarrow> u64 \<Rightarrow> u16 \<Rightarrow> bool \<Rightarrow> u64 \<Rightarrow> nat list \<Rightarrow> u64 \<Rightarrow> u64 \<Rightarrow> (bytes + u64 \<times> u64) option"
where
  "scan_sections m e_shoff e_shentsize is64 strtab_off [] text_off text_size =
     Some (Inr (text_off, text_size))"
| "scan_sections m e_shoff e_shentsize is64 strtab_off (i # is) text_off text_size =
     (case ReadShdr m e_shoff e_shentsize (word_of_nat i) is64 of
        None \<Rightarrow> None
      | Some shdr \<Rightarrow>
          if unat (strtab_off + ucast (sh_name shdr)) \<ge> length m
          then scan_sections m e_shoff e_shentsize is64 strtab_off is text_off text_size
          else
            (let sec_name = strtab_off + ucast (sh_name shdr) in
             case (if sh_type shdr = SHT_NOTE
                   then strcmp_eq m sec_name (bytes_of ''.note.gnu.build-id'') else Some False) of
               None \<Rightarrow> None
             | Some is_note \<Rightarrow>
                 (case (if is_note \<and> unat (sh_offset shdr + sh_size shdr) \<le> length m
                        then ParseBuildIdNote m (sh_offset shdr) (unat (sh_size shdr))
                        else Some []) of
                    None \<Rightarrow> None
                  | Some bid \<Rightarrow>
                      if bid \<noteq> [] then Some (Inl bid)
                      else
                        (case (if sh_type shdr = SHT_PROGBITS \<and> text_off = 0
                               then strcmp_eq m sec_name (bytes_of ''.text'') else Some False) of
                           None \<Rightarrow> None
                         | Some is_text \<Rightarrow>
                             scan_sections m e_shoff e_shentsize is64 strtab_off is
                               (if is_text then sh_offset shdr else text_off)
                               (if is_text then sh_size shdr else text_size)))))"

text \<open>The XOR of the 16-byte chunks of the text section, up to 4096 bytes.\<close>

fun xor_chunks :: "bytes \<Rightarrow> u64 \<Rightarrow> nat list \<Rightarrow> bytes \<Rightarrow> bytes option" where
  "xor_chunks m ptr [] hash = Some hash"
| "xor_chunks m ptr (j # js) hash =
     (case fetch m (ptr + word_of_nat j) kXorHashSize of
        None \<Rightarrow> None
      | Some chunk \<Rightarrow> xor_chunks m ptr js (map2 (XOR) hash chunk))"

definition chunk_offsets :: "nat \<Rightarrow> nat list" where
  "chunk_offsets limit = map (\<lambda>n. kXorHashSize * n) [0..<(limit + kXorHashSize - 1) div kXorHashSize]"

record ElfHeader =
  e_shoff :: u64
  e_shentsize :: u16
  e_shnum :: u16
  e_shstrndx :: u16

definition read_ehdr :: "bytes \<Rightarrow> bool \<Rightarrow> ElfHeader option" where
  "read_ehdr m is64 =
     (case (if is64 then load m 40 8 else load m 32 4, load m (if is64 then 58 else 46) 2,
            load m (if is64 then 60 else 48) 2, load m (if is64 then 62 else 50) 2) of
        (Some shoff, Some shentsize, Some shnum, Some shstrndx) \<Rightarrow>
          Some \<lparr>e_shoff = word_of_nat shoff, e_shentsize = word_of_nat shentsize,
                e_shnum = word_of_nat shnum, e_shstrndx = word_of_nat shstrndx\<rparr>
      | _ \<Rightarrow> None)"

text \<open>The computation on a mapped file of at least 64 bytes; no build id is \<open>[]\<close>.\<close>

definition elf_build_id :: "bytes \<Rightarrow> bytes option" where
  "elf_build_id m =
     (if take 4 m \<noteq> [0x7f, 0x45, 0x4c, 0x46] then Some []
      else let is64 = (m ! 4 = 2) in
        case read_ehdr m is64 of
          None \<Rightarrow> None
        | Some h \<Rightarrow>
            if e_shoff h = 0 \<or> e_shstrndx h = 0 \<or>
               unat (e_shoff h + ucast (e_shnum h) * ucast (e_shentsize h)) > length m
            then Some []
            else case ReadShdr m (e_shoff h) (e_shentsize h) (e_shstrndx h) is64 of
              None \<Rightarrow> None
            | Some strtab_shdr \<Rightarrow>
                if unat (sh_offset strtab_shdr) \<ge> length m then Some []
                else case scan_sections m (e_shoff h) (e_shentsize h) is64 (sh_offset strtab_shdr)
                            [0..<unat (e_shnum h)] 0 0 of
                  None \<Rightarrow> None
                | Some (Inl bid) \<Rightarrow> Some bid
                | Some (Inr (text_off, text_size)) \<Rightarrow>
                    if text_off = 0 \<or> text_size = 0 \<or> unat (text_off + text_size) > length m
                    then Some []
                    else xor_chunks m text_off
                      (chunk_offsets (min (unat text_size) kXorMaxBytes))
                      (replicate kXorHashSize 0))"

definition ComputeElfBuildId :: "string \<Rightarrow> world \<Rightarrow> bytes option" where
  "ComputeElfBuildId elf_path w =
     (case read_file elf_path w of
        None \<Rightarrow> Some []
      | Some m \<Rightarrow> if length m < 64 then Some [] else elf_build_id m)"

section \<open>Reads inside the objects\<close>

definition small :: "bytes \<Rightarrow> bool" where
  "small m = (length m < 2 ^ 63)"

lemma unat_plus_one: "unat (p :: u64) + 1 < 2 ^ 64 \<Longrightarrow> unat (p + 1) = unat p + 1"
  by (subst unat_add_no_wrap) simp_all

lemma sub_bytes_Suc: "p < length m \<Longrightarrow> sub_bytes p (Suc n) m = m ! p # sub_bytes (Suc p) n m"
  by (simp add: sub_bytes_def take_Suc_conv_app_nth Cons_nth_drop_Suc [symmetric])

lemma fetch_inside:
  assumes "unat p + n \<le> length m" and "small m"
  shows "fetch m p n = Some (sub_bytes (unat p) n m)"
  using assms
proof (induction n arbitrary: p)
  case 0
  then show ?case by (simp add: sub_bytes_def)
next
  case (Suc n)
  then have "unat (p + 1) = unat p + 1" by (intro unat_plus_one) (simp add: small_def)
  then show ?case using Suc by (simp add: map_at_def sub_bytes_Suc)
qed

lemma unat_ptr:
  assumes "unat base + k \<le> length m" and "small m"
  shows "unat (base + word_of_nat k :: u64) = unat base + k"
proof -
  have "unat (word_of_nat k :: u64) = k"
    using assms by (intro unat_of_nat_small) (simp add: small_def)
  then show ?thesis using assms by (subst unat_add_no_wrap) (simp_all add: small_def)
qed

lemma load_inside:
  assumes "unat p + n \<le> length m" and "small m"
  shows "load m p n = Some (le_nat (sub_bytes (unat p) n m))"
  using assms by (simp add: load_def fetch_inside)

lemma fetch_ptr:
  assumes "unat base + k + n \<le> length m" and "small m"
  shows "fetch m (base + word_of_nat k) n = Some (sub_bytes (unat base + k) n m)"
  using assms by (subst fetch_inside) (simp_all add: unat_ptr [where m = m])

lemma load_ptr:
  assumes "unat base + k + n \<le> length m" and "small m"
  shows "load m (base + word_of_nat k) n = Some (le_nat (sub_bytes (unat base + k) n m))"
  using assms by (subst load_inside) (simp_all add: unat_ptr [where m = m])

text \<open>A read that starts beyond the mapping faults.\<close>

lemma fetch_outside: "mapping_end m \<le> unat p \<Longrightarrow> 0 < n \<Longrightarrow> fetch m p n = None"
  by (cases n) (auto simp: map_at_def mapping_end_def page_size_def)

lemma mapping_end_ge: "length m \<le> mapping_end m"
  unfolding mapping_end_def page_size_def by linarith

section \<open>Build-id notes\<close>

text \<open>\<^verbatim>\<open>Elf64_Nhdr\<close> and its payload, both parts padded to multiples of four bytes.\<close>

record elf_note =
  note_name :: bytes
  note_type :: u32
  note_desc :: bytes

definition padded :: "bytes \<Rightarrow> bytes" where
  "padded bs = bs @ replicate ((length bs + 3) div 4 * 4 - length bs) 0"

definition encode_note :: "elf_note \<Rightarrow> bytes" where
  "encode_note n = le_bytes 4 (length (note_name n)) @ le_bytes 4 (length (note_desc n)) @
     le_bytes 4 (unat (note_type n)) @ padded (note_name n) @ padded (note_desc n)"

definition note_fits :: "elf_note \<Rightarrow> bool" where
  "note_fits n = (length (note_name n) < 2 ^ 32 - 3 \<and> length (note_desc n) < 2 ^ 32 - 3)"

fun first_build_id :: "elf_note list \<Rightarrow> bytes" where
  "first_build_id [] = []"
| "first_build_id (n # ns) =
     (if note_type n = kNtGnuBuildId \<and> note_desc n \<noteq> [] then note_desc n
      else first_build_id ns)"

lemma length_padded: "length (padded bs) = (length bs + 3) div 4 * 4"
proof -
  have "length bs \<le> (length bs + 3) div 4 * 4" by linarith
  then show ?thesis by (simp add: padded_def)
qed

lemma and_not_3: "unat ((w :: u64) AND NOT 3) = unat w div 4 * 4"
proof -
  have "w AND NOT (mask 2) = push_bit 2 (drop_bit 2 w)"
  proof (intro bit_word_eqI)
    fix n
    have "2 \<le> n \<Longrightarrow> Suc (Suc (n - 2)) = n" by simp
    then show "n < LENGTH(64) \<Longrightarrow> bit (w AND NOT (mask 2)) n = bit (push_bit 2 (drop_bit 2 w)) n"
      by (auto simp: bit_simps not_less)
  qed
  moreover have "(3 :: u64) = mask 2" by (simp add: mask_eq_exp_minus_1)
  moreover have "unat (drop_bit 2 w) = unat w div 4"
    unfolding unat_drop_bit_eq by (simp add: drop_bit_eq_div)
  moreover have "unat w div 4 * 4 < 2 ^ 64"
    using unat_u64_less [of w] by simp
  moreover have "unat (push_bit 2 v) = unat v * 4" if "unat v * 4 < 2 ^ 64" for v :: u64
    using that by (simp add: push_bit_eq_mult unat_word_ariths)
  ultimately show ?thesis by (simp only:)
qed

lemma pad4_of_length:
  assumes "n < 2 ^ 32 - 3"
  shows "pad4 (word_of_nat n) = (n + 3) div 4 * 4"
proof -
  have "unat (word_of_nat n + 3 :: u32) = n + 3"
    using assms by (subst unat_add_no_wrap) (simp_all add: unat_of_nat_small)
  then show ?thesis unfolding pad4_def and_not_3 
    using assms take_bit_nat_eq_self [of "n + 3" 64] by (simp add: unsigned_ucast_eq)
qed

text \<open>The three words of a note header, and the payloads, at their offsets.\<close>

lemma sub_bytes_append:
  "sub_bytes (length a) n (a @ b) = take n b"
  "sub_bytes (length a + k) n (a @ b) = sub_bytes k n b"
  by (simp_all add: sub_bytes_def)

lemma length_encode_note:
  "length (encode_note n) = 12 + (length (note_name n) + 3) div 4 * 4
     + (length (note_desc n) + 3) div 4 * 4"
  by (simp add: encode_note_def length_padded)

lemma ParseBuildIdNote_loop_notes:
  assumes "\<forall>n\<in>set ns. note_fits n"
    and "small m" and "m = pre @ seen @ concat (map encode_note ns) @ post"
    and "unat base = length pre"
  shows "ParseBuildIdNote_loop m base (length seen + length (concat (map encode_note ns))) (length seen)
    = Some (first_build_id ns)"
  using assms
proof (induction ns arbitrary: seen)
  case Nil
  then show ?case by (subst ParseBuildIdNote_loop.simps) simp
next
  case (Cons n ns)
  define pos where "pos = length seen"
  define len where "len = length seen + length (concat (map encode_note (n # ns)))"
  define rest where "rest = concat (map encode_note ns) @ post"
  define nm where "nm = length (note_name n)"
  define ds where "ds = length (note_desc n)"
  define pn where "pn = (nm + 3) div 4 * 4"
  have fits: "nm < 2 ^ 32 - 3" "ds < 2 ^ 32 - 3"
    using Cons.prems(1) by (simp_all add: note_fits_def nm_def ds_def)
  obtain zs where zs: "padded (note_desc n) = note_desc n @ zs" by (simp add: padded_def)
  have "encode_note n = le_bytes 4 nm @ le_bytes 4 ds @ le_bytes 4 (unat (note_type n)) @
      padded (note_name n) @ note_desc n @ zs"
    by (simp add: encode_note_def nm_def ds_def zs)
  then have m: "m = (pre @ seen) @ (le_bytes 4 nm @ le_bytes 4 ds @ le_bytes 4 (unat (note_type n)) @
      padded (note_name n) @ note_desc n @ zs @ rest)"
    using Cons.prems(3) by (simp add: rest_def)
  have lens: "unat base + pos = length (pre @ seen)" using Cons.prems(4) by (simp add: pos_def)
  have len: "len = pos + 12 + pn + (ds + 3) div 4 * 4 + length (concat (map encode_note ns))"
    by (simp add: len_def pos_def pn_def nm_def ds_def length_encode_note)
  have lm: "length m = unat base + len + length post"
    using Cons.prems(3,4) by (simp add: len_def)
  have h0: "sub_bytes (unat base + pos) 4 m = le_bytes 4 nm"
    unfolding lens by (subst m, subst sub_bytes_append) simp
  have h4: "sub_bytes (unat base + (pos + 4)) 4 m = le_bytes 4 ds"
    unfolding add.assoc [symmetric] lens by (subst m, subst sub_bytes_append) (simp add: sub_bytes_def)
  have h8: "sub_bytes (unat base + (pos + 8)) 4 m = le_bytes 4 (unat (note_type n))"
    unfolding add.assoc [symmetric] lens by (subst m, subst sub_bytes_append) (simp add: sub_bytes_def)
  have hd: "sub_bytes (unat base + (pos + 12 + pn)) ds m = note_desc n"
  proof -
    have "unat base + (pos + 12 + pn) = length (pre @ seen) + (12 + pn)" using lens by simp
    then show ?thesis
      by (subst m, simp only: sub_bytes_append)
        (simp add: sub_bytes_def ds_def length_padded pn_def nm_def)
  qed
  have bound: "unat base + pos + 12 \<le> length m" "unat base + (pos + 12 + pn) + ds \<le> length m"
    "pos + 12 + pn + ds \<le> len"
    unfolding lm len by linarith+
  have l0: "load m (base + word_of_nat pos) 4 = Some nm"
    using fits bound(1) Cons.prems(2) by (subst load_ptr) (simp_all add: h0 le_nat_le_bytes)
  have l4: "load m (base + word_of_nat (pos + 4)) 4 = Some ds"
    using fits bound(1) Cons.prems(2) by (subst load_ptr) (simp_all only: h4 le_nat_le_bytes, simp_all)
  have l8: "load m (base + word_of_nat (pos + 8)) 4 = Some (unat (note_type n))"
    using bound(1) Cons.prems(2) unat_u32_less [of "note_type n"]
    by (subst load_ptr) (simp_all only: h8 le_nat_le_bytes, simp_all)
  have fd: "fetch m (base + word_of_nat (pos + 12 + pn)) ds = Some (note_desc n)"
    using fetch_ptr [OF bound(2) Cons.prems(2)] by (simp only: hd)
  have nxt: "ParseBuildIdNote_loop m base len (pos + 12 + pn + (ds + 3) div 4 * 4) = Some (first_build_id ns)"
    using Cons.IH [of "seen @ encode_note n"] Cons.prems
    by (simp add: len_def pos_def length_encode_note pn_def nm_def ds_def algebra_simps)
  have "pos + 12 \<le> len" using bound(3) by simp
  moreover have "ds > 0 \<longleftrightarrow> note_desc n \<noteq> []" by (simp add: ds_def)
  ultimately have "ParseBuildIdNote_loop m base len pos = Some (first_build_id (n # ns))"
    using fits bound(3) fd nxt
    by (subst ParseBuildIdNote_loop.simps)
      (simp add: l0 l4 l8 pad4_of_length Let_def flip: pn_def del: of_nat_add)
  then show ?case by (simp add: len_def pos_def)
qed

text \<open>
  C31. On a note section that holds encoded notes, wherever it lies in the mapped file,
  \<^verbatim>\<open>ParseBuildIdNote\<close> returns the descriptor of the first build-id note that has one, and
  nothing if there is none; the walk stays inside the section.
\<close>

theorem ParseBuildIdNote_notes:
  assumes "\<forall>n\<in>set ns. note_fits n" and "small m"
    and "m = pre @ concat (map encode_note ns) @ post" and "unat base = length pre"
  shows "ParseBuildIdNote m base (length (concat (map encode_note ns))) = Some (first_build_id ns)"
  using ParseBuildIdNote_loop_notes [of ns m pre "[]" post base] assms
  by (simp add: ParseBuildIdNote_def)

theorem ParseBuildIdNote_notes_witness:
  "ParseBuildIdNote
     ([9, 9] @ concat (map encode_note
        [\<lparr>note_name = [0x47, 0x4e, 0x55, 0], note_type = 1, note_desc = [1, 2, 3]\<rparr>,
         \<lparr>note_name = [0x47, 0x4e, 0x55, 0], note_type = 3, note_desc = [7, 8, 9, 10, 11]\<rparr>]) @ [5])
     2 44 = Some [7, 8, 9, 10, 11]"
proof -
  let ?ns = "[\<lparr>note_name = [0x47, 0x4e, 0x55, 0], note_type = 1, note_desc = [1, 2, 3]\<rparr>,
    \<lparr>note_name = [0x47, 0x4e, 0x55, 0], note_type = 3, note_desc = [7, 8, 9, 10, 11]\<rparr>]"
  have l: "length (concat (map encode_note ?ns)) = 44" by (simp add: length_encode_note)
  have "ParseBuildIdNote ([9, 9] @ concat (map encode_note ?ns) @ [5]) 2
      (length (concat (map encode_note ?ns))) = Some (first_build_id ?ns)"
    by (rule ParseBuildIdNote_notes [where pre = "[9, 9]" and post = "[5]"])
      (simp_all add: note_fits_def small_def length_encode_note)
  then show ?thesis unfolding l by (simp add: kNtGnuBuildId_def)
qed


section \<open>The hash of the text section\<close>

text \<open>A 32-bit ELF file with a text section of 16 bytes.\<close>

definition demo_elf :: bytes where
  "demo_elf =
    [127, 69, 76, 70, 1, 0, 0, 0, 0, 0, 0, 0, 0, 0, 0, 0, 0, 0, 0, 0, 0, 0, 0, 0, 0, 0, 0,
     0, 0, 0, 0, 0, 64, 0, 0, 0, 0, 0, 0, 0, 0, 0, 0, 0, 0, 0, 40, 0, 2, 0, 1, 0, 0, 0, 0, 0,
     0, 0, 0, 0, 0, 0, 0, 0, 0, 0, 0, 0, 1, 0, 0, 0, 0, 0, 0, 0, 0, 0, 0, 0, 152, 0, 0, 0,
     16, 0, 0, 0, 0, 0, 0, 0, 0, 0, 0, 0, 0, 0, 0, 0, 0, 0, 0, 0, 6, 0, 0, 0, 3, 0, 0, 0, 0,
     0, 0, 0, 0, 0, 0, 0, 144, 0, 0, 0, 8, 0, 0, 0, 0, 0, 0, 0, 0, 0, 0, 0, 0, 0, 0, 0, 0, 0,
     0, 0, 46, 116, 101, 120, 116, 0, 0, 0, 1, 2, 3, 4, 5, 6, 7, 8, 9, 10, 11, 12, 13, 14,
     15, 16]"

lemma demo_elf_length [simp]: "length demo_elf = 168" "small demo_elf"
  by (simp_all add: demo_elf_def small_def)

lemma demo_ehdr: "read_ehdr demo_elf False = Some \<lparr>e_shoff = 64, e_shentsize = 40, e_shnum = 2, e_shstrndx = 1\<rparr>"
  by (simp add: read_ehdr_def load_inside) (simp add: sub_bytes_def demo_elf_def)

lemma demo_shdr: "ReadShdr demo_elf 64 40 0 False = Some \<lparr>sh_name = 0, sh_type = 1, sh_offset = 152, sh_size = 16\<rparr>"
  "ReadShdr demo_elf 64 40 1 False = Some \<lparr>sh_name = 6, sh_type = 3, sh_offset = 144, sh_size = 8\<rparr>"
  by (simp_all add: ReadShdr_def load_inside) (simp_all add: sub_bytes_def demo_elf_def)


lemma demo_strcmp: "strcmp_eq demo_elf 144 (bytes_of ''.text'') = Some True"
  by (simp add: bytes_of_def byte_of_char_def map_at_def) (simp add: demo_elf_def)

lemma demo_build_id: "elf_build_id demo_elf = Some [1, 2, 3, 4, 5, 6, 7, 8, 9, 10, 11, 12, 13, 14, 15, 16]"
proof -
  have "take 4 demo_elf = [0x7f, 0x45, 0x4c, 0x46]" "demo_elf ! 4 = 1" by (simp_all add: demo_elf_def)
  moreover have "fetch demo_elf 152 16 = Some [1, 2, 3, 4, 5, 6, 7, 8, 9, 10, 11, 12, 13, 14, 15, 16]"
    by (simp add: fetch_inside) (simp add: sub_bytes_def demo_elf_def)
  moreover have "replicate 16 (0 :: u8) = [0, 0, 0, 0, 0, 0, 0, 0, 0, 0, 0, 0, 0, 0, 0, 0]"
    by (simp add: numeral_eq_Suc)
  moreover have "[0..<2] = [0, 1::nat]" by (simp add: upt_rec)
  ultimately show ?thesis
    by (simp add: elf_build_id_def demo_ehdr demo_shdr demo_strcmp SHT_NOTE_def SHT_PROGBITS_def
        chunk_offsets_def kXorHashSize_def kXorMaxBytes_def)
qed

lemma xor_chunks_fold:
  assumes "small m" and "\<forall>j\<in>set js. unat ptr + j + 16 \<le> length m" and "length hash = 16"
  shows "xor_chunks m ptr js hash =
    Some (map (\<lambda>k. fold (\<lambda>j x. x XOR m ! (unat ptr + j + k)) js (hash ! k)) [0..<16])"
  using assms(2,3)
proof (induction js arbitrary: hash)
  case Nil
  then show ?case using map_nth [of hash] by simp
next
  case (Cons j js)
  let ?c = "sub_bytes (unat ptr + j) 16 m"
  have f: "fetch m (ptr + word_of_nat j) 16 = Some ?c"
    using Cons.prems(1) assms(1) by (intro fetch_ptr) simp_all
  have c: "length ?c = 16" "\<And>k. k < 16 \<Longrightarrow> ?c ! k = m ! (unat ptr + j + k)"
    using Cons.prems(1) by (auto simp: sub_bytes_def min_def)
  define h1 where "h1 = map2 (XOR) hash ?c"
  have h1: "length h1 = 16" "\<And>k. k < 16 \<Longrightarrow> h1 ! k = hash ! k XOR m ! (unat ptr + j + k)"
    using Cons.prems(2) c by (simp_all add: h1_def)
  have "xor_chunks m ptr (j # js) hash = xor_chunks m ptr js h1"
    by (simp add: f kXorHashSize_def h1_def)
  also have "\<dots> = Some (map (\<lambda>k. fold (\<lambda>j x. x XOR m ! (unat ptr + j + k)) js (h1 ! k)) [0..<16])"
    using Cons.prems(1) h1(1) by (intro Cons.IH) simp_all
  finally show ?case using h1(2) by simp
qed

text \<open>
  The fallback id of a text section at \<open>ptr\<close> whose 16-byte chunks lie in the file: byte
  \<open>k\<close> is the XOR of the bytes at distance \<open>k\<close>, \<open>k + 16\<close>, ... from \<open>ptr\<close>, over the
  chunks that start below the smaller of the section's size and 4096. The last chunk is not
  cut at the end of the section.
\<close>

lemma xor_fallback_bytes:
  assumes "small m" and "limit = min sz kXorMaxBytes" and "unat ptr + (limit + 15) div 16 * 16 \<le> length m"
  shows "xor_chunks m ptr (chunk_offsets limit) (replicate kXorHashSize 0) =
    Some (map (\<lambda>k. foldr (XOR) (map (\<lambda>c. m ! (unat ptr + 16 * c + k)) [0..<(limit + 15) div 16]) 0) [0..<16])"
proof -
  have fr: "fold (\<lambda>j x. x XOR g j) js a = foldr (XOR) (map g js) a" for g :: "nat \<Rightarrow> u8" and js a
  proof -
    have out: "foldr (XOR) xs (a XOR b) = b XOR foldr (XOR) xs a" for xs :: "u8 list" and a b
      by (induction xs) (simp_all add: ac_simps)
    show ?thesis by (induction js arbitrary: a) (simp_all add: out)
  qed
  have "\<forall>j\<in>set (chunk_offsets limit). unat ptr + j + 16 \<le> length m"
  proof
    fix j assume "j \<in> set (chunk_offsets limit)"
    then obtain c where "c < (limit + 15) div 16" "j = 16 * c"
      by (auto simp: chunk_offsets_def kXorHashSize_def add.commute)
    then show "unat ptr + j + 16 \<le> length m" using assms(3) by linarith
  qed
  from xor_chunks_fold [OF assms(1) this, of "replicate kXorHashSize 0"] show ?thesis
    by (simp add: kXorHashSize_def fr chunk_offsets_def comp_def add.commute [of 15 limit])
qed

section \<open>Sections of an ELF file\<close>

lemma strcmp_eq_terminated:
  assumes "m = pre @ nm @ 0 # post" and "unat p = length pre" and "small m" and "0 \<notin> set nm" and "0 \<notin> set lit"
  shows "strcmp_eq m p lit = Some (nm = lit)"
  using assms
proof (induction lit arbitrary: pre nm p)
  case Nil
  then show ?case by (cases nm) (auto simp: map_at_def nth_append)
next
  case (Cons c lit)
  show ?case
  proof (cases nm)
    case Nil
    then show ?thesis using Cons.prems by (auto simp: map_at_def nth_append)
  next
    case (Cons b bs)
    have at: "map_at m p = Some b" using Cons.prems Cons by (simp add: map_at_def nth_append)
    have p: "unat (p + 1) = length (pre @ [b])"
      using Cons.prems(1-3) Cons by (subst unat_plus_one) (simp_all add: small_def)
    have "m = (pre @ [b]) @ bs @ 0 # post" using Cons.prems(1) Cons by simp
    from Cons.IH [OF this p Cons.prems(3)] show ?thesis
      using Cons.prems(4,5) Cons at by (cases "b = c") auto
  qed
qed

text \<open>The walk over the notes of a section that lies in the file does not fault.\<close>

lemma ParseBuildIdNote_inside:
  assumes "unat base + len \<le> length m" and "small m"
  shows "\<exists>bid. ParseBuildIdNote m base len = Some bid"
proof -
  have "\<exists>bid. ParseBuildIdNote_loop m base len pos = Some bid" for pos
  proof (induction "len - pos" arbitrary: pos rule: less_induct)
    case less
    show ?case
    proof (cases "pos + 12 \<le> len")
      case True
      have l: "\<exists>v. load m (base + word_of_nat (pos + k)) 4 = Some v" if "k \<le> 8" for k
        using that True assms load_ptr [of base "pos + k" 4 m] by auto
      obtain a b c where abc: "load m (base + word_of_nat pos) 4 = Some a"
        "load m (base + word_of_nat (pos + 4)) 4 = Some b" "load m (base + word_of_nat (pos + 8)) 4 = Some c"
        using l [of 0] l [of 4] l [of 8] by auto
      have f: "\<exists>bid. fetch m (base + word_of_nat k) n = Some bid" if "k + n \<le> len" for k n
        using fetch_ptr [of base k n m] that assms by auto
      have "\<exists>bid. ParseBuildIdNote_loop m base len (pos + 12 + x + y) = Some bid" for x y
        using True by (intro less) auto
      then show ?thesis using True abc f
        by (subst ParseBuildIdNote_loop.simps) (auto simp: Let_def simp del: of_nat_add)
    qed (simp add: ParseBuildIdNote_loop.simps)
  qed
  then show ?thesis by (simp add: ParseBuildIdNote_def)
qed

text \<open>
  A section as the format describes it, by its name and header: the header is the \<open>i\<close>-th
  entry of the table, and the name is a terminated string of the string table. Its contents
  lie in the file; the hash reads whole chunks of 16 bytes.
\<close>

type_synonym elf_section = "bytes \<times> SectionFields"

definition section_at :: "bytes \<Rightarrow> bool \<Rightarrow> ElfHeader \<Rightarrow> u64 \<Rightarrow> nat \<Rightarrow> elf_section \<Rightarrow> bool" where
  "section_at m is64 h strtab i sec =
     (ReadShdr m (e_shoff h) (e_shentsize h) (word_of_nat i) is64 = Some (snd sec) \<and>
      0 \<notin> set (fst sec) \<and>
      (\<exists>pre post. m = pre @ fst sec @ 0 # post \<and> unat (strtab + ucast (sh_name (snd sec))) = length pre) \<and>
      unat (sh_offset (snd sec)) + unat (sh_size (snd sec)) \<le> length m \<and>
      unat (sh_offset (snd sec)) + (min (unat (sh_size (snd sec))) kXorMaxBytes + 15) div 16 * 16 \<le> length m)"

definition elf_image :: "bytes \<Rightarrow> elf_section list \<Rightarrow> bool" where
  "elf_image m secs =
     (small m \<and> 64 \<le> length m \<and> take 4 m = [0x7f, 0x45, 0x4c, 0x46] \<and>
      (\<exists>h st. read_ehdr m (m ! 4 = 2) = Some h \<and> e_shoff h \<noteq> 0 \<and> e_shstrndx h \<noteq> 0 \<and>
         unat (e_shoff h + ucast (e_shnum h) * ucast (e_shentsize h)) \<le> length m \<and>
         ReadShdr m (e_shoff h) (e_shentsize h) (e_shstrndx h) (m ! 4 = 2) = Some st \<and>
         unat (sh_offset st) < length m \<and> length secs = unat (e_shnum h) \<and>
         (\<forall>i<length secs. section_at m (m ! 4 = 2) h (sh_offset st) i (secs ! i))))"

text \<open>
  The build id of an image: that of the first GNU build-id section that has one, otherwise
  the hash of the first text section, otherwise none.
\<close>

definition note_id :: "bytes \<Rightarrow> elf_section \<Rightarrow> bytes" where
  "note_id m sec =
     (if sh_type (snd sec) = SHT_NOTE \<and> fst sec = bytes_of ''.note.gnu.build-id''
      then (case ParseBuildIdNote m (sh_offset (snd sec)) (unat (sh_size (snd sec))) of
              None \<Rightarrow> [] | Some bid \<Rightarrow> bid)
      else [])"

definition is_text_section :: "elf_section \<Rightarrow> bool" where
  "is_text_section sec =
     (sh_type (snd sec) = SHT_PROGBITS \<and> fst sec = bytes_of ''.text'' \<and> sh_offset (snd sec) \<noteq> 0)"

definition text_hash :: "bytes \<Rightarrow> elf_section \<Rightarrow> bytes" where
  "text_hash m sec =
     (if sh_size (snd sec) = 0 then []
      else map (\<lambda>k. foldr (XOR) (map (\<lambda>c. m ! (unat (sh_offset (snd sec)) + 16 * c + k))
             [0..<(min (unat (sh_size (snd sec))) kXorMaxBytes + 15) div 16]) 0) [0..<16])"

definition build_id_of :: "bytes \<Rightarrow> elf_section list \<Rightarrow> bytes" where
  "build_id_of m secs =
     (case filter (\<lambda>bid. bid \<noteq> []) (map (note_id m) secs) of
        bid # _ \<Rightarrow> bid
      | [] \<Rightarrow> (case find is_text_section secs of None \<Rightarrow> [] | Some sec \<Rightarrow> text_hash m sec))"

lemma section_strcmp:
  assumes "section_at m is64 h strtab i sec" and "small m" and "0 \<notin> set lit"
  shows "strcmp_eq m (strtab + ucast (sh_name (snd sec))) lit = Some (fst sec = lit)"
  using assms strcmp_eq_terminated [of m _ "fst sec"] by (auto simp: section_at_def)

lemma section_inside:
  assumes "section_at m is64 h strtab i sec" and "small m"
  shows "unat (strtab + ucast (sh_name (snd sec))) < length m"
    and "unat (sh_offset (snd sec) + sh_size (snd sec)) = unat (sh_offset (snd sec)) + unat (sh_size (snd sec))"
    and "unat (sh_offset (snd sec)) + unat (sh_size (snd sec)) \<le> length m"
  using assms by (auto simp: section_at_def small_def intro!: unat_add_no_wrap)

lemma no_nul_names: "0 \<notin> set (bytes_of ''.note.gnu.build-id'')" "0 \<notin> set (bytes_of ''.text'')"
  by (simp_all add: bytes_of_def byte_of_char_def)

text \<open>What the scan over sections may return, when it starts with a text section or without.\<close>

definition scan_outcome :: "bytes \<Rightarrow> elf_section list \<Rightarrow> u64 \<times> u64 \<Rightarrow> bytes + u64 \<times> u64 \<Rightarrow> bool" where
  "scan_outcome m secs text r =
     (case filter (\<lambda>bid. bid \<noteq> []) (map (note_id m) secs) of
        bid # _ \<Rightarrow> r = Inl bid
      | [] \<Rightarrow> (case r of Inl _ \<Rightarrow> False | Inr (off, sz) \<Rightarrow>
          if fst text \<noteq> 0 then (off, sz) = text
          else (case find is_text_section secs of
             None \<Rightarrow> off = 0
           | Some sec \<Rightarrow> off = sh_offset (snd sec) \<and> sz = sh_size (snd sec))))"

lemma scan_outcome_Cons:
  assumes "note_id m s = []" and "scan_outcome m secs (if here then sh_offset (snd s) else off0, if here then sh_size (snd s) else sz0) r"
    and "here = (sh_type (snd s) = SHT_PROGBITS \<and> off0 = 0 \<and> fst s = bytes_of ''.text'')"
  shows "scan_outcome m (s # secs) (off0, sz0) r"
proof (cases "here \<and> sh_offset (snd s) \<noteq> 0")
  case True
  then show ?thesis using assms
    by (auto simp: scan_outcome_def is_text_section_def split: list.splits sum.splits)
next
  case False
  then have "off0 \<noteq> 0 \<or> \<not> is_text_section s" using assms(3) by (auto simp: is_text_section_def)
  with False show ?thesis using assms
    by (cases here) (auto simp: scan_outcome_def split: list.splits sum.splits)
qed

lemma scan_sections_outcome:
  assumes "\<forall>i\<in>set is. section_at m is64 h strtab i (sec i)" and "small m"
  shows "\<exists>r. scan_sections m (e_shoff h) (e_shentsize h) is64 strtab is text_off text_size = Some r \<and>
    scan_outcome m (map sec is) (text_off, text_size) r"
  using assms(1)
proof (induction "is" arbitrary: text_off text_size)
  case Nil
  then show ?case by (simp add: scan_outcome_def)
next
  case (Cons i "is")
  let ?s = "sec i"
  have at: "section_at m is64 h strtab i ?s" using Cons.prems by simp
  note inside = section_inside [OF at assms(2)]
  have hdr: "ReadShdr m (e_shoff h) (e_shentsize h) (word_of_nat i) is64 = Some (snd ?s)"
    using at by (simp add: section_at_def)
  have note': "(if sh_type (snd ?s) = SHT_NOTE
      then strcmp_eq m (strtab + ucast (sh_name (snd ?s))) (bytes_of ''.note.gnu.build-id'') else Some False) =
      Some (sh_type (snd ?s) = SHT_NOTE \<and> fst ?s = bytes_of ''.note.gnu.build-id'')"
    using section_strcmp [OF at assms(2) no_nul_names(1)] by simp
  obtain bid where bid: "ParseBuildIdNote m (sh_offset (snd ?s)) (unat (sh_size (snd ?s))) = Some bid"
    using ParseBuildIdNote_inside [OF inside(3) assms(2)] by blast
  have id': "(if (sh_type (snd ?s) = SHT_NOTE \<and> fst ?s = bytes_of ''.note.gnu.build-id'') \<and>
        unat (sh_offset (snd ?s) + sh_size (snd ?s)) \<le> length m
      then ParseBuildIdNote m (sh_offset (snd ?s)) (unat (sh_size (snd ?s))) else Some []) = Some (note_id m ?s)"
    using inside(2,3) bid by (simp add: note_id_def)
  let ?text = "sh_type (snd ?s) = SHT_PROGBITS \<and> text_off = 0 \<and> fst ?s = bytes_of ''.text''"
  have text': "(if sh_type (snd ?s) = SHT_PROGBITS \<and> text_off = 0
      then strcmp_eq m (strtab + ucast (sh_name (snd ?s))) (bytes_of ''.text'') else Some False) = Some ?text"
    using section_strcmp [OF at assms(2) no_nul_names(2)] by auto
  have unfold: "scan_sections m (e_shoff h) (e_shentsize h) is64 strtab (i # is) text_off text_size =
    (if note_id m ?s \<noteq> [] then Some (Inl (note_id m ?s))
     else scan_sections m (e_shoff h) (e_shentsize h) is64 strtab is
       (if ?text then sh_offset (snd ?s) else text_off) (if ?text then sh_size (snd ?s) else text_size))"
    using inside(1) by (simp only: scan_sections.simps hdr option.case Let_def note' id' text' not_le if_False)
      (simp add: not_le)
  show ?case
  proof (cases "note_id m ?s = []")
    case True
    from Cons.IH [of "if ?text then sh_offset (snd ?s) else text_off" "if ?text then sh_size (snd ?s) else text_size"]
      Cons.prems
    obtain r where r: "scan_sections m (e_shoff h) (e_shentsize h) is64 strtab is
        (if ?text then sh_offset (snd ?s) else text_off) (if ?text then sh_size (snd ?s) else text_size) = Some r"
      "scan_outcome m (map sec is) (if ?text then sh_offset (snd ?s) else text_off,
        if ?text then sh_size (snd ?s) else text_size) r" by auto
    have "scan_outcome m (map sec (i # is)) (text_off, text_size) r"
      using scan_outcome_Cons [OF True r(2) refl] by simp
    then show ?thesis using unfold True r(1) by auto
  next
    case False
    then show ?thesis unfolding unfold by (simp add: scan_outcome_def)
  qed
qed

text \<open>
  C7. For a readable ELF file whose section headers, names and contents lie in the file,
  \<^verbatim>\<open>ComputeElfBuildId\<close> does not fault and returns the id that the sections determine: the one of
  the first \<^verbatim>\<open>.note.gnu.build-id\<close> section that has an id, or else the hash of the first
  \<^verbatim>\<open>.text\<close> section, or nothing.
\<close>

theorem ComputeElfBuildId_spec:
  assumes "read_file elf_path w = Some m" and "elf_image m secs"
  shows "ComputeElfBuildId elf_path w = Some (build_id_of m secs)"
proof -
  let ?is64 = "m ! 4 = 2"
  obtain h st where small: "small m" "64 \<le> length m" "take 4 m = [0x7f, 0x45, 0x4c, 0x46]"
    and h: "read_ehdr m ?is64 = Some h" "e_shoff h \<noteq> 0" "e_shstrndx h \<noteq> 0"
      "unat (e_shoff h + ucast (e_shnum h) * ucast (e_shentsize h)) \<le> length m"
    and st: "ReadShdr m (e_shoff h) (e_shentsize h) (e_shstrndx h) ?is64 = Some st" "unat (sh_offset st) < length m"
    and secs: "length secs = unat (e_shnum h)" "\<forall>i<length secs. section_at m ?is64 h (sh_offset st) i (secs ! i)"
    using assms(2) unfolding elf_image_def by blast
  have all: "\<forall>i\<in>set [0..<unat (e_shnum h)]. section_at m ?is64 h (sh_offset st) i (secs ! i)"
    using secs by simp
  have map: "map ((!) secs) [0..<unat (e_shnum h)] = secs" using map_nth [of secs] secs(1) by simp
  obtain r where r: "scan_sections m (e_shoff h) (e_shentsize h) ?is64 (sh_offset st) [0..<unat (e_shnum h)] 0 0 = Some r"
    and out: "scan_outcome m secs (0, 0) r"
    using scan_sections_outcome [OF all small(1), of 0 0] unfolding map by blast
  let ?fin = "case r of Inl bid \<Rightarrow> Some bid | Inr (text_off, text_size) \<Rightarrow>
      if text_off = 0 \<or> text_size = 0 \<or> unat (text_off + text_size) > length m then Some []
      else xor_chunks m text_off (chunk_offsets (min (unat text_size) kXorMaxBytes)) (replicate kXorHashSize 0)"
  have "ComputeElfBuildId elf_path w = ?fin"
    using assms(1) small(2,3) h st r
    by (simp add: ComputeElfBuildId_def elf_build_id_def Let_def not_le split: sum.split)
  moreover have "?fin = Some (build_id_of m secs)"
  proof (cases "filter (\<lambda>bid. bid \<noteq> []) (map (note_id m) secs)")
    case (Cons bid bids)
    then show ?thesis using out by (simp add: scan_outcome_def build_id_of_def)
  next
    case Nil
    show ?thesis
    proof (cases "find is_text_section secs")
      case None
      then show ?thesis using out Nil
        by (cases r) (auto simp: scan_outcome_def build_id_of_def)
    next
      case (Some sec)
      then obtain i where i: "i < length secs" "sec = secs ! i" "is_text_section sec"
        by (auto simp: find_Some_iff)
      then have at: "section_at m ?is64 h (sh_offset st) i sec" using secs(2) by simp
      have "r = Inr (sh_offset (snd sec), sh_size (snd sec))"
        using out Nil Some by (cases r) (auto simp: scan_outcome_def)
      moreover have "unat (sh_offset (snd sec) + sh_size (snd sec)) \<le> length m"
        using section_inside [OF at small(1)] by simp
      moreover have "unat (sh_offset (snd sec)) + (min (unat (sh_size (snd sec))) kXorMaxBytes + 15) div 16 * 16 \<le> length m"
        using at by (simp add: section_at_def)
      ultimately show ?thesis
        using i(3) Nil Some xor_fallback_bytes [OF small(1) refl]
        by (simp add: build_id_of_def text_hash_def is_text_section_def not_less)
    qed
  qed
  ultimately show ?thesis by simp
qed

abbreviation demo_text :: SectionFields where
  "demo_text \<equiv> \<lparr>sh_name = 0, sh_type = 1, sh_offset = 152, sh_size = 16\<rparr>"

abbreviation demo_strtab :: SectionFields where
  "demo_strtab \<equiv> \<lparr>sh_name = 6, sh_type = 3, sh_offset = 144, sh_size = 8\<rparr>"

abbreviation demo_header :: ElfHeader where
  "demo_header \<equiv> \<lparr>e_shoff = 64, e_shentsize = 40, e_shnum = 2, e_shstrndx = 1\<rparr>"

lemma demo_elf_split:
  "demo_elf = take 144 demo_elf @ bytes_of ''.text'' @ 0 # drop 150 demo_elf"
  "demo_elf = take 150 demo_elf @ [] @ 0 # drop 151 demo_elf"
  by (simp_all add: demo_elf_def bytes_of_def byte_of_char_def)

lemma demo_sections:
  "section_at demo_elf False demo_header 144 0 (bytes_of ''.text'', demo_text)"
  "section_at demo_elf False demo_header 144 (Suc 0) ([], demo_strtab)"
proof -
  have l: "unat (144 + ucast (0 :: u32) :: u64) = length (take 144 demo_elf)"
    "unat (144 + ucast (6 :: u32) :: u64) = length (take 150 demo_elf)"
    by simp_all
  have r: "unat (152 :: u64) + unat (16 :: u64) \<le> length demo_elf"
    "unat (152 :: u64) + (min (unat (16 :: u64)) kXorMaxBytes + 15) div 16 * 16 \<le> length demo_elf"
    "unat (144 :: u64) + unat (8 :: u64) \<le> length demo_elf"
    "unat (144 :: u64) + (min (unat (8 :: u64)) kXorMaxBytes + 15) div 16 * 16 \<le> length demo_elf"
    by (simp_all add: kXorMaxBytes_def)
  have h: "ReadShdr demo_elf 64 40 (word_of_nat 0) False = Some demo_text"
    "ReadShdr demo_elf 64 40 (word_of_nat (Suc 0)) False = Some demo_strtab"
    using demo_shdr by simp_all
  show "section_at demo_elf False demo_header 144 0 (bytes_of ''.text'', demo_text)"
    unfolding section_at_def fst_conv snd_conv ElfHeader.simps SectionFields.simps
    using h(1) no_nul_names(2) demo_elf_split(1) l(1) r(1,2) by blast
  show "section_at demo_elf False demo_header 144 (Suc 0) ([], demo_strtab)"
    unfolding section_at_def fst_conv snd_conv ElfHeader.simps SectionFields.simps
    using h(2) demo_elf_split(2) l(2) r(3,4) by fastforce
qed

lemma demo_elf_image: "elf_image demo_elf [(bytes_of ''.text'', demo_text), ([], demo_strtab)]"
proof -
  have is64: "(demo_elf ! 4 = 2) = False" by (simp add: demo_elf_def)
  have magic: "take 4 demo_elf = [0x7f, 0x45, 0x4c, 0x46]" by (simp add: demo_elf_def)
  have fits: "unat (e_shoff demo_header + ucast (e_shnum demo_header) * ucast (e_shentsize demo_header)) \<le> length demo_elf"
    by simp
  have sects: "\<forall>i<length [(bytes_of ''.text'', demo_text), ([], demo_strtab)].
      section_at demo_elf False demo_header 144 i ([(bytes_of ''.text'', demo_text), ([], demo_strtab)] ! i)"
    using demo_sections by (simp add: less_Suc_eq)
  show ?thesis
    unfolding elf_image_def is64
    by (intro conjI exI [of _ demo_header] exI [of _ demo_strtab] magic fits)
      (use demo_ehdr demo_shdr sects in simp_all)
qed

definition elf_world :: "bytes \<Rightarrow> world" where
  "elf_world m = \<lparr>nodes = [(''/lib/a'', Regular m 0)],
     unreadable = (\<lambda>_. None), undeletable = (\<lambda>_. None), read_fails = (\<lambda>_. False), unwritable = (\<lambda>_. None),
     wall_clock = 0, steady_clock = 0, out = [], log = []\<rparr>"

lemma read_elf_world: "read_file ''/lib/a'' (elf_world m) = Some m"
  by (simp add: read_file_def elf_world_def lookup_def)

theorem ComputeElfBuildId_spec_witness:
  "ComputeElfBuildId ''/lib/a'' (elf_world demo_elf) =
     Some (build_id_of demo_elf [(bytes_of ''.text'', demo_text), ([], demo_strtab)]) \<and>
   build_id_of demo_elf [(bytes_of ''.text'', demo_text), ([], demo_strtab)] =
     [1, 2, 3, 4, 5, 6, 7, 8, 9, 10, 11, 12, 13, 14, 15, 16]"
proof -
  note spec = ComputeElfBuildId_spec [OF read_elf_world demo_elf_image]
  moreover have "ComputeElfBuildId ''/lib/a'' (elf_world demo_elf) =
      Some [1, 2, 3, 4, 5, 6, 7, 8, 9, 10, 11, 12, 13, 14, 15, 16]"
    by (simp add: ComputeElfBuildId_def read_elf_world demo_build_id)
  ultimately show ?thesis by simp
qed

text \<open>
  C39. The index of the string table is not compared with the number of sections: a file
  whose section table is in order, but whose \<^verbatim>\<open>e_shstrndx\<close> points beyond the mapping, makes
  \<^verbatim>\<open>ComputeElfBuildId\<close> read there, which faults.
\<close>

theorem ComputeElfBuildId_unchecked_index:
  assumes "read_file elf_path w = Some m" and "64 \<le> length m" and "take 4 m = [0x7f, 0x45, 0x4c, 0x46]"
    and "read_ehdr m (m ! 4 = 2) = Some h" and "e_shoff h \<noteq> 0" and "e_shstrndx h \<noteq> 0"
    and "unat (e_shoff h + ucast (e_shnum h) * ucast (e_shentsize h)) \<le> length m"
    and "mapping_end m \<le> unat (e_shoff h + ucast (e_shstrndx h) * ucast (e_shentsize h))"
  shows "ComputeElfBuildId elf_path w = None"
proof -
  have "load m (e_shoff h + ucast (e_shstrndx h) * ucast (e_shentsize h)) 4 = None"
    using fetch_outside [OF assms(8), of 4] by (simp add: load_def)
  then have "ReadShdr m (e_shoff h) (e_shentsize h) (e_shstrndx h) (m ! 4 = 2) = None"
    by (simp add: ReadShdr_def Let_def)
  then show ?thesis
    using assms(1-7) by (simp add: ComputeElfBuildId_def elf_build_id_def not_le)
qed

lemma demo_far_index:
  defines "m \<equiv> demo_elf[50 := 0xff, 51 := 0xff]"
  shows "length m = 168" and "take 4 m = [0x7f, 0x45, 0x4c, 0x46]" and "(m ! 4 = 2) = False"
    and "read_ehdr m False = Some \<lparr>e_shoff = 64, e_shentsize = 40, e_shnum = 2, e_shstrndx = 0xffff\<rparr>"
proof -
  show l: "length m = 168" by (simp add: m_def)
  then have s: "small m" by (simp add: small_def)
  show "take 4 m = [0x7f, 0x45, 0x4c, 0x46]" and "(m ! 4 = 2) = False" by (simp_all add: m_def demo_elf_def)
  show "read_ehdr m False = Some \<lparr>e_shoff = 64, e_shentsize = 40, e_shnum = 2, e_shstrndx = 0xffff\<rparr>"
    using l s by (simp add: read_ehdr_def load_inside) (simp add: m_def sub_bytes_def demo_elf_def)
qed

theorem ComputeElfBuildId_unchecked_index_witness:
  "ComputeElfBuildId ''/lib/a'' (elf_world (demo_elf[50 := 0xff, 51 := 0xff])) = None"
  using demo_far_index
  by (intro ComputeElfBuildId_unchecked_index [OF read_elf_world, where h = "\<lparr>e_shoff = 64, e_shentsize = 40, e_shnum = 2, e_shstrndx = 0xffff\<rparr>"])
    (simp_all add: mapping_end_def page_size_def)

end
