(* ===== verification/Byte_Cells.thy ===== *)
theory Byte_Cells
  imports Prelude
begin

text \<open>
  Interfaces of the buffers that the minidump readers and the patcher work on: a reader of
  32-bit little-endian cells, a writer that goes with it, and buffers that agree outside a
  set of offsets. The laws say what an access inside the buffer does; what an access
  outside it does is left to each implementation.
\<close>

section \<open>Regions\<close>

definition span :: "nat \<Rightarrow> nat \<Rightarrow> nat set" where
  "span off n = {off ..< off + n}"

lemma span_disjointD: "span off n \<inter> T = {} \<Longrightarrow> off \<le> k \<Longrightarrow> k < off + n \<Longrightarrow> k \<notin> T"
  by (auto simp: span_def disjoint_iff)

lemma span_disjoint_mono:
  "span off n \<inter> T = {} \<Longrightarrow> off \<le> p \<Longrightarrow> p + m \<le> off + n \<Longrightarrow> span p m \<inter> T = {}"
  by (auto simp: span_def disjoint_iff)

definition same_off :: "nat set \<Rightarrow> 'a list \<Rightarrow> 'a list \<Rightarrow> bool" where
  "same_off T a b = (length a = length b \<and> (\<forall>k < length a. k \<notin> T \<longrightarrow> a ! k = b ! k))"

lemma same_off_refl [simp]: "same_off T a a"
  by (simp add: same_off_def)

lemma same_off_sym: "same_off T a b \<Longrightarrow> same_off T b a"
  by (simp add: same_off_def)

lemma same_off_trans: "same_off T a b \<Longrightarrow> same_off U b c \<Longrightarrow> same_off (T \<union> U) a c"
  by (simp add: same_off_def)

lemma same_off_mono: "same_off T a b \<Longrightarrow> T \<subseteq> U \<Longrightarrow> same_off U a b"
  by (auto simp: same_off_def)

lemma same_off_length: "same_off T a b \<Longrightarrow> length a = length b"
  by (simp add: same_off_def)

lemma same_off_nth: "same_off T a b \<Longrightarrow> k \<notin> T \<Longrightarrow> k < length a \<Longrightarrow> a ! k = b ! k"
  by (simp add: same_off_def)

lemma same_off_sub_bytes:
  assumes "same_off T a b" and "span off n \<inter> T = {}"
  shows "sub_bytes off n a = sub_bytes off n b"
proof (rule sub_bytes_eqI)
  show "length a = length b" using assms(1) by (rule same_off_length)
  fix i assume i: "off \<le> i" "i < off + n" "i < length a"
  then have "i \<notin> T" using span_disjointD [OF assms(2)] by simp
  then show "a ! i = b ! i" using assms(1) i(3) by (simp add: same_off_nth)
qed

lemma same_off_put_bytes:
  assumes "off + length xs \<le> length buf"
  shows "same_off (span off (length xs)) buf (put_bytes off xs buf)"
  using assms by (auto simp: same_off_def span_def nth_put_bytes length_put_bytes)

section \<open>32-bit cells\<close>

lemma unat_u32_add:
  assumes "unat (p :: u32) + k \<le> n" and "n < 2 ^ 32"
  shows "unat (p + word_of_nat k) = unat p + k"
proof -
  have "unat (word_of_nat k :: u32) = k" using assms by (intro unat_of_nat_small) simp
  then show ?thesis using assms by (subst unat_add_no_wrap) simp_all
qed

locale u32_cells =
  fixes rd :: "bytes \<Rightarrow> nat \<Rightarrow> u32"
  assumes rd_inside: "off + 4 \<le> length buf \<Longrightarrow> rd buf off = word_of_nat (le_nat (sub_bytes off 4 buf))"
begin

lemma rd_put_same:
  assumes "off + 4 \<le> length buf"
  shows "rd (put_bytes off (le_bytes 4 (unat v)) buf) off = v"
  using assms unat_u32_less [of v]
  by (simp add: rd_inside length_put_bytes sub_put_same le_nat_le_bytes)

lemma rd_same_off:
  assumes "same_off T a b" and "span off 4 \<inter> T = {}" and "off + 4 \<le> length a"
  shows "rd a off = rd b off"
  using assms same_off_sub_bytes [OF assms(1,2)] same_off_length [OF assms(1)]
  by (simp add: rd_inside)

end

locale u32_store = u32_cells +
  fixes wr :: "bytes \<Rightarrow> nat \<Rightarrow> u32 \<Rightarrow> bytes"
  assumes wr_inside: "off + 4 \<le> length buf \<Longrightarrow> wr buf off v = put_bytes off (le_bytes 4 (unat v)) buf"
begin

lemma length_wr: "off + 4 \<le> length buf \<Longrightarrow> length (wr buf off v) = length buf"
  by (simp add: wr_inside length_put_bytes)

lemma rd_wr_same: "off + 4 \<le> length buf \<Longrightarrow> rd (wr buf off v) off = v"
  by (simp add: wr_inside rd_put_same)

lemma wr_same_off: "off + 4 \<le> length buf \<Longrightarrow> same_off (span off 4) buf (wr buf off v)"
  using same_off_put_bytes [of off "le_bytes 4 (unat v)" buf] by (simp add: wr_inside)

lemma rd_wr_other:
  assumes "off + 4 \<le> length buf" and "p + 4 \<le> length buf" and "span p 4 \<inter> span off 4 = {}"
  shows "rd (wr buf off v) p = rd buf p"
  using rd_same_off [OF wr_same_off [OF assms(1)] assms(3,2)] by simp

end

end
