(* ===== verification/Minidump_Patcher.thy ===== *)
theory Minidump_Patcher
  imports Elf_Build_Id Byte_Cells
begin

text \<open>
  \<^verbatim>\<open>daemon/minidump_patcher.cpp\<close>: giving the modules of a minidump that have no ELF build
  id the one Breakpad would compute from the module's file.

  Memory is explicit. A minidump is a vector of bytes and an access outside it is
  undefined; the module files are read in the theory \<open>Elf_Build_Id\<close>. Every function that reads or writes memory without a
  check of its own therefore returns an \<open>option\<close>, where \<open>None\<close> stands for an access
  outside the object. The operators of the sources keep their widths: a sum of two
  \<^verbatim>\<open>uint32_t\<close> is one of \<^typ>\<open>u32\<close>, converted to \<^verbatim>\<open>size_t\<close> (here \<^typ>\<open>nat\<close>, where
  no sum reaches 2^64) afterwards. The machine is little-endian.
\<close>

unbundle bit_operations_syntax

section \<open>Layout constants\<close>

definition kMdmpSignature :: u32 where "kMdmpSignature = 0x504D444D"
definition kModuleListStream :: u32 where "kModuleListStream = 4"
definition kBpElSignature :: u32 where "kBpElSignature = 0x4270454C"
definition kModuleSize :: nat where "kModuleSize = 108"
definition kModNameRvaOff :: nat where "kModNameRvaOff = 20"
definition kModCvDataSizeOff :: nat where "kModCvDataSizeOff = 76"
definition kModCvRvaOff :: nat where "kModCvRvaOff = 80"
definition kDirEntrySize :: nat where "kDirEntrySize = 12"

lemmas layout_defs = kModuleListStream_def kModuleSize_def kModNameRvaOff_def
  kModCvDataSizeOff_def kModCvRvaOff_def kDirEntrySize_def kXorHashSize_def kXorMaxBytes_def
  kNtGnuBuildId_def

section \<open>Buffer helpers\<close>

definition ReadU32 :: "bytes \<Rightarrow> nat \<Rightarrow> u32" where
  "ReadU32 buf off =
     (if off + 4 > length buf then 0 else word_of_nat (le_nat (sub_bytes off 4 buf)))"

definition WriteU32 :: "bytes \<Rightarrow> nat \<Rightarrow> u32 \<Rightarrow> bytes" where
  "WriteU32 buf off val =
     (if off + 4 > length buf then buf else put_bytes off (le_bytes 4 (unat val)) buf)"

text \<open>\<^verbatim>\<open>operator[]\<close> and \<^verbatim>\<open>memcpy\<close> on the vector.\<close>

definition buf_at :: "bytes \<Rightarrow> nat \<Rightarrow> u8 option" where
  "buf_at buf i = (if i < length buf then Some (buf ! i) else None)"

definition memcpy_to :: "bytes \<Rightarrow> nat \<Rightarrow> bytes \<Rightarrow> bytes option" where
  "memcpy_to buf off xs =
     (if off + length xs \<le> length buf then Some (put_bytes off xs buf) else None)"

text \<open>
  The decoding loop of the module name: \<open>pos\<close> is \<^verbatim>\<open>rva + 4 + i\<close>, a \<^verbatim>\<open>uint32_t\<close>, and
  \<open>n\<close> the number of code units left.
\<close>

fun ReadModuleName_loop :: "bytes \<Rightarrow> u32 \<Rightarrow> nat \<Rightarrow> string option" where
  "ReadModuleName_loop buf pos 0 = Some []"
| "ReadModuleName_loop buf pos (Suc n) =
     (case (buf_at buf (unat pos), buf_at buf (unat (pos + 1))) of
        (Some lo, Some hi) \<Rightarrow>
          (let ch = (ucast lo :: u32) OR push_bit 8 (ucast hi);
               path = (if ch < 128 \<and> ch \<noteq> 0 then [char_of_byte (ucast ch)] else []) in
           case ReadModuleName_loop buf (pos + 2) n of
             None \<Rightarrow> None
           | Some rest \<Rightarrow> Some (path @ rest))
      | _ \<Rightarrow> None)"

definition ReadModuleName :: "bytes \<Rightarrow> u32 \<Rightarrow> string option" where
  "ReadModuleName buf rva =
     (if rva = 0 \<or> unat (rva + 4) > length buf then Some []
      else let len = ReadU32 buf (unat rva) in
        if len = 0 \<or> len mod 2 \<noteq> 0 \<or> unat (rva + 4 + len) > length buf then Some []
        else ReadModuleName_loop buf (rva + 4) (unat len div 2))"

section \<open>Patching\<close>

text \<open>The search for the module list among the streams; 0 when there is none.\<close>

function find_module_stream :: "bytes \<Rightarrow> u32 \<Rightarrow> nat \<Rightarrow> nat \<Rightarrow> u32" where
  "find_module_stream buf dir_rva stream_count i =
     (if i < stream_count then
        (let entry_off = unat dir_rva + i * kDirEntrySize in
         if entry_off + kDirEntrySize > length buf then 0
         else if ReadU32 buf entry_off = kModuleListStream then ReadU32 buf (entry_off + 8)
         else find_module_stream buf dir_rva stream_count (Suc i))
      else 0)"
  by pat_completeness auto
termination
  by (relation "measure (\<lambda>(buf, rva, n, i). n - i)") auto

declare find_module_stream.simps [simp del]

text \<open>One module record: the buffer, and the path of the module if it was patched.\<close>

definition patch_module :: "world \<Rightarrow> bytes \<Rightarrow> nat \<Rightarrow> (bytes \<times> string option) option" where
  "patch_module w buf mod_off =
     (let name_rva = ReadU32 buf (mod_off + kModNameRvaOff);
          cv_size = ReadU32 buf (mod_off + kModCvDataSizeOff);
          cv_rva = ReadU32 buf (mod_off + kModCvRvaOff) in
      if cv_rva = 0 \<or> cv_size < 4 + word_of_nat kXorHashSize then Some (buf, None)
      else if unat (cv_rva + cv_size) > length buf then Some (buf, None)
      else if ReadU32 buf (unat cv_rva) = kBpElSignature then Some (buf, None)
      else case ReadModuleName buf name_rva of
        None \<Rightarrow> None
      | Some module_path \<Rightarrow>
          if module_path = [] then Some (buf, None)
          else case ComputeElfBuildId module_path w of
            None \<Rightarrow> None
          | Some build_id \<Rightarrow>
              if build_id = [] then Some (buf, None)
              else let new_cv_size = 4 + word_of_nat (length build_id) in
                if cv_size < new_cv_size then Some (buf, None)
                else case memcpy_to (WriteU32 buf (unat cv_rva) kBpElSignature)
                            (unat cv_rva + 4) build_id of
                  None \<Rightarrow> None
                | Some buf1 \<Rightarrow>
                    Some (WriteU32 buf1 (mod_off + kModCvDataSizeOff) new_cv_size, Some module_path))"

fun patch_modules :: "world \<Rightarrow> nat \<Rightarrow> nat list \<Rightarrow> bytes \<Rightarrow> (bytes \<times> string list) option" where
  "patch_modules w first [] buf = Some (buf, [])"
| "patch_modules w first (i # is) buf =
     (let mod_off = first + i * kModuleSize in
      if mod_off + kModuleSize > length buf then Some (buf, [])
      else case patch_module w buf mod_off of
        None \<Rightarrow> None
      | Some (buf1, p) \<Rightarrow>
          (case patch_modules w first is buf1 of
             None \<Rightarrow> None
           | Some (buf2, ps) \<Rightarrow> Some (buf2, (case p of None \<Rightarrow> ps | Some q \<Rightarrow> q # ps))))"

text \<open>The work on the buffer: \<open>patch_buffer\<close> is everything between reading and writing.\<close>

definition patch_buffer :: "world \<Rightarrow> bytes \<Rightarrow> (bytes \<times> string list) option" where
  "patch_buffer w buf =
     (let module_stream_rva =
            find_module_stream buf (ReadU32 buf 12) (unat (ReadU32 buf 8)) 0 in
      if module_stream_rva = 0 \<or> unat (module_stream_rva + 4) > length buf then Some (buf, [])
      else let module_count = ReadU32 buf (unat module_stream_rva) in
        if module_count > 4096 then Some (buf, [])
        else patch_modules w (unat (module_stream_rva + 4)) [0..<unat module_count] buf)"

definition PatchMissingBuildIds :: "string \<Rightarrow> world \<Rightarrow> (status \<times> world) option" where
  "PatchMissingBuildIds path w =
     (if \<not> can_open path w
      then Some (Inl (Error InternalError (''cannot open minidump: '' @ path) 0), w)
      else case read_file path w of
        None \<Rightarrow> Some (Inl (Error InternalError (''read failed: '' @ path) 0), w)
      | Some buf \<Rightarrow>
          if length buf < 32 \<or> ReadU32 buf 0 \<noteq> kMdmpSignature
          then Some (Inl (Error InvalidArgumentError (''not a minidump: '' @ path) 0), w)
          else case patch_buffer w buf of
            None \<Rightarrow> None
          | Some (buf1, patched) \<Rightarrow>
              (let w1 = foldl (\<lambda>w p. log_to (PatchedModule p) w) w patched in
               if patched = [] then Some (OkStatus, w1)
               else (case ofstream_write path buf1 w1 of
                 (Inl (OpenFails e), w2) \<Rightarrow>
                   Some (Inl (Error InternalError (''write failed: '' @ path) 0), w2)
               | (Inl (ShortWrite n), w2) \<Rightarrow>
                   Some (Inl (Error InternalError (''flush failed: '' @ path) 0), w2)
               | (Inr _, w2) \<Rightarrow> Some (OkStatus, w2))))"

section \<open>Cells of the minidump\<close>

interpretation cells: u32_store ReadU32 WriteU32
  by unfold_locales (simp_all add: ReadU32_def WriteU32_def)

lemma ReadU32_outside: "length buf < off + 4 \<Longrightarrow> ReadU32 buf off = 0"
  by (simp add: ReadU32_def)

section \<open>Module names\<close>

lemma buf_at_same: "same_off T a b \<Longrightarrow> k \<notin> T \<Longrightarrow> buf_at a k = buf_at b k"
  by (auto simp: buf_at_def same_off_def)

lemma unat_u32_step:
  assumes "unat (p :: u32) + 2 * Suc n \<le> l" and "l < 2 ^ 32"
  shows "unat (p + 1) = unat p + 1" and "unat (p + 2) = unat p + 2"
  using unat_u32_add [of p 1 l] unat_u32_add [of p 2 l] assms by simp_all

lemma ReadModuleName_loop_inside:
  assumes "unat pos + 2 * n \<le> length buf" and "length buf < 2 ^ 32"
  shows "ReadModuleName_loop buf pos n \<noteq> None"
  using assms
proof (induction n arbitrary: pos)
  case (Suc n)
  note step = unat_u32_step [OF Suc.prems]
  have "ReadModuleName_loop buf (pos + 2) n \<noteq> None"
    using Suc.prems step by (intro Suc.IH) simp_all
  then show ?case using Suc.prems step by (auto simp: buf_at_def Let_def)
qed simp

lemma ReadModuleName_loop_same:
  assumes "same_off T a b" and "span (unat pos) (2 * n) \<inter> T = {}"
    and "unat pos + 2 * n \<le> length a" and "length a < 2 ^ 32"
  shows "ReadModuleName_loop a pos n = ReadModuleName_loop b pos n"
  using assms(2-)
proof (induction n arbitrary: pos)
  case (Suc n)
  note step = unat_u32_step [OF Suc.prems(2,3)]
  have "unat pos \<notin> T" "unat pos + 1 \<notin> T" using span_disjointD [OF Suc.prems(1)] by simp_all
  moreover have "ReadModuleName_loop a (pos + 2) n = ReadModuleName_loop b (pos + 2) n"
    using Suc.prems step by (intro Suc.IH span_disjoint_mono [OF Suc.prems(1)]) simp_all
  moreover from calculation have "buf_at a (unat pos) = buf_at b (unat pos)"
    "buf_at a (unat pos + 1) = buf_at b (unat pos + 1)"
    using buf_at_same [OF assms(1)] by blast+
  ultimately show ?case using step by (simp only: ReadModuleName_loop.simps)
qed simp

text \<open>The bytes of a module name: the length word and the code units after it.\<close>

definition name_len :: "bytes \<Rightarrow> u32 \<Rightarrow> nat" where
  "name_len buf rva = (if rva = 0 then 0 else 4 + unat (ReadU32 buf (unat rva)))"

lemma name_sums:
  assumes "rva \<noteq> 0" and "unat rva + name_len buf rva \<le> length buf" and "length buf < 2 ^ 32"
  shows "unat (rva + 4) = unat rva + 4"
    and "unat (rva + 4 + ReadU32 buf (unat rva)) = unat rva + name_len buf rva"
proof -
  show r4: "unat (rva + 4) = unat rva + 4"
    using assms unat_u32_add [of rva 4 "length buf"] by (simp add: name_len_def)
  show "unat (rva + 4 + ReadU32 buf (unat rva)) = unat rva + name_len buf rva"
    using assms r4 by (subst unat_add_no_wrap) (simp_all add: name_len_def)
qed

lemma ReadModuleName_inside:
  assumes "unat rva + name_len buf rva \<le> length buf" and "length buf < 2 ^ 32"
  shows "ReadModuleName buf rva \<noteq> None"
proof (cases "rva = 0")
  case False
  note sums = name_sums [OF False assms]
  have "ReadModuleName_loop buf (rva + 4) (unat (ReadU32 buf (unat rva)) div 2) \<noteq> None"
    using assms sums False by (intro ReadModuleName_loop_inside) (simp_all add: name_len_def)
  then show ?thesis by (simp add: ReadModuleName_def Let_def)
qed (simp add: ReadModuleName_def)

lemma ReadModuleName_same:
  assumes "same_off T a b" and "unat rva + name_len a rva \<le> length a" and "length a < 2 ^ 32"
    and "span (unat rva) (name_len a rva) \<inter> T = {}"
  shows "ReadModuleName a rva = ReadModuleName b rva"
proof (cases "rva = 0")
  case False
  note sums = name_sums [OF False assms(2,3)]
  have "span (unat rva) 4 \<inter> T = {}"
    using False by (intro span_disjoint_mono [OF assms(4)]) (simp_all add: name_len_def)
  moreover have "unat rva + 4 \<le> length a" using assms(2) False by (simp add: name_len_def)
  ultimately have len: "ReadU32 b (unat rva) = ReadU32 a (unat rva)"
    using cells.rd_same_off [OF assms(1)] by simp
  have "ReadModuleName_loop a (rva + 4) (unat (ReadU32 a (unat rva)) div 2)
      = ReadModuleName_loop b (rva + 4) (unat (ReadU32 a (unat rva)) div 2)"
    using assms sums False
    by (intro ReadModuleName_loop_same [OF assms(1)] span_disjoint_mono [OF assms(4)])
      (simp_all add: name_len_def)
  then show ?thesis
    using same_off_length [OF assms(1)] by (simp add: ReadModuleName_def len Let_def)
qed (simp add: ReadModuleName_def)

section \<open>Modules are patched independently\<close>

text \<open>
  What \<^const>\<open>patch_module\<close> decides for the module record at \<open>mod_off\<close>, before it
  writes: nothing (\<open>Some None\<close>), or the place of the record, its build id and the path.
\<close>

definition module_plan :: "world \<Rightarrow> bytes \<Rightarrow> nat \<Rightarrow> (u32 \<times> bytes \<times> string) option option" where
  "module_plan w buf mod_off =
     (let cv_size = ReadU32 buf (mod_off + kModCvDataSizeOff);
          cv_rva = ReadU32 buf (mod_off + kModCvRvaOff) in
      if cv_rva = 0 \<or> cv_size < 4 + word_of_nat kXorHashSize \<or>
         unat (cv_rva + cv_size) > length buf \<or> ReadU32 buf (unat cv_rva) = kBpElSignature
      then Some None
      else case ReadModuleName buf (ReadU32 buf (mod_off + kModNameRvaOff)) of
        None \<Rightarrow> None
      | Some path \<Rightarrow>
          if path = [] then Some None
          else (case ComputeElfBuildId path w of
            None \<Rightarrow> None
          | Some bid \<Rightarrow>
              if bid = [] \<or> cv_size < 4 + word_of_nat (length bid) then Some None
              else Some (Some (cv_rva, bid, path))))"

definition apply_plan :: "bytes \<Rightarrow> nat \<Rightarrow> u32 \<Rightarrow> bytes \<Rightarrow> bytes" where
  "apply_plan buf mod_off cv_rva bid =
     WriteU32 (put_bytes (unat cv_rva + 4) bid (WriteU32 buf (unat cv_rva) kBpElSignature))
       (mod_off + kModCvDataSizeOff) (4 + word_of_nat (length bid))"

lemma patch_module_plan:
  "patch_module w buf mod_off =
     (case module_plan w buf mod_off of
        None \<Rightarrow> None
      | Some None \<Rightarrow> Some (buf, None)
      | Some (Some (cv_rva, bid, path)) \<Rightarrow>
          if unat cv_rva + 4 + length bid \<le> length (WriteU32 buf (unat cv_rva) kBpElSignature)
          then Some (apply_plan buf mod_off cv_rva bid, Some path) else None)"
  unfolding patch_module_def module_plan_def Let_def
  by (auto simp: apply_plan_def memcpy_to_def split: option.split)

text \<open>
  The places a module record refers to: \<^verbatim>\<open>CvRecord\<close> (empty when its address is 0) and the
  module name. In a buffer that is laid out well they lie inside it, and what the patcher
  writes (a CodeView record) overlaps neither the module list, nor a name, nor another
  CodeView record.
\<close>

definition cv_span :: "bytes \<Rightarrow> nat \<Rightarrow> nat set" where
  "cv_span buf mod_off =
     (let cv_rva = ReadU32 buf (mod_off + kModCvRvaOff) in
      span (unat cv_rva) (if cv_rva = 0 then 0 else unat (ReadU32 buf (mod_off + kModCvDataSizeOff))))"

definition name_span :: "bytes \<Rightarrow> nat \<Rightarrow> nat set" where
  "name_span buf mod_off =
     (let rva = ReadU32 buf (mod_off + kModNameRvaOff) in span (unat rva) (name_len buf rva))"

definition mod_at :: "nat \<Rightarrow> nat \<Rightarrow> nat" where
  "mod_at first i = first + i * kModuleSize"

definition well_laid_out :: "bytes \<Rightarrow> nat \<Rightarrow> nat \<Rightarrow> bool" where
  "well_laid_out buf first n =
     (length buf < 2 ^ 32 \<and> first + n * kModuleSize \<le> length buf \<and>
      (\<forall>i<n. cv_span buf (mod_at first i) \<subseteq> {..<length buf} \<and>
         name_span buf (mod_at first i) \<subseteq> {..<length buf} \<and>
         cv_span buf (mod_at first i) \<inter> span first (n * kModuleSize) = {} \<and>
         (\<forall>j<n. cv_span buf (mod_at first i) \<inter> name_span buf (mod_at first j) = {} \<and>
            span first (n * kModuleSize) \<inter> name_span buf (mod_at first j) = {} \<and>
            (i \<noteq> j \<longrightarrow> cv_span buf (mod_at first i) \<inter> cv_span buf (mod_at first j) = {}))))"

text \<open>The bytes the patches of the first \<open>k\<close> modules may change.\<close>

definition touched :: "bytes \<Rightarrow> nat \<Rightarrow> nat \<Rightarrow> nat set" where
  "touched buf first k =
     (\<Union>i<k. cv_span buf (mod_at first i) \<union> span (mod_at first i + kModCvDataSizeOff) 4)"


lemma mod_region:
  assumes "i < n"
  shows "span (mod_at first i) kModuleSize \<subseteq> span first (n * kModuleSize)"
proof -
  have "(i + 1) * kModuleSize \<le> n * kModuleSize" using assms by (intro mult_le_mono1) simp
  then show ?thesis by (auto simp: span_def mod_at_def)
qed

lemma mod_inside:
  assumes "well_laid_out buf first n" and "i < n"
  shows "mod_at first i + kModuleSize \<le> length buf"
proof -
  have "(i + 1) * kModuleSize \<le> n * kModuleSize" using assms(2) by (intro mult_le_mono1) simp
  then show ?thesis using assms(1) by (simp add: well_laid_out_def mod_at_def)
qed

text \<open>The size words of other modules, and all other fields, are untouched before module \<open>k\<close>.\<close>

lemma size_cells_apart:
  "i \<noteq> k \<Longrightarrow> span (mod_at first i + kModCvDataSizeOff) 4 \<inter> span (mod_at first k) kModuleSize = {}"
proof -
  assume "i \<noteq> k"
  then have "i * kModuleSize + kModuleSize \<le> k * kModuleSize \<or> k * kModuleSize + kModuleSize \<le> i * kModuleSize"
  proof (cases "i < k")
    case True
    then show ?thesis using mult_le_mono1 [of "Suc i" k kModuleSize] by simp
  next
    case False
    then show ?thesis using \<open>i \<noteq> k\<close> mult_le_mono1 [of "Suc k" i kModuleSize] by simp
  qed
  then show ?thesis by (auto simp: span_def disjoint_iff mod_at_def layout_defs)
qed

lemma UN_apart:
  "(\<And>i. i < k \<Longrightarrow> A i \<inter> C = {} \<and> B i \<inter> C = {}) \<Longrightarrow> (\<Union>i<k::nat. A i \<union> B i) \<inter> C = {}"
  by auto

lemma touched_apart:
  assumes "well_laid_out buf first n" and "k < n"
  shows "touched buf first k \<inter> span (mod_at first k) kModuleSize = {}"
    and "touched buf first k \<inter> cv_span buf (mod_at first k) = {}"
    and "touched buf first k \<inter> name_span buf (mod_at first k) = {}"
proof -
  have i: "cv_span buf (mod_at first i) \<inter> span first (n * kModuleSize) = {}"
    "cv_span buf (mod_at first k) \<inter> span first (n * kModuleSize) = {}"
    "cv_span buf (mod_at first i) \<inter> name_span buf (mod_at first k) = {}"
    "span first (n * kModuleSize) \<inter> name_span buf (mod_at first k) = {}"
    "cv_span buf (mod_at first i) \<inter> cv_span buf (mod_at first k) = {}" if "i < k" for i
    using assms that unfolding well_laid_out_def by auto
  have cell: "span (mod_at first i + kModCvDataSizeOff) 4 \<subseteq> span first (n * kModuleSize)" if "i < k" for i
    using mod_region [of i n first] that assms(2) by (auto simp: span_def layout_defs)
  show "touched buf first k \<inter> span (mod_at first k) kModuleSize = {}"
    unfolding touched_def
  proof (intro UN_apart conjI)
    fix i assume "i < k"
    then show "cv_span buf (mod_at first i) \<inter> span (mod_at first k) kModuleSize = {}"
      using i(1) mod_region [OF assms(2), of first] by blast
    show "span (mod_at first i + kModCvDataSizeOff) 4 \<inter> span (mod_at first k) kModuleSize = {}"
      using \<open>i < k\<close> by (intro size_cells_apart) simp
  qed
  show "touched buf first k \<inter> cv_span buf (mod_at first k) = {}"
    unfolding touched_def
  proof (intro UN_apart conjI)
    fix i assume "i < k"
    then show "cv_span buf (mod_at first i) \<inter> cv_span buf (mod_at first k) = {}" by (rule i(5))
    show "span (mod_at first i + kModCvDataSizeOff) 4 \<inter> cv_span buf (mod_at first k) = {}"
      using i(2) cell \<open>i < k\<close> by blast
  qed
  show "touched buf first k \<inter> name_span buf (mod_at first k) = {}"
    unfolding touched_def
  proof (intro UN_apart conjI)
    fix i assume "i < k"
    then show "cv_span buf (mod_at first i) \<inter> name_span buf (mod_at first k) = {}" by (rule i(3))
    show "span (mod_at first i + kModCvDataSizeOff) 4 \<inter> name_span buf (mod_at first k) = {}"
      using i(4) cell \<open>i < k\<close> by blast
  qed
qed


lemma field_same:
  assumes "well_laid_out buf first n" and "k < n" and "same_off (touched buf first k) buf b"
    and "off + 4 \<le> kModuleSize"
  shows "ReadU32 b (mod_at first k + off) = ReadU32 buf (mod_at first k + off)"
proof (rule sym, rule cells.rd_same_off [OF assms(3)])
  have "span (mod_at first k) kModuleSize \<inter> touched buf first k = {}"
    using touched_apart(1) [OF assms(1,2)] by (simp only: Int_commute)
  then show "span (mod_at first k + off) 4 \<inter> touched buf first k = {}"
    by (rule span_disjoint_mono) (use assms(4) in simp_all)
  show "mod_at first k + off + 4 \<le> length buf"
    using mod_inside [OF assms(1,2)] assms(4) by simp
qed

lemma cv_inside:
  assumes "well_laid_out buf first n" and "k < n" and "ReadU32 buf (mod_at first k + kModCvRvaOff) \<noteq> 0"
    and "4 \<le> unat (ReadU32 buf (mod_at first k + kModCvDataSizeOff))"
  shows "unat (ReadU32 buf (mod_at first k + kModCvRvaOff)) +
    unat (ReadU32 buf (mod_at first k + kModCvDataSizeOff)) \<le> length buf"
proof -
  let ?r = "ReadU32 buf (mod_at first k + kModCvRvaOff)"
  let ?z = "ReadU32 buf (mod_at first k + kModCvDataSizeOff)"
  have "unat ?r + unat ?z - 1 \<in> cv_span buf (mod_at first k)"
    using assms(3,4) by (simp add: cv_span_def span_def Let_def)
  then have "unat ?r + unat ?z - 1 < length buf"
    using assms(1,2) unfolding well_laid_out_def by blast
  then show ?thesis using assms(4) by linarith
qed

lemma name_inside:
  assumes "well_laid_out buf first n" and "k < n"
  defines "r \<equiv> ReadU32 buf (mod_at first k + kModNameRvaOff)"
  shows "r = 0 \<or> unat r + name_len buf r \<le> length buf"
proof (cases "r = 0")
  case False
  then have "unat r + name_len buf r - 1 \<in> name_span buf (mod_at first k)"
    by (simp add: name_span_def span_def name_len_def flip: r_def)
  then have "unat r + name_len buf r - 1 < length buf"
    using assms(1,2) unfolding well_laid_out_def by blast
  then show ?thesis using False by (simp add: name_len_def)
qed simp

lemma name_same:
  assumes "well_laid_out buf first n" and "k < n" and "same_off (touched buf first k) buf b"
  defines "r \<equiv> ReadU32 buf (mod_at first k + kModNameRvaOff)"
  shows "ReadModuleName b r = ReadModuleName buf r" and "ReadModuleName buf r \<noteq> None"
proof -
  have len: "length buf < 2 ^ 32" using assms(1) by (simp add: well_laid_out_def)
  have apart: "span (unat r) (name_len buf r) \<inter> touched buf first k = {}"
    using touched_apart(3) [OF assms(1,2)] by (simp add: name_span_def Int_commute flip: r_def)
  consider "r = 0" | "r \<noteq> 0" "unat r + name_len buf r \<le> length buf"
    using name_inside [OF assms(1,2)] by (auto simp: r_def)
  then have "ReadModuleName b r = ReadModuleName buf r \<and> ReadModuleName buf r \<noteq> None"
  proof cases
    case 2
    then show ?thesis
      using ReadModuleName_same [OF assms(3) 2(2) len apart] ReadModuleName_inside [OF 2(2) len] by simp
  qed (simp add: ReadModuleName_def)
  then show "ReadModuleName b r = ReadModuleName buf r" "ReadModuleName buf r \<noteq> None" by simp_all
qed

lemma module_plan_same:
  assumes "well_laid_out buf first n" and "k < n" and "same_off (touched buf first k) buf b"
  shows "module_plan w b (mod_at first k) = module_plan w buf (mod_at first k)"
proof -
  let ?m = "mod_at first k"
  have f: "ReadU32 b (?m + kModNameRvaOff) = ReadU32 buf (?m + kModNameRvaOff)"
    "ReadU32 b (?m + kModCvDataSizeOff) = ReadU32 buf (?m + kModCvDataSizeOff)"
    "ReadU32 b (?m + kModCvRvaOff) = ReadU32 buf (?m + kModCvRvaOff)"
    using assms by (intro field_same; simp add: layout_defs)+
  have len: "length b = length buf" using same_off_length [OF assms(3)] by simp
  have sig: "ReadU32 b (unat (ReadU32 buf (?m + kModCvRvaOff))) = ReadU32 buf (unat (ReadU32 buf (?m + kModCvRvaOff)))"
    if "ReadU32 buf (?m + kModCvRvaOff) \<noteq> 0"
      and "\<not> ReadU32 buf (?m + kModCvDataSizeOff) < 4 + word_of_nat kXorHashSize"
  proof (rule sym, rule cells.rd_same_off [OF assms(3)])
    have four: "20 \<le> unat (ReadU32 buf (?m + kModCvDataSizeOff))"
      using that(2) by (simp add: layout_defs word_less_nat_alt)
    then show "unat (ReadU32 buf (?m + kModCvRvaOff)) + 4 \<le> length buf"
      using cv_inside [OF assms(1,2) that(1)] by linarith
    have "span (unat (ReadU32 buf (?m + kModCvRvaOff))) (unat (ReadU32 buf (?m + kModCvDataSizeOff)))
        \<inter> touched buf first k = {}"
      using touched_apart(2) [OF assms(1,2)] that(1) by (simp add: cv_span_def Int_commute Let_def)
    then show "span (unat (ReadU32 buf (?m + kModCvRvaOff))) 4 \<inter> touched buf first k = {}"
      by (rule span_disjoint_mono) (use four in simp_all)
  qed
  show ?thesis
    unfolding module_plan_def Let_def f len name_same(1) [OF assms] 
    by (intro if_cong disj_cong refl) (simp only: sig not_False_eq_True)
qed


text \<open>What reading the module files may do: answer, with an id of less than 4 GiB.\<close>

definition elf_files_ok :: "world \<Rightarrow> bool" where
  "elf_files_ok w =
     (\<forall>p. case ComputeElfBuildId p w of None \<Rightarrow> False | Some bid \<Rightarrow> length bid < 2 ^ 32 - 4)"

lemma plan_exists:
  assumes "well_laid_out buf first n" and "k < n" and "elf_files_ok w"
  shows "module_plan w buf (mod_at first k) \<noteq> None"
proof -
  have c: "ComputeElfBuildId p w \<noteq> None" for p
    using assms(3) by (auto simp: elf_files_ok_def split: option.splits dest: spec [of _ p])
  then show ?thesis
    using name_same(2) [OF assms(1,2) same_off_refl]
    by (simp add: module_plan_def Let_def c split: option.split) (use c in fastforce)
qed

lemma plan_facts:
  assumes "well_laid_out buf first n" and "k < n" and "elf_files_ok w"
    and "module_plan w buf (mod_at first k) = Some (Some (rva, bid, path))"
  shows "rva = ReadU32 buf (mod_at first k + kModCvRvaOff)" and "rva \<noteq> 0"
    and "4 + length bid \<le> unat (ReadU32 buf (mod_at first k + kModCvDataSizeOff))"
    and "unat rva + 4 + length bid \<le> length buf"
    and "span (unat rva) (4 + length bid) \<subseteq> cv_span buf (mod_at first k)"
proof -
  let ?z = "ReadU32 buf (mod_at first k + kModCvDataSizeOff)"
  have f: "rva = ReadU32 buf (mod_at first k + kModCvRvaOff)" "rva \<noteq> 0"
    "4 + word_of_nat (length bid) \<le> ?z" "ComputeElfBuildId path w = Some bid"
    using assms(4) by (auto simp: module_plan_def Let_def not_less split: if_splits option.splits)
  then show "rva = ReadU32 buf (mod_at first k + kModCvRvaOff)" "rva \<noteq> 0" by simp_all
  have "case ComputeElfBuildId path w of None \<Rightarrow> False | Some bid \<Rightarrow> length bid < 2 ^ 32 - 4"
    using assms(3) by (simp only: elf_files_ok_def)
  then have "length bid < 2 ^ 32 - 4" by (simp add: f(4))
  then have "unat (4 + word_of_nat (length bid) :: u32) = 4 + length bid"
    by (subst unat_add_no_wrap) (simp_all add: unat_of_nat_small)
  then show z: "4 + length bid \<le> unat ?z" using f(3) by (simp only: word_le_nat_alt)
  have "unat rva + unat ?z \<le> length buf"
    using cv_inside [OF assms(1,2)] f(1,2) z by simp
  then show "unat rva + 4 + length bid \<le> length buf" using z by linarith
  have "cv_span buf (mod_at first k) = span (unat rva) (unat ?z)"
    using f(1,2) by (simp add: cv_span_def Let_def)
  then show "span (unat rva) (4 + length bid) \<subseteq> cv_span buf (mod_at first k)"
    using z by (auto simp: span_def)
qed

text \<open>
  The outcome for a module: the record, size word and build id the plan asks for, or not a
  byte changed in the module record and its CodeView record.
\<close>

definition module_outcome :: "world \<Rightarrow> bytes \<Rightarrow> bytes \<Rightarrow> nat \<Rightarrow> bool" where
  "module_outcome w buf buf' mod_off =
     (case module_plan w buf mod_off of
        Some (Some (cv_rva, bid, path)) \<Rightarrow>
          ReadU32 buf' (unat cv_rva) = kBpElSignature \<and>
          sub_bytes (unat cv_rva + 4) (length bid) buf' = bid \<and>
          ReadU32 buf' (mod_off + kModCvDataSizeOff) = 4 + word_of_nat (length bid)
      | _ \<Rightarrow> same_off (- (span mod_off kModuleSize \<union> cv_span buf mod_off)) buf buf')"

lemma apply_plan_spec:
  assumes "unat rva + 4 + length bid \<le> length b" and "m + kModuleSize \<le> length b"
    and "span (unat rva) (4 + length bid) \<inter> span (m + kModCvDataSizeOff) 4 = {}"
  shows "same_off (span (unat rva) (4 + length bid) \<union> span (m + kModCvDataSizeOff) 4) b (apply_plan b m rva bid)"
    and "ReadU32 (apply_plan b m rva bid) (unat rva) = kBpElSignature"
    and "sub_bytes (unat rva + 4) (length bid) (apply_plan b m rva bid) = bid"
    and "ReadU32 (apply_plan b m rva bid) (m + kModCvDataSizeOff) = 4 + word_of_nat (length bid)"
proof -
  define b1 where "b1 = WriteU32 b (unat rva) kBpElSignature"
  define b2 where "b2 = put_bytes (unat rva + 4) bid b1"
  define b3 where "b3 = WriteU32 b2 (m + kModCvDataSizeOff) (4 + word_of_nat (length bid))"
  have b3: "apply_plan b m rva bid = b3" by (simp add: apply_plan_def b1_def b2_def b3_def)
  have l1: "length b1 = length b" using assms(1) by (simp add: b1_def cells.length_wr)
  have l2: "length b2 = length b" using assms(1) l1 by (simp add: b2_def length_put_bytes)
  have in2: "m + kModCvDataSizeOff + 4 \<le> length b2" using assms(2) l2 by (simp add: layout_defs)
  have s1: "same_off (span (unat rva) 4) b b1"
    using assms(1) by (simp add: b1_def cells.wr_same_off)
  have s2: "same_off (span (unat rva + 4) (length bid)) b1 b2"
    using assms(1) l1 by (simp add: b2_def same_off_put_bytes)
  have s3: "same_off (span (m + kModCvDataSizeOff) 4) b2 b3"
    using in2 by (simp add: b3_def cells.wr_same_off)
  have "span (unat rva) 4 \<union> span (unat rva + 4) (length bid) = span (unat rva) (4 + length bid)"
    by (auto simp: span_def)
  then show "same_off (span (unat rva) (4 + length bid) \<union> span (m + kModCvDataSizeOff) 4) b (apply_plan b m rva bid)"
    using same_off_trans [OF same_off_trans [OF s1 s2] s3] by (simp only: b3)
  have "ReadU32 b2 (unat rva) = kBpElSignature"
    using cells.rd_same_off [OF s2, of "unat rva"] assms(1) l1
    by (simp add: span_def b1_def cells.rd_wr_same)
  moreover have "span (unat rva) 4 \<inter> span (m + kModCvDataSizeOff) 4 = {}"
    by (rule span_disjoint_mono [OF assms(3)]) simp_all
  ultimately show "ReadU32 (apply_plan b m rva bid) (unat rva) = kBpElSignature"
    using cells.rd_same_off [OF s3, of "unat rva"] assms(1) l2 by (simp add: b3)
  have "span (unat rva + 4) (length bid) \<inter> span (m + kModCvDataSizeOff) 4 = {}"
    by (rule span_disjoint_mono [OF assms(3)]) simp_all
  then show "sub_bytes (unat rva + 4) (length bid) (apply_plan b m rva bid) = bid"
    using same_off_sub_bytes [OF s3, of "unat rva + 4" "length bid", symmetric] assms(1) l1
    by (simp only: b3) (simp add: b2_def sub_put_same)
  show "ReadU32 (apply_plan b m rva bid) (m + kModCvDataSizeOff) = 4 + word_of_nat (length bid)"
    using in2 by (simp add: b3 b3_def cells.rd_wr_same)
qed


lemma touched_Suc: "touched buf first (Suc k) =
    touched buf first k \<union> (cv_span buf (mod_at first k) \<union> span (mod_at first k + kModCvDataSizeOff) 4)"
  by (auto simp: touched_def lessThan_Suc)

text \<open>One step: module \<open>k\<close> gets its outcome, and nothing outside its own bytes changes.\<close>

lemma patch_module_step:
  assumes "well_laid_out buf first n" and "k < n" and "elf_files_ok w"
    and "same_off (touched buf first k) buf b"
  shows "\<exists>b' p. patch_module w b (mod_at first k) = Some (b', p) \<and>
    same_off (cv_span buf (mod_at first k) \<union> span (mod_at first k + kModCvDataSizeOff) 4) b b' \<and>
    module_outcome w buf b' (mod_at first k)"
proof -
  let ?m = "mod_at first k"
  have len: "length b = length buf" using same_off_length [OF assms(4)] by simp
  have own: "(span ?m kModuleSize \<union> cv_span buf ?m) \<inter> touched buf first k = {}"
    using touched_apart(1,2) [OF assms(1,2)] by blast
  obtain q where q: "module_plan w buf ?m = Some q" using plan_exists [OF assms(1-3)] by blast
  have pm: "module_plan w b ?m = Some q" using module_plan_same [OF assms(1,2,4)] q by simp
  show ?thesis
  proof (cases q)
    case None
    then have "patch_module w b ?m = Some (b, None)" using pm by (simp add: patch_module_plan)
    moreover have "touched buf first k \<subseteq> - (span ?m kModuleSize \<union> cv_span buf ?m)"
      using own by blast
    then have "module_outcome w buf b ?m"
      using q None same_off_mono [OF assms(4)] by (simp only: module_outcome_def option.case)
    ultimately show ?thesis by auto
  next
    case (Some t)
    obtain rva bid path where t: "t = (rva, bid, path)" by (cases t)
    note f = plan_facts [OF assms(1-3), of rva bid path]
    have plan: "module_plan w buf ?m = Some (Some (rva, bid, path))" using q Some t by simp
    have fits: "unat rva + 4 + length bid \<le> length b" using f(4) [OF plan] len by simp
    have cell: "span (?m + kModCvDataSizeOff) 4 \<subseteq> span first (n * kModuleSize)"
      using mod_region [OF assms(2), of first] by (auto simp: span_def layout_defs)
    have "cv_span buf ?m \<inter> span first (n * kModuleSize) = {}"
      using assms(1,2) unfolding well_laid_out_def by blast
    then have apart: "span (unat rva) (4 + length bid) \<inter> span (?m + kModCvDataSizeOff) 4 = {}"
      using f(5) [OF plan] cell by blast
    have m: "?m + kModuleSize \<le> length b" using mod_inside [OF assms(1,2)] len by simp
    note ap = apply_plan_spec [OF fits m apart]
    have "length (WriteU32 b (unat rva) kBpElSignature) = length b"
      using fits by (simp add: cells.length_wr)
    then have "patch_module w b ?m = Some (apply_plan b ?m rva bid, Some path)"
      using pm Some t fits by (simp add: patch_module_plan)
    moreover have "same_off (cv_span buf ?m \<union> span (?m + kModCvDataSizeOff) 4) b (apply_plan b ?m rva bid)"
      using ap(1) by (rule same_off_mono) (use f(5) [OF plan] in blast)
    moreover have "module_outcome w buf (apply_plan b ?m rva bid) ?m"
      using plan ap(2-4) by (simp add: module_outcome_def)
    ultimately show ?thesis by blast
  qed
qed

text \<open>The step does not disturb the outcomes of the modules before it.\<close>

lemma module_outcome_keeps:
  assumes "well_laid_out buf first n" and "k < n" and "i < k" and "elf_files_ok w"
    and "module_outcome w buf b (mod_at first i)"
    and "same_off (cv_span buf (mod_at first k) \<union> span (mod_at first k + kModCvDataSizeOff) 4) b b'"
    and "length b = length buf"
  shows "module_outcome w buf b' (mod_at first i)"
proof -
  let ?T = "cv_span buf (mod_at first k) \<union> span (mod_at first k + kModCvDataSizeOff) 4"
  have i: "i < n" using assms(2,3) by simp
  have lay: "cv_span buf (mod_at first i) \<inter> span first (n * kModuleSize) = {}"
    "cv_span buf (mod_at first k) \<inter> span first (n * kModuleSize) = {}"
    "cv_span buf (mod_at first i) \<inter> cv_span buf (mod_at first k) = {}"
    using assms(1-3) i unfolding well_laid_out_def by (blast, blast, metis less_irrefl)
  have cell: "span (mod_at first k + kModCvDataSizeOff) 4 \<subseteq> span first (n * kModuleSize)"
    using mod_region [OF assms(2), of first] by (auto simp: span_def layout_defs)
  have c1: "cv_span buf (mod_at first i) \<inter> ?T = {}" using lay cell by blast
  have c2: "span (mod_at first i) kModuleSize \<inter> ?T = {}"
    using lay(2) mod_region [OF i, of first] size_cells_apart [of k i first] assms(3) by blast
  obtain q where q: "module_plan w buf (mod_at first i) = Some q"
    using plan_exists [OF assms(1) i assms(4)] by blast
  show ?thesis
  proof (cases q)
    case None
    then have "same_off (- (span (mod_at first i) kModuleSize \<union> cv_span buf (mod_at first i))) buf b"
      using assms(5) q by (simp add: module_outcome_def)
    then have "same_off (- (span (mod_at first i) kModuleSize \<union> cv_span buf (mod_at first i))) buf b'"
      using assms(6) c1 c2 unfolding same_off_def by (metis ComplI UnE disjoint_iff)
    then show ?thesis using q None by (simp add: module_outcome_def)
  next
    case (Some t)
    obtain rva bid path where t: "t = (rva, bid, path)" by (cases t)
    have plan: "module_plan w buf (mod_at first i) = Some (Some (rva, bid, path))" using q Some t by simp
    note f = plan_facts [OF assms(1) i assms(4) plan]
    have out: "ReadU32 b (unat rva) = kBpElSignature" "sub_bytes (unat rva + 4) (length bid) b = bid"
      "ReadU32 b (mod_at first i + kModCvDataSizeOff) = 4 + word_of_nat (length bid)"
      using assms(5) plan by (simp_all add: module_outcome_def)
    have apart: "span (unat rva) (4 + length bid) \<inter> ?T = {}" using f(5) c1 by blast
    have "span (unat rva) 4 \<inter> ?T = {}" by (rule span_disjoint_mono [OF apart]) simp_all
    then have "ReadU32 b' (unat rva) = kBpElSignature"
      using cells.rd_same_off [OF assms(6), of "unat rva"] out(1) f(4) assms(7) by simp
    moreover have "span (unat rva + 4) (length bid) \<inter> ?T = {}"
      by (rule span_disjoint_mono [OF apart]) simp_all
    then have "sub_bytes (unat rva + 4) (length bid) b' = bid"
      using same_off_sub_bytes [OF assms(6)] out(2) by simp
    moreover have "span (mod_at first i + kModCvDataSizeOff) 4 \<inter> ?T = {}"
      by (rule span_disjoint_mono [OF c2]) (simp_all add: layout_defs)
    then have "ReadU32 b' (mod_at first i + kModCvDataSizeOff) = 4 + word_of_nat (length bid)"
      using cells.rd_same_off [OF assms(6), of "mod_at first i + kModCvDataSizeOff"] out(3)
        mod_inside [OF assms(1) i] assms(7) by (simp add: layout_defs)
    ultimately show ?thesis using plan by (simp add: module_outcome_def)
  qed
qed

lemma patch_modules_from:
  assumes "well_laid_out buf first n" and "elf_files_ok w" and "k \<le> n"
    and "same_off (touched buf first k) buf b" and "\<forall>i<k. module_outcome w buf b (mod_at first i)"
  shows "\<exists>b' ps. patch_modules w first [k..<n] b = Some (b', ps) \<and>
    same_off (touched buf first n) buf b' \<and> (\<forall>i<n. module_outcome w buf b' (mod_at first i))"
  using assms(3-)
proof (induction "n - k" arbitrary: k b)
  case 0
  then show ?case by simp
next
  case (Suc d)
  then have k: "k < n" by simp
  have len: "length b = length buf" using same_off_length [OF Suc.prems(2)] by simp
  obtain b1 p where b1: "patch_module w b (mod_at first k) = Some (b1, p)"
    and s1: "same_off (cv_span buf (mod_at first k) \<union> span (mod_at first k + kModCvDataSizeOff) 4) b b1"
    and o1: "module_outcome w buf b1 (mod_at first k)"
    using patch_module_step [OF assms(1) k assms(2) Suc.prems(2)] by blast
  have "same_off (touched buf first (Suc k)) buf b1"
    using same_off_trans [OF Suc.prems(2) s1] by (simp only: touched_Suc)
  moreover have "\<forall>i<Suc k. module_outcome w buf b1 (mod_at first i)"
    using module_outcome_keeps [OF assms(1) k _ assms(2) _ s1 len] Suc.prems(3) o1 by (simp add: less_Suc_eq)
  moreover have "d = n - Suc k" using Suc.hyps(2) by simp
  ultimately obtain b' ps where b': "patch_modules w first [Suc k..<n] b1 = Some (b', ps)"
    "same_off (touched buf first n) buf b'" "\<forall>i<n. module_outcome w buf b' (mod_at first i)"
    using Suc.hyps(1) [of "Suc k" b1] k by auto
  have "\<not> first + k * kModuleSize + kModuleSize > length b"
    using mod_inside [OF assms(1) k] len by (simp add: mod_at_def)
  then have "patch_modules w first [k..<n] b = Some (b', (case p of None \<Rightarrow> ps | Some q \<Rightarrow> q # ps))"
    using b1 b'(1) k by (simp add: upt_conv_Cons mod_at_def)
  then show ?case using b'(2,3) by blast
qed


lemma patch_module_idle: "patch_module w b m = Some (b1, None) \<Longrightarrow> b1 = b"
  by (auto simp: patch_module_plan split: option.splits if_splits)

lemma patch_modules_idle: "patch_modules w first is b = Some (b', []) \<Longrightarrow> b' = b"
proof (induction "is" arbitrary: b)
  case (Cons i "is")
  then show ?case
    by (auto simp: Let_def split: if_splits option.splits dest!: patch_module_idle)
qed simp

lemma patched_dump:
  assumes "read_file path w = Some buf" and "32 \<le> length buf" and "ReadU32 buf 0 = kMdmpSignature"
    and "rva = find_module_stream buf (ReadU32 buf 12) (unat (ReadU32 buf 8)) 0" and "rva \<noteq> 0"
    and "n = unat (ReadU32 buf (unat rva))" and "n \<le> 4096"
    and "well_laid_out buf (unat rva + 4) n" and "elf_files_ok w" and "unwritable w path = None"
  shows "\<exists>buf' w'. PatchMissingBuildIds path w = Some (OkStatus, w') \<and>
    read_file path w' = Some buf' \<and> unreadable w' = unreadable w \<and> read_fails w' = read_fails w \<and>
    (\<forall>p. p \<noteq> path \<longrightarrow> lookup w' p = lookup w p) \<and>
    same_off (touched buf (unat rva + 4) n) buf buf' \<and>
    (\<forall>i<n. module_outcome w buf buf' (mod_at (unat rva + 4) i))"
proof -
  have fit: "unat rva + 4 + n * kModuleSize \<le> length buf" "length buf < 2 ^ 32"
    using assms(8) by (simp_all add: well_laid_out_def)
  have r4: "unat (rva + 4) = unat rva + 4" using fit unat_u32_add [of rva 4 "length buf"] by simp
  obtain b' ps where b': "patch_modules w (unat rva + 4) [0..<n] buf = Some (b', ps)"
    and off: "same_off (touched buf (unat rva + 4) n) buf b'"
    and out: "\<forall>i<n. module_outcome w buf b' (mod_at (unat rva + 4) i)"
    using patch_modules_from [OF assms(8,9), of 0 buf] by (auto simp: touched_def)
  have "\<not> ReadU32 buf (unat rva) > 4096" using assms(6,7) by (simp add: word_less_nat_alt)
  then have pb: "patch_buffer w buf = Some (b', ps)"
    unfolding patch_buffer_def using b' fit r4 assms(5,6) by (simp add: Let_def flip: assms(4))
  define w1 where "w1 = foldl (\<lambda>w p. log_to (PatchedModule p) w) w ps"
  have w1: "lookup w1 p = lookup w p" "unreadable w1 = unreadable w" "unwritable w1 = unwritable w"
    "read_fails w1 = read_fails w" for p
    unfolding w1_def by (induction ps arbitrary: w) simp_all
  have head: "\<not> (length buf < 32 \<or> ReadU32 buf 0 \<noteq> kMdmpSignature)" using assms(2,3) by simp
  show ?thesis
  proof (cases "ps = []")
    case True
    then have "b' = buf" using patch_modules_idle b' by blast
    moreover have "PatchMissingBuildIds path w = Some (OkStatus, w)"
      using assms(1) can_open_read [OF assms(1)] head pb True by (simp add: PatchMissingBuildIds_def Let_def)
    ultimately show ?thesis using assms(1) off out by blast
  next
    case False
    define w2 where "w2 = set_node path (Regular b' (wall_clock w1)) w1"
    have "ofstream_write path b' w1 = (Inr (), w2)"
      using assms(10) w1(3) by (simp add: ofstream_write_def write_file_def w2_def)
    then have "PatchMissingBuildIds path w = Some (OkStatus, w2)"
      using assms(1) can_open_read [OF assms(1)] head pb False by (simp add: PatchMissingBuildIds_def Let_def flip: w1_def)
    moreover have "read_file path w2 = Some b'"
      using assms(1) w1(2,4) by (auto simp: read_file_def w2_def split: option.splits if_splits)
    moreover have "unreadable w2 = unreadable w" "read_fails w2 = read_fails w" using w1(2,4) by (simp_all add: w2_def)
    moreover have "p \<noteq> path \<longrightarrow> lookup w2 p = lookup w p" for p
      using w1(1) by (simp add: w2_def)
    ultimately show ?thesis using off out by blast
  qed
qed

text \<open>
  C2. When the module list and the places it refers to are laid out without overlap and
  the module files can be read, patching succeeds without a stray access. Every module that
  the plan selects then has a BpEL record with the build id of its file and the new record
  size; every other module is unchanged to the byte; outside the CodeView records and the
  size words the dump is the same, and no other file is touched.
\<close>

theorem PatchMissingBuildIds_correct:
  assumes "read_file path w = Some buf" and "32 \<le> length buf" and "ReadU32 buf 0 = kMdmpSignature"
    and "rva = find_module_stream buf (ReadU32 buf 12) (unat (ReadU32 buf 8)) 0" and "rva \<noteq> 0"
    and "n = unat (ReadU32 buf (unat rva))" and "n \<le> 4096"
    and "well_laid_out buf (unat rva + 4) n" and "elf_files_ok w" and "unwritable w path = None"
  shows "\<exists>buf' w'. PatchMissingBuildIds path w = Some (OkStatus, w') \<and>
    read_file path w' = Some buf' \<and> (\<forall>p. p \<noteq> path \<longrightarrow> lookup w' p = lookup w p) \<and>
    same_off (touched buf (unat rva + 4) n) buf buf' \<and>
    (\<forall>i<n. module_outcome w buf buf' (mod_at (unat rva + 4) i))"
  using patched_dump [OF assms] by blast


section \<open>A module without a build id\<close>

text \<open>
  A dump with one module, \<^verbatim>\<open>/m\<close>, the ELF file \<^const>\<open>demo_elf\<close>, whose CodeView record of 24 bytes has no signature.
\<close>

definition demo_dump :: bytes where
  "demo_dump =
    [77, 68, 77, 80, 0, 0, 0, 0, 1, 0, 0, 0, 32, 0, 0, 0, 0, 0, 0, 0, 0, 0, 0, 0, 0, 0, 0,
     0, 0, 0, 0, 0, 4, 0, 0, 0, 0, 0, 0, 0, 44, 0, 0, 0, 1, 0, 0, 0, 0, 0, 0, 0, 0, 0, 0, 0,
     0, 0, 0, 0, 0, 0, 0, 0, 0, 0, 0, 0, 156, 0, 0, 0, 0, 0, 0, 0, 0, 0, 0, 0, 0, 0, 0, 0, 0,
     0, 0, 0, 0, 0, 0, 0, 0, 0, 0, 0, 0, 0, 0, 0, 0, 0, 0, 0, 0, 0, 0, 0, 0, 0, 0, 0, 0, 0,
     0, 0, 0, 0, 0, 0, 0, 0, 0, 0, 24, 0, 0, 0, 164, 0, 0, 0, 0, 0, 0, 0, 0, 0, 0, 0, 0, 0,
     0, 0, 0, 0, 0, 0, 0, 0, 0, 0, 0, 0, 0, 0, 4, 0, 0, 0, 47, 0, 109, 0, 0, 0, 0, 0, 0, 0,
     0, 0, 0, 0, 0, 0, 0, 0, 0, 0, 0, 0, 0, 0, 0, 0, 0, 0]"

definition demo_world :: world where
  "demo_world = \<lparr>nodes = [(''/d'', Regular demo_dump 0), (''/m'', Regular demo_elf 0)],
     unreadable = (\<lambda>_. None), undeletable = (\<lambda>_. None), read_fails = (\<lambda>_. False), unwritable = (\<lambda>_. None),
     wall_clock = 0, steady_clock = 0, out = [], log = []\<rparr>"

lemma demo_dump_length [simp]: "length demo_dump = 188"
  by (simp add: demo_dump_def)

lemma demo_cells:
  "ReadU32 demo_dump 0 = kMdmpSignature" "ReadU32 demo_dump 8 = 1" "ReadU32 demo_dump 12 = 32"
  "ReadU32 demo_dump 32 = 4" "ReadU32 demo_dump 40 = 44" "ReadU32 demo_dump 44 = 1"
  "ReadU32 demo_dump 68 = 156" "ReadU32 demo_dump 124 = 24" "ReadU32 demo_dump 128 = 164"
  "ReadU32 demo_dump 156 = 4" "ReadU32 demo_dump 164 = 0"
  by (simp_all add: ReadU32_def) (simp_all add: sub_bytes_def demo_dump_def kMdmpSignature_def)

lemma demo_spans:
  "cv_span demo_dump 48 = {164..<188}" "name_span demo_dump 48 = {156..<164}"
  by (simp_all add: cv_span_def name_span_def name_len_def span_def layout_defs demo_cells)

lemma demo_layout: "well_laid_out demo_dump 48 1"
  by (simp add: well_laid_out_def mod_at_def demo_spans) (auto simp: span_def layout_defs)

lemma demo_name: "ReadModuleName demo_dump 156 = Some ''/m''"
proof -
  have "buf_at demo_dump 160 = Some 0x2f" "buf_at demo_dump 161 = Some 0"
    "buf_at demo_dump 162 = Some 0x6d" "buf_at demo_dump 163 = Some 0"
    by (simp_all add: buf_at_def) (simp_all add: demo_dump_def)
  moreover have "char_of (47 :: nat) = CHR ''/''" "char_of (109 :: nat) = CHR ''m''" by code_simp+
  ultimately have "ReadModuleName_loop demo_dump 160 (Suc (Suc 0)) = Some ''/m''"
    by (simp add: char_of_byte_def)
  then have "ReadModuleName_loop demo_dump 160 2 = Some ''/m''" by (simp only: numeral_2_eq_2)
  then show ?thesis by (simp add: ReadModuleName_def demo_cells)
qed

lemma demo_read:
  "read_file ''/d'' demo_world = Some demo_dump" "read_file ''/m'' demo_world = Some demo_elf"
  "p \<noteq> ''/d'' \<Longrightarrow> p \<noteq> ''/m'' \<Longrightarrow> read_file p demo_world = None"
  by (simp_all add: read_file_def demo_world_def lookup_def)

lemma demo_build_ids: "elf_files_ok demo_world"
  unfolding elf_files_ok_def
proof
  fix p
  have d: "elf_build_id demo_dump = Some []" by (simp add: elf_build_id_def) (simp add: demo_dump_def)
  consider "p = ''/d''" | "p = ''/m''" | "p \<noteq> ''/d''" "p \<noteq> ''/m''" by blast
  then show "case ComputeElfBuildId p demo_world of None \<Rightarrow> False | Some bid \<Rightarrow> length bid < 2 ^ 32 - 4"
    by cases (simp_all add: ComputeElfBuildId_def demo_read demo_build_id d)
qed

theorem PatchMissingBuildIds_correct_witness:
  "\<exists>buf' w'. PatchMissingBuildIds ''/d'' demo_world = Some (OkStatus, w') \<and>
    read_file ''/d'' w' = Some buf' \<and> ReadU32 buf' 164 = kBpElSignature \<and>
    sub_bytes 168 16 buf' = [1, 2, 3, 4, 5, 6, 7, 8, 9, 10, 11, 12, 13, 14, 15, 16]"
proof -
  have "find_module_stream demo_dump 32 1 0 = 44"
    by (subst find_module_stream.simps) (simp add: layout_defs demo_cells)
  then have rva: "44 = find_module_stream demo_dump (ReadU32 demo_dump 12) (unat (ReadU32 demo_dump 8)) 0"
    by (simp add: demo_cells)
  have n: "1 = unat (ReadU32 demo_dump (unat (44::u32)))" by (simp add: demo_cells)
  have "well_laid_out demo_dump (unat (44::u32) + 4) 1" using demo_layout by simp
  from PatchMissingBuildIds_correct [OF demo_read(1) _ demo_cells(1) rva _ n _ this demo_build_ids]
  obtain buf' w' where r: "PatchMissingBuildIds ''/d'' demo_world = Some (OkStatus, w')"
    "read_file ''/d'' w' = Some buf'" "module_outcome demo_world demo_dump buf' 48"
    by (auto simp: demo_world_def mod_at_def)
  obtain bid where bid: "bid = [1, 2, 3, 4, 5, 6, 7, 8, 9, 10, 11, 12, 13, 14, 15, 16 :: u8]"
    and len: "length bid = 16" by simp
  have "module_plan demo_world demo_dump 48 = Some (Some (164, bid, ''/m''))"
    by (simp add: module_plan_def layout_defs demo_cells demo_name ComputeElfBuildId_def demo_read
        demo_build_id kBpElSignature_def flip: bid)
      (simp add: bid)
  then have "ReadU32 buf' 164 = kBpElSignature \<and> sub_bytes 168 16 buf' = bid"
    using r(3) by (simp add: module_outcome_def len)
  then show ?thesis using r(1,2) unfolding bid by blast
qed


section \<open>Sums that wrap\<close>

text \<open>
  C30. The range check on a CodeView record adds two 32-bit words. A record that starts
  beyond the dump but whose end wraps to a small offset passes it, and once the module's
  file yields a build id that fits its size the copy goes outside the buffer.
\<close>

theorem wrapped_cv_record_faults:
  fixes buf mod_off
  defines "cv_rva \<equiv> ReadU32 buf (mod_off + kModCvRvaOff)"
    and "cv_size \<equiv> ReadU32 buf (mod_off + kModCvDataSizeOff)"
  assumes "length buf < unat cv_rva" and "unat (cv_rva + cv_size) \<le> length buf" and "20 \<le> cv_size"
    and "ReadModuleName buf (ReadU32 buf (mod_off + kModNameRvaOff)) = Some path" and "path \<noteq> []"
    and "ComputeElfBuildId path w = Some bid" and "bid \<noteq> []"
    and "4 + word_of_nat (length bid) \<le> cv_size"
  shows "patch_module w buf mod_off = None"
proof -
  have "cv_rva \<noteq> 0" using assms(3) by auto
  moreover have "ReadU32 buf (unat cv_rva) \<noteq> kBpElSignature"
    using assms(3) by (simp add: ReadU32_outside kBpElSignature_def)
  ultimately have "module_plan w buf mod_off = Some (Some (cv_rva, bid, path))"
    using assms(4-) by (simp add: module_plan_def kXorHashSize_def not_less [symmetric] Let_def flip: cv_rva_def cv_size_def)
  moreover have "length (WriteU32 buf (unat cv_rva) kBpElSignature) = length buf"
    using assms(3) by (simp add: WriteU32_def)
  ultimately show ?thesis using assms(3) by (simp add: patch_module_plan)
qed

theorem wrapped_cv_record_faults_witness:
  "patch_module demo_world (WriteU32 demo_dump 128 0xFFFFFFF0) 48 = None"
proof -
  let ?b = "WriteU32 demo_dump 128 0xFFFFFFF0"
  have c: "ReadU32 ?b (48 + kModCvRvaOff) = 0xFFFFFFF0" "ReadU32 ?b (48 + kModCvDataSizeOff) = 24"
    "ReadU32 ?b (48 + kModNameRvaOff) = 156"
    by (simp_all add: layout_defs cells.rd_wr_same cells.rd_wr_other span_def demo_cells)
  have len: "length ?b = 188" by (simp add: cells.length_wr)
  have same: "same_off (span 128 4) demo_dump ?b" by (rule cells.wr_same_off) simp
  have "ReadModuleName demo_dump 156 = ReadModuleName ?b 156"
    by (rule ReadModuleName_same [OF same]) (simp_all add: name_len_def demo_cells span_def)
  then have name: "ReadModuleName ?b (ReadU32 ?b (48 + kModNameRvaOff)) = Some ''/m''"
    by (simp add: c demo_name)
  have bid: "ComputeElfBuildId ''/m'' demo_world = Some [1, 2, 3, 4, 5, 6, 7, 8, 9, 10, 11, 12, 13, 14, 15, 16]"
    by (simp add: ComputeElfBuildId_def demo_read demo_build_id)
  show ?thesis
    by (rule wrapped_cv_record_faults [OF _ _ _ name _ bid]) (simp_all add: c len)
qed

text \<open>The same happens to a name whose length word makes the end wrap.\<close>

lemma wrapped_name_faults:
  assumes "rva \<noteq> 0" and "unat rva + 4 = length buf" and "length buf < 2 ^ 32"
    and "ReadU32 buf (unat rva) = len" and "len \<noteq> 0" and "len mod 2 = 0"
    and "unat (rva + 4 + len) \<le> length buf"
  shows "ReadModuleName buf rva = None"
proof -
  have r4: "unat (rva + 4) = length buf" using unat_u32_add [of rva 4 "length buf"] assms(2,3) by simp
  have "len \<noteq> 1" using assms(6) by auto
  then have "unat len \<noteq> 1" by (simp add: word_unat_eq_iff)
  moreover have "unat len \<noteq> 0" using assms(5) by (simp add: word_unat_eq_iff)
  ultimately have "unat len div 2 \<noteq> 0" by linarith
  then obtain n where "unat len div 2 = Suc n" by (cases "unat len div 2") auto
  then show ?thesis using assms r4 by (simp add: ReadModuleName_def buf_at_def)
qed

section \<open>Names\<close>

definition utf16_bytes :: "u16 list \<Rightarrow> bytes" where
  "utf16_bytes us = concat (map (\<lambda>u. le_bytes 2 (unat u)) us)"

definition ascii_of :: "u16 list \<Rightarrow> string" where
  "ascii_of us = map (\<lambda>u. char_of (unat u)) (filter (\<lambda>u. 0 < u \<and> u < 128) us)"

lemma length_utf16 [simp]: "length (utf16_bytes us) = 2 * length us"
  by (induction us) (simp_all add: utf16_bytes_def)

lemma le_bytes_2: "le_bytes 2 n = [word_of_nat n, word_of_nat (n div 256)]"
  by (simp add: numeral_2_eq_2)

lemma code_unit:
  "(ucast (word_of_nat (unat (u :: u16)) :: u8) :: u32) OR
    push_bit 8 (ucast (word_of_nat (unat u div 256) :: u8)) = ucast u"
proof -
  have "(word_of_nat (unat u div 256) :: u8) = ucast (drop_bit 8 u)"
  proof -
    have "unat u div 256 = unat (drop_bit 8 u)"
      unfolding unat_drop_bit_eq by (simp add: drop_bit_eq_div)
    then show ?thesis by (simp only: of_nat_unat)
  qed
  then show ?thesis
    by (intro bit_word_eqI) (auto simp only: of_nat_unat bit_simps, auto dest: bit_imp_le_length)
qed


lemma ascii_unit:
  "(ucast (u :: u16) :: u32) < 128 \<and> (ucast u :: u32) \<noteq> 0 \<longleftrightarrow> 0 < u \<and> u < 128"
  "u < 128 \<Longrightarrow> char_of_byte (ucast (ucast u :: u32)) = char_of (unat u)"
proof -
  have l: "unat u < 65536" using unsigned_less [of u] by simp
  then have c: "unat (ucast u :: u32) = unat u"
    by (simp add: unsigned_ucast_eq take_bit_nat_eq_self)
  show "(ucast (u :: u16) :: u32) < 128 \<and> (ucast u :: u32) \<noteq> 0 \<longleftrightarrow> 0 < u \<and> u < 128"
    by (auto simp: word_less_nat_alt c word_unat_eq_iff)
  show "u < 128 \<Longrightarrow> char_of_byte (ucast (ucast u :: u32)) = char_of (unat u)"
  proof -
    assume "u < 128"
    then have "unat u < 128" by (simp add: word_less_nat_alt)
    moreover have "unat (ucast (ucast u :: u32) :: u8) = take_bit 8 (unat (ucast u :: u32))"
      by (subst unsigned_ucast_eq) simp
    ultimately show ?thesis by (simp add: char_of_byte_def c take_bit_nat_eq_self)
  qed
qed

lemma buf_at_append: "buf_at (a @ x # b) (length a) = Some x"
  "buf_at (a @ x # y # b) (Suc (length a)) = Some y"
  by (simp_all add: buf_at_def nth_append)

lemma ReadModuleName_loop_utf16:
  assumes "buf = pre @ utf16_bytes us @ post" and "unat pos = length pre" and "length buf < 2 ^ 32"
  shows "ReadModuleName_loop buf pos (length us) = Some (ascii_of us)"
  using assms
proof (induction us arbitrary: pre pos)
  case (Cons u us)
  let ?lo = "word_of_nat (unat u) :: u8" and ?hi = "word_of_nat (unat u div 256) :: u8"
  have buf: "buf = pre @ ?lo # ?hi # utf16_bytes us @ post"
    using Cons.prems(1) by (simp add: utf16_bytes_def le_bytes_2)
  then have fit: "unat pos + 2 * Suc (length us) \<le> length buf" using Cons.prems(2) by simp
  note step = unat_u32_step [OF fit Cons.prems(3)]
  have "buf_at buf (unat pos) = Some ?lo" "buf_at buf (unat (pos + 1)) = Some ?hi"
    unfolding step Cons.prems(2) by (simp_all add: buf buf_at_append)
  moreover have "ReadModuleName_loop buf (pos + 2) (length us) = Some (ascii_of us)"
    by (rule Cons.IH [of "pre @ [?lo, ?hi]"]) (use buf step Cons.prems in simp_all)
  ultimately show ?case
    using ascii_unit [of u] by (auto simp: code_unit Let_def ascii_of_def simp del: of_nat_unat)
qed (simp add: ascii_of_def)

text \<open>
  C32. On a UTF-16LE name stored with its length anywhere but at the start of a dump smaller
  than 4 GiB, the decoder returns the ASCII characters of the name in order; the other code
  units are dropped.
\<close>

theorem ReadModuleName_decodes:
  assumes "buf = pre @ le_bytes 4 (2 * length us) @ utf16_bytes us @ post"
    and "unat rva = length pre" and "pre \<noteq> []" and "length buf < 2 ^ 32"
  shows "ReadModuleName buf rva = Some (ascii_of us)"
proof (cases "us = []")
  case True
  have "sub_bytes (length pre) 4 buf = le_bytes 4 0"
    using True by (simp add: assms(1) sub_bytes_def)
  then have "ReadU32 buf (unat rva) = 0"
    using assms(1,2) by (simp add: ReadU32_def le_nat_le_bytes)
  then show ?thesis using True by (simp add: ReadModuleName_def ascii_of_def)
next
  case False
  let ?n = "2 * length us"
  have n: "?n < 2 ^ 32" using assms(1,4) by simp
  have "sub_bytes (length pre) 4 buf = le_bytes 4 ?n" by (simp add: assms(1) sub_bytes_def)
  then have len: "ReadU32 buf (unat rva) = word_of_nat ?n"
    using assms(1,2) n by (simp add: ReadU32_def le_nat_le_bytes del: of_nat_mult)
  have un: "unat (word_of_nat ?n :: u32) = ?n" using n by (intro unat_of_nat_small) simp
  have rva: "rva \<noteq> 0" using assms(2,3) by auto
  have name: "name_len buf rva = 4 + ?n" using rva len un by (simp add: name_len_def)
  have fit: "unat rva + name_len buf rva \<le> length buf" using name assms(1,2) by simp
  note sums = name_sums [OF rva fit assms(4)]
  have "ReadModuleName_loop buf (rva + 4) (length us) = Some (ascii_of us)"
    using sums(1) assms by (intro ReadModuleName_loop_utf16 [of _ "pre @ le_bytes 4 ?n"]) simp_all
  moreover have "(word_of_nat ?n :: u32) \<noteq> 0" using un False by (metis length_0_conv mult_eq_0_iff unat_0 zero_neq_numeral)
  moreover have "unat ((word_of_nat ?n :: u32) mod 2) = 0" using un by (simp add: unat_mod del: of_nat_mult)
  then have "(word_of_nat ?n :: u32) mod 2 = 0" by (simp only: unat_eq_zero)
  ultimately show ?thesis
    using sums fit rva len un name by (simp add: ReadModuleName_def Let_def del: of_nat_mult)
qed


theorem ReadModuleName_decodes_witness:
  "ReadModuleName ([0, 0] @ le_bytes 4 6 @ utf16_bytes [0x2f, 0x20ac, 0x61] @ [7]) 2 = Some ''/a''"
proof -
  have "ReadModuleName ([0, 0] @ le_bytes 4 6 @ utf16_bytes [0x2f, 0x20ac, 0x61] @ [7]) 2
    = Some (ascii_of [0x2f, 0x20ac, 0x61])"
    by (rule ReadModuleName_decodes [where pre = "[0, 0]" and post = "[7]"]) simp_all
  moreover have "char_of (47 :: nat) = CHR ''/''" "char_of (97 :: nat) = CHR ''a''" by code_simp+
  ultimately show ?thesis by (simp add: ascii_of_def)
qed

section \<open>Failures\<close>

lemma foldl_log_simps:
  "lookup (foldl (\<lambda>w p. log_to (f p) w) w ps) q = lookup w q"
  "unreadable (foldl (\<lambda>w p. log_to (f p) w) w ps) = unreadable w"
  "unwritable (foldl (\<lambda>w p. log_to (f p) w) w ps) = unwritable w"
  "read_fails (foldl (\<lambda>w p. log_to (f p) w) w ps) = read_fails w"
  by (induction ps arbitrary: w) simp_all

text \<open>Patching never changes the length of the dump.\<close>

lemma length_WriteU32 [simp]: "length (WriteU32 buf off v) = length buf"
  by (simp add: WriteU32_def put_bytes_def)

lemma length_memcpy_to: "memcpy_to buf off xs = Some buf' \<Longrightarrow> length buf' = length buf"
  by (auto simp: memcpy_to_def put_bytes_def split: if_splits)

lemma length_patch_module: "patch_module w buf off = Some (buf', q) \<Longrightarrow> length buf' = length buf"
  by (auto simp: patch_module_def Let_def dest!: length_memcpy_to split: if_splits option.splits)

lemma length_patch_modules: "patch_modules w first is buf = Some (buf', ps) \<Longrightarrow> length buf' = length buf"
  by (induction "is" arbitrary: buf buf' ps)
    (auto simp: Let_def split: if_splits option.splits dest!: length_patch_module)

lemma length_patch_buffer: "patch_buffer w buf = Some (buf', ps) \<Longrightarrow> length buf' = length buf"
  by (auto simp: patch_buffer_def Let_def split: if_splits dest: length_patch_modules)

text \<open>
  C33. The dump is rewritten in place. When the disk has room for only the first \<open>k\<close> bytes of it,
  the dump that was complete before is left truncated to \<open>k\<close> bytes, and this is reported as an
  InternalError only for dumps of at least 1024 bytes: a smaller one is still in the buffer of the
  stream when the code tests it, the flush of the destructor fails unseen, and the call returns OK.
\<close>

theorem patch_write_failure_truncates:
  assumes "read_file path w = Some buf" and "32 \<le> length buf" and "ReadU32 buf 0 = kMdmpSignature"
    and "patch_buffer w buf = Some (buf', p # ps)"
    and "unwritable w path = Some (ShortWrite k)" and "k < length buf'"
  shows "\<exists>w'. PatchMissingBuildIds path w =
      Some (if length buf' < 1024 then OkStatus else Inl (Error InternalError (''flush failed: '' @ path) 0), w')
    \<and> read_file path w' = Some (take k buf')"
proof -
  define w1 where "w1 = foldl (\<lambda>w p. log_to (PatchedModule p) w) w (p # ps)"
  have w1: "unreadable w1 = unreadable w" "unwritable w1 = unwritable w" "read_fails w1 = read_fails w"
    unfolding w1_def by (simp_all only: foldl_log_simps)
  define w2 where "w2 = set_node path (Regular (take k buf') (wall_clock w1)) w1"
  have "ofstream_write path buf' w1 = (if length buf' < 1024 then Inr () else Inl (ShortWrite k), w2)"
    using assms(5,6) w1(2) by (simp add: ofstream_write_def ofstream_chunk_def write_file_def w2_def)
  moreover have "\<not> (length buf < 32 \<or> ReadU32 buf 0 \<noteq> kMdmpSignature)" using assms(2,3) by simp
  ultimately have "PatchMissingBuildIds path w =
      Some (if length buf' < 1024 then OkStatus else Inl (Error InternalError (''flush failed: '' @ path) 0), w2)"
    using assms(1,4) can_open_read [OF assms(1)]
    by (simp add: PatchMissingBuildIds_def Let_def flip: w1_def del: foldl_Cons)
  moreover have "read_file path w2 = Some (take k buf')"
    using assms(1) w1(1,3) by (auto simp: read_file_def w2_def split: option.splits if_splits)
  ultimately show ?thesis by blast
qed

text \<open>A dump of 188 bytes: the call returns OK, and ten bytes are left.\<close>

theorem patch_write_failure_truncates_witness:
  "\<exists>w' buf'. PatchMissingBuildIds ''/d'' (demo_world\<lparr>unwritable := \<lambda>_. Some (ShortWrite 10)\<rparr>) = Some (OkStatus, w') \<and>
     read_file ''/d'' w' = Some (take 10 buf') \<and> length buf' = 188"
proof -
  let ?w = "demo_world\<lparr>unwritable := \<lambda>_. Some (ShortWrite 10)\<rparr>"
  have r: "read_file q ?w = read_file q demo_world" for q
  proof -
    have "lookup ?w q = lookup demo_world q" "unreadable ?w = unreadable demo_world" "read_fails ?w = read_fails demo_world"
      by (simp_all add: lookup_def)
    then show ?thesis by (simp only: read_file_def)
  qed
  obtain bid where bid: "bid = [1, 2, 3, 4, 5, 6, 7, 8, 9, 10, 11, 12, 13, 14, 15, 16 :: u8]"
    and len: "length bid = 16" by simp
  have plan: "module_plan ?w demo_dump 48 = Some (Some (164, bid, ''/m''))"
    by (simp add: module_plan_def layout_defs demo_cells demo_name ComputeElfBuildId_def r demo_read
        demo_build_id kBpElSignature_def flip: bid)
      (simp add: bid)
  define b' where "b' = apply_plan demo_dump 48 164 bid"
  have b': "length b' = 188"
    using same_off_length [OF apply_plan_spec(1) [of 164 bid demo_dump 48]]
    by (simp add: b'_def len layout_defs span_def)
  have "patch_module ?w demo_dump 48 = Some (b', Some ''/m'')"
    by (simp add: patch_module_plan plan len cells.length_wr b'_def)
  then have "patch_modules ?w 48 [0] demo_dump = Some (b', [''/m''])"
    by (simp add: kModuleSize_def)
  moreover have "find_module_stream demo_dump 32 1 0 = 44"
    by (subst find_module_stream.simps) (simp add: layout_defs demo_cells)
  ultimately have "patch_buffer ?w demo_dump = Some (b', [''/m''])"
    by (simp add: patch_buffer_def demo_cells)
  from patch_write_failure_truncates [OF _ _ demo_cells(1) this, of "''/d''" 10] b'
  show ?thesis by (auto simp: r demo_read)
qed


end
