(* ===== verification/Calendar.thy ===== *)
theory Calendar
  imports C_Strings
begin

text \<open>
  \<^verbatim>\<open>gmtime_r\<close> and \<^verbatim>\<open>strftime\<close> for the two formats that the daemon prints, on times from
  1970 on. Times are seconds; leap seconds are not counted, as POSIX prescribes. The inverse
  \<open>timegm\<close> shows that no two seconds print alike.
\<close>

section \<open>Breaking down a time\<close>

definition is_leap :: "nat \<Rightarrow> bool" where
  "is_leap y = (y mod 4 = 0 \<and> y mod 100 \<noteq> 0 \<or> y mod 400 = 0)"

definition days_in_year :: "nat \<Rightarrow> nat" where
  "days_in_year y = (if is_leap y then 366 else 365)"

definition month_lengths :: "nat \<Rightarrow> nat list" where
  "month_lengths y =
     [31, if is_leap y then 29 else 28, 31, 30, 31, 30, 31, 31, 30, 31, 30, 31]"

function split_year :: "nat \<Rightarrow> nat \<Rightarrow> nat \<times> nat" where
  "split_year y d = (if d < days_in_year y then (y, d) else split_year (Suc y) (d - days_in_year y))"
  by pat_completeness auto
termination
  by (relation "measure snd") (auto simp: days_in_year_def)

declare split_year.simps [simp del]

fun split_month :: "nat list \<Rightarrow> nat \<Rightarrow> nat \<Rightarrow> nat \<times> nat" where
  "split_month [] m d = (m, d)"
| "split_month (l # ls) m d = (if d < l then (m, d) else split_month ls (Suc m) (d - l))"

record tm =
  tm_year :: nat
  tm_mon :: nat
  tm_mday :: nat
  tm_hour :: nat
  tm_min :: nat
  tm_sec :: nat

definition gmtime :: "nat \<Rightarrow> tm" where
  "gmtime t =
     (let (y, yd) = split_year 1970 (t div 86400);
          (m, md) = split_month (month_lengths y) 1 yd; s = t mod 86400 in
      \<lparr>tm_year = y, tm_mon = m, tm_mday = md + 1,
       tm_hour = s div 3600, tm_min = s div 60 mod 60, tm_sec = s mod 60\<rparr>)"

section \<open>Printing it\<close>

definition pad :: "nat \<Rightarrow> nat \<Rightarrow> string" where
  "pad w n = replicate (w - length (show_dec n)) CHR ''0'' @ show_dec n"

text \<open>\<^verbatim>\<open>%Y-%m-%dT%H:%M:%SZ\<close> and \<^verbatim>\<open>%Y%m%d%H%M%S\<close>; \<^verbatim>\<open>%Y\<close> is not padded.\<close>

definition iso_time :: "tm \<Rightarrow> string" where
  "iso_time t = show_dec (tm_year t) @ ''-'' @ pad 2 (tm_mon t) @ ''-'' @ pad 2 (tm_mday t) @ ''T'' @
     pad 2 (tm_hour t) @ '':'' @ pad 2 (tm_min t) @ '':'' @ pad 2 (tm_sec t) @ ''Z''"

definition compact_time :: "tm \<Rightarrow> string" where
  "compact_time t = show_dec (tm_year t) @ pad 2 (tm_mon t) @ pad 2 (tm_mday t) @
     pad 2 (tm_hour t) @ pad 2 (tm_min t) @ pad 2 (tm_sec t)"

text \<open>\<^verbatim>\<open>strftime\<close> into \<open>n\<close> characters: nothing is stored when text and NUL do not fit.\<close>

definition strftime :: "nat \<Rightarrow> string \<Rightarrow> string" where
  "strftime n s = (if length s < n then s else [])"

section \<open>The inverse\<close>

definition timegm :: "tm \<Rightarrow> nat" where
  "timegm t =
     ((\<Sum>y\<leftarrow>[1970..<tm_year t]. days_in_year y) +
      sum_list (take (tm_mon t - 1) (month_lengths (tm_year t))) + (tm_mday t - 1)) * 86400 +
     tm_hour t * 3600 + tm_min t * 60 + tm_sec t"

lemma split_year_spec:
  assumes "split_year y d = (y', d')"
  shows "y \<le> y' \<and> d' < days_in_year y' \<and> (\<Sum>i\<leftarrow>[y..<y']. days_in_year i) + d' = d"
  using assms
proof (induction y d rule: split_year.induct)
  case (1 y d)
  show ?case
  proof (cases "d < days_in_year y")
    case True
    then show ?thesis using 1(2) by (subst (asm) split_year.simps) auto
  next
    case False
    then have "split_year (Suc y) (d - days_in_year y) = (y', d')"
      using 1(2) by (subst (asm) split_year.simps) simp
    from 1(1) [OF False this] False show ?thesis by (auto simp: upt_conv_Cons)
  qed
qed

lemma split_month_spec:
  assumes "split_month ls m d = (m', d')" and "d < sum_list ls"
  shows "m \<le> m' \<and> m' - m < length ls \<and> d' < ls ! (m' - m) \<and> sum_list (take (m' - m) ls) + d' = d"
  using assms
proof (induction ls arbitrary: m d)
  case (Cons l ls)
  show ?case
  proof (cases "d < l")
    case False
    then have "split_month ls (Suc m) (d - l) = (m', d')" "d - l < sum_list ls"
      using Cons.prems by auto
    from Cons.IH [OF this] False show ?thesis by (auto simp: Suc_diff_Suc Suc_le_eq nth_Cons' take_Cons')
  qed (use Cons.prems in auto)
qed simp

lemma sum_month_lengths: "sum_list (month_lengths y) = days_in_year y"
  by (simp add: month_lengths_def days_in_year_def)

lemma gmtime_cases:
  obtains y yd m md where "split_year 1970 (t div 86400) = (y, yd)" and "yd < days_in_year y"
    and "split_month (month_lengths y) 1 yd = (m, md)" and "1 \<le> m" and "m \<le> 12" and "md < 31"
    and "gmtime t = \<lparr>tm_year = y, tm_mon = m, tm_mday = md + 1, tm_hour = t mod 86400 div 3600,
       tm_min = t mod 86400 div 60 mod 60, tm_sec = t mod 86400 mod 60\<rparr>"
proof -
  obtain y yd where y: "split_year 1970 (t div 86400) = (y, yd)" by fastforce
  obtain m md where m: "split_month (month_lengths y) 1 yd = (m, md)" by fastforce
  have yd: "yd < days_in_year y" using split_year_spec [OF y] by simp
  note ms = split_month_spec [OF m, unfolded sum_month_lengths, OF yd]
  have "length (month_lengths y) = 12" by (simp add: month_lengths_def)
  moreover have "\<forall>l\<in>set (month_lengths y). l \<le> 31" by (simp add: month_lengths_def)
  ultimately have "month_lengths y ! (m - 1) \<le> 31" "m - 1 < 12" using ms nth_mem by metis+
  then have "md < 31" "m \<le> 12" using ms by linarith+
  then show thesis
    using that [OF y yd m] ms y m by (simp add: gmtime_def Let_def)
qed

theorem timegm_gmtime: "timegm (gmtime t) = t"
proof (rule gmtime_cases)
  fix y yd m md
  assume y: "split_year 1970 (t div 86400) = (y, yd)" and yd: "yd < days_in_year y"
    and m: "split_month (month_lengths y) 1 yd = (m, md)"
    and g: "gmtime t = \<lparr>tm_year = y, tm_mon = m, tm_mday = md + 1, tm_hour = t mod 86400 div 3600,
       tm_min = t mod 86400 div 60 mod 60, tm_sec = t mod 86400 mod 60\<rparr>"
  note ms = split_month_spec [OF m, unfolded sum_month_lengths, OF yd]
  have "(\<Sum>i\<leftarrow>[1970..<y]. days_in_year i) + sum_list (take (m - 1) (month_lengths y)) + md = t div 86400"
    using ms split_year_spec [OF y] by linarith
  then have "timegm (gmtime t) = t div 86400 * 86400 +
      (t mod 86400 div 3600 * 3600 + t mod 86400 div 60 mod 60 * 60 + t mod 86400 mod 60)"
    by (simp add: timegm_def g)
  moreover have "s div 3600 * 3600 + s div 60 mod 60 * 60 + s mod 60 = s" for s :: nat
  proof -
    have "s div 3600 = s div 60 div 60" by (simp add: div_mult2_eq [symmetric])
    then show ?thesis using div_mult_mod_eq [of s 60] div_mult_mod_eq [of "s div 60" 60] by linarith
  qed
  ultimately show ?thesis by simp
qed

lemma gmtime_inject [simp]: "gmtime s = gmtime t \<longleftrightarrow> s = t"
  by (metis timegm_gmtime)

section \<open>No two seconds print alike\<close>

lemma length_pad: "n < 10 ^ w \<Longrightarrow> 0 < w \<Longrightarrow> length (pad w n) = w"
  using length_show_base_le [of 10 n w] by (simp add: pad_def show_dec_def)

lemma number_of_zeros: "number_of b (replicate k CHR ''0'' @ s) = number_of b s"
proof (induction k)
  case (Suc k)
  have "digit_value CHR ''0'' = 0" by code_simp
  with Suc show ?case by (simp add: number_of_def)
qed simp

lemma number_of_pad [simp]: "number_of 10 (pad w n) = n"
  by (simp add: pad_def number_of_zeros)

lemma pad_inject [simp]: "pad w m = pad w n \<longleftrightarrow> m = n"
  by (metis number_of_pad)

definition fields_small :: "tm \<Rightarrow> bool" where
  "fields_small t = (tm_mon t < 100 \<and> tm_mday t < 100 \<and> tm_hour t < 100 \<and> tm_min t < 100 \<and> tm_sec t < 100)"

lemma gmtime_small: "fields_small (gmtime t)"
proof -
  have "t mod 86400 < 86400" by simp
  then have h: "t mod 86400 div 3600 < 100" by linarith
  have m: "t mod 86400 div 60 mod 60 < 100" and s: "t mod 86400 mod 60 < 100"
    by (rule less_trans [OF mod_less_divisor]; simp)+
  show ?thesis by (rule gmtime_cases [of t]) (use h m s in \<open>simp add: fields_small_def\<close>)
qed

lemma show_dec_year:
  assumes "1000 \<le> n" and "n < 10000"
  shows "length (show_dec n) = 4"
proof -
  have "length (show_dec n) \<le> 4" using length_show_base_le [of 10 n 4] assms by (simp add: show_dec_def)
  moreover have "3 < length (show_dec n)"
  proof (rule ccontr)
    assume "\<not> 3 < length (show_dec n)"
    then have l: "length (show_dec n) \<le> 3" by simp
    have bound: "number_of 10 s < 10 ^ length s" if "\<forall>c\<in>set s. isdigit c" for s
      using that
    proof (induction s rule: rev_induct)
      case (snoc c s)
      then have "number_of 10 s < 10 ^ length s" "digit_value c < 10"
        by (auto simp: digit_value_def isdigit_def)
      then show ?case by (simp add: number_of_append)
    qed (simp add: number_of_def)
    have "number_of 10 (show_dec n) < 10 ^ length (show_dec n)"
      using show_dec_isdigit by (intro bound) blast
    also have "\<dots> \<le> (10 :: nat) ^ 3" using l by (intro power_increasing) simp_all
    finally show False using assms(1) by simp
  qed
  ultimately show ?thesis by simp
qed

lemma tm_eqI:
  "tm_year a = tm_year b \<Longrightarrow> tm_mon a = tm_mon b \<Longrightarrow> tm_mday a = tm_mday b \<Longrightarrow> tm_hour a = tm_hour b
    \<Longrightarrow> tm_min a = tm_min b \<Longrightarrow> tm_sec a = tm_sec b \<Longrightarrow> a = (b :: tm)"
  by (cases a; cases b) simp

lemma iso_time_inject:
  assumes "iso_time a = iso_time b" and "fields_small a" and "fields_small b"
    and "length (show_dec (tm_year a)) = 4" and "length (show_dec (tm_year b)) = 4"
  shows "a = b"
  using assms by (intro tm_eqI) (auto simp: iso_time_def fields_small_def length_pad append_eq_append_conv)

lemma compact_time_inject:
  assumes "compact_time a = compact_time b" and "fields_small a" and "fields_small b"
    and "length (show_dec (tm_year a)) = 4" and "length (show_dec (tm_year b)) = 4"
  shows "a = b"
  using assms by (intro tm_eqI) (auto simp: compact_time_def fields_small_def length_pad append_eq_append_conv)

text \<open>Times below 2^32 lie in the years 1970 to 2106.\<close>

lemma sum_days_ge: "(\<Sum>i\<leftarrow>[a..<b]. days_in_year i) \<ge> 365 * (b - a)"
proof (induction b)
  case (Suc b)
  then show ?case by (cases "a \<le> b") (auto simp: days_in_year_def)
qed simp

lemma gmtime_year:
  assumes "t < 2 ^ 32"
  shows "1000 \<le> tm_year (gmtime t)" and "tm_year (gmtime t) < 10000"
proof -
  obtain y yd where y: "split_year 1970 (t div 86400) = (y, yd)" and g: "tm_year (gmtime t) = y"
    by (rule gmtime_cases [of t]) (metis tm.select_convs(1))
  have y1: "1970 \<le> y" and le: "(\<Sum>i\<leftarrow>[1970..<y]. days_in_year i) \<le> t div 86400"
    using split_year_spec [OF y] by linarith+
  have "t div 86400 < 49711" using assms by simp
  then have "365 * (y - 1970) < 49711" using order_trans [OF sum_days_ge le] by (rule le_less_trans [rotated])
  then have "y < 10000" by linarith
  then show "1000 \<le> tm_year (gmtime t)" "tm_year (gmtime t) < 10000"
    using y1 g by simp_all
qed

end
