(* ===== verification/Register_Extract.thy ===== *)
theory Register_Extract
  imports C_Strings
begin

text \<open>
  \<^verbatim>\<open>daemon/tombstone/register_extract.cpp\<close>: the general purpose registers of a crashed
  thread in display order. The contexts are Breakpad's \<^verbatim>\<open>MDRawContextAMD64\<close> and
  \<^verbatim>\<open>MDRawContextARM64\<close>, restricted to the fields that the sources read.
\<close>

record MDRawContextAMD64 =
  rax :: u64  rbx :: u64  rcx :: u64  rdx :: u64
  rsi :: u64  rdi :: u64  rbp :: u64  rsp :: u64
  r8 :: u64  r9 :: u64  r10 :: u64  r11 :: u64
  r12 :: u64  r13 :: u64  r14 :: u64  r15 :: u64
  rip :: u64

text \<open>\<^verbatim>\<open>iregs\<close> is a C array of 33 words: \<^verbatim>\<open>x0\<close> to \<^verbatim>\<open>x28\<close>, fp, lr, sp and pc.\<close>

record MDRawContextARM64 =
  iregs :: "u64 list"

definition MD_CONTEXT_ARM64_REG_FP :: nat where "MD_CONTEXT_ARM64_REG_FP = 29"
definition MD_CONTEXT_ARM64_REG_LR :: nat where "MD_CONTEXT_ARM64_REG_LR = 30"
definition MD_CONTEXT_ARM64_REG_SP :: nat where "MD_CONTEXT_ARM64_REG_SP = 31"
definition MD_CONTEXT_ARM64_REG_PC :: nat where "MD_CONTEXT_ARM64_REG_PC = 32"

type_synonym registers = "(string \<times> u64) list"

definition ExtractAMD64Regs :: "MDRawContextAMD64 \<Rightarrow> registers" where
  "ExtractAMD64Regs ctx =
     [(''rax'', rax ctx), (''rbx'', rbx ctx), (''rcx'', rcx ctx), (''rdx'', rdx ctx),
      (''rsi'', rsi ctx), (''rdi'', rdi ctx), (''rbp'', rbp ctx), (''rsp'', rsp ctx),
      (''r8'', r8 ctx), (''r9'', r9 ctx), (''r10'', r10 ctx), (''r11'', r11 ctx),
      (''r12'', r12 ctx), (''r13'', r13 ctx), (''r14'', r14 ctx), (''r15'', r15 ctx),
      (''rip'', rip ctx)]"

definition ExtractARM64Regs :: "MDRawContextARM64 \<Rightarrow> registers" where
  "ExtractARM64Regs ctx =
     map (\<lambda>idx. (''x'' @ show_dec idx, iregs ctx ! idx)) [0..<29] @
     [(''fp'', iregs ctx ! MD_CONTEXT_ARM64_REG_FP), (''lr'', iregs ctx ! MD_CONTEXT_ARM64_REG_LR),
      (''sp'', iregs ctx ! MD_CONTEXT_ARM64_REG_SP), (''pc'', iregs ctx ! MD_CONTEXT_ARM64_REG_PC)]"

section \<open>Names\<close>

lemma find_append_skip: "\<forall>x\<in>set xs. \<not> P x \<Longrightarrow> find P (xs @ ys) = find P ys"
  by (induction xs) auto

text \<open>Looking a register up by two names of which at most one belongs to the machine.\<close>

lemma find_arm64:
  assumes "k \<in> {''fp'', ''lr'', ''sp'', ''pc''}" and "k' \<in> {''rip'', ''rsp''}"
  shows "find (\<lambda>(name, val). name = k \<or> name = k') (ExtractARM64Regs ctx) =
    find (\<lambda>(name, val). name = k)
      [(''fp'', iregs ctx ! 29), (''lr'', iregs ctx ! 30), (''sp'', iregs ctx ! 31), (''pc'', iregs ctx ! 32)]"
proof -
  have "\<forall>x\<in>set (map (\<lambda>idx. (''x'' @ show_dec idx, iregs ctx ! idx)) [0..<29]).
      \<not> (case x of (name, val) \<Rightarrow> name = k \<or> name = k')"
    using assms by auto
  from find_append_skip [OF this] show ?thesis
    using assms by (auto simp: ExtractARM64Regs_def MD_CONTEXT_ARM64_REG_FP_def
      MD_CONTEXT_ARM64_REG_LR_def MD_CONTEXT_ARM64_REG_SP_def MD_CONTEXT_ARM64_REG_PC_def)
qed

lemma distinct_register_names:
  "distinct (map fst (ExtractAMD64Regs a))" "distinct (map fst (ExtractARM64Regs b))"
proof -
  show "distinct (map fst (ExtractAMD64Regs a))" by (simp add: ExtractAMD64Regs_def)
  have "distinct (map (\<lambda>i. ''x'' @ show_dec i) [0..<29])" by (simp add: distinct_map inj_on_def)
  then show "distinct (map fst (ExtractARM64Regs b))"
    by (auto simp: ExtractARM64Regs_def comp_def simp del: upt.simps)
qed

end
