(* ===== verification/Minidump_Reader.thy ===== *)
theory Minidump_Reader
  imports File_System Calendar Byte_Cells Register_Extract
begin

text \<open>
  \<^verbatim>\<open>daemon/tombstone/minidump_reader.cpp\<close>: what the daemon takes from a minidump. Breakpad's
  \<^verbatim>\<open>Minidump\<close> class is third-party code: the record \<open>breakpad\<close> holds what its accessors
  return (\<open>None\<close> for a null pointer), and \<^verbatim>\<open>Read\<close> on a file is the parameter
  \<open>breakpad_read\<close> of \<open>ReadMinidump\<close>. The Crashpad annotations are decoded by the source
  itself, and modelled on the bytes.
\<close>

unbundle bit_operations_syntax

section \<open>What the daemon keeps\<close>

record FrameInfo =
  pc :: u64
  module_offset :: u64
  module_path :: string
  frame_build_id :: string

record ThreadInfo =
  tid :: u32
  thread_name :: string
  is_crashing :: bool
  registers :: registers
  frames :: "FrameInfo list"

record ModuleInfo =
  path :: string
  base_address :: u64
  mod_size :: u64
  build_id :: string

record MinidumpInfo =
  pid :: u32
  process_name :: string
  signal_info :: string
  signal_number :: u32
  signal_code :: u32
  fault_addr :: u64
  crashing_tid :: u32
  timestamp :: string
  threads :: "ThreadInfo list"
  modules :: "ModuleInfo list"
  minidump_path :: string
  abort_message :: string
  terminate_type :: string

definition empty_info :: MinidumpInfo where
  "empty_info = \<lparr>pid = 0, process_name = [], signal_info = [], signal_number = 0, signal_code = 0,
     fault_addr = 0, crashing_tid = 0, timestamp = [], threads = [], modules = [],
     minidump_path = [], abort_message = [], terminate_type = []\<rparr>"

section \<open>What Breakpad reports\<close>

record exception_stream =
  exception_code :: u32
  exception_flags :: u32
  exception_address :: u64
  exception_thread_id :: u32

datatype context_cpu = MD_CONTEXT_AMD64 | MD_CONTEXT_ARM64 | MD_CONTEXT_OTHER

record cpu_context =
  context_cpu :: context_cpu
  context_amd64 :: "MDRawContextAMD64 option"
  context_arm64 :: "MDRawContextARM64 option"

record raw_module =
  code_file :: string
  raw_base_address :: u64
  raw_size :: u64
  raw_code_identifier :: string

text \<open>
  \<open>get_context\<close> is \<^verbatim>\<open>GetThreadByID\<close> followed by \<^verbatim>\<open>GetContext\<close> on the thread list; a
  name entry holds the result of \<^verbatim>\<open>GetThreadID\<close> and the name.
\<close>

record breakpad =
  header_time_date_stamp :: "u32 option"
  misc_info :: "(u32 \<times> u32) option"
  exception_of :: "exception_stream option"
  module_list :: "raw_module option list option"
  thread_list :: "(u32 \<Rightarrow> cpu_context option) option"
  thread_name_list :: "(u32 option \<times> string) option list option"

definition MD_MISCINFO_FLAGS1_PROCESS_ID :: u32 where "MD_MISCINFO_FLAGS1_PROCESS_ID = 1"

section \<open>Extraction\<close>

definition FormatTimestamp :: "u32 \<Rightarrow> string" where
  "FormatTimestamp time_date_stamp =
     (let buf = strftime 32 (iso_time (gmtime (unat time_date_stamp))) in
      if buf = [] then ''1970-01-01T00:00:00Z'' else buf)"

definition Basename :: "string \<Rightarrow> string" where
  "Basename p = (if CHR ''/'' \<notin> set p then p else rev (takeWhile (\<lambda>c. c \<noteq> CHR ''/'') (rev p)))"

definition kSigNames :: "u32 \<Rightarrow> string option" where
  "kSigNames = map_of [(4, ''SIGILL''), (6, ''SIGABRT''), (7, ''SIGBUS''), (8, ''SIGFPE''), (11, ''SIGSEGV'')]"

definition kSegvCodes :: "u32 \<Rightarrow> string option" where
  "kSegvCodes = map_of [(1, ''SEGV_MAPERR''), (2, ''SEGV_ACCERR'')]"

definition ExtractExceptionInfo :: "breakpad \<Rightarrow> MinidumpInfo \<Rightarrow> MinidumpInfo" where
  "ExtractExceptionInfo raw info =
     (case exception_of raw of
        None \<Rightarrow> info
      | Some rec \<Rightarrow>
          (let sig = exception_code rec; code = exception_flags rec;
               sig_name = (case kSigNames sig of Some s \<Rightarrow> s
                 | None \<Rightarrow> ''signal '' @ show_dec (unat sig));
               info1 = info\<lparr>signal_number := sig, signal_code := code,
                 fault_addr := exception_address rec, crashing_tid := exception_thread_id rec\<rparr> in
           if sig = 11 \<and> code \<noteq> 0
           then (case kSegvCodes code of
                   Some c \<Rightarrow> info1\<lparr>signal_info := sig_name @ '' / '' @ c\<rparr>
                 | None \<Rightarrow> info1\<lparr>signal_info := sig_name\<rparr>)
           else info1\<lparr>signal_info := sig_name\<rparr>))"

definition ExtractModules :: "breakpad \<Rightarrow> MinidumpInfo \<Rightarrow> MinidumpInfo" where
  "ExtractModules raw info =
     (case module_list raw of
        None \<Rightarrow> info
      | Some ms \<Rightarrow> info\<lparr>modules := modules info @
          [\<lparr>path = code_file m, base_address = raw_base_address m, mod_size = raw_size m,
            build_id = raw_code_identifier m\<rparr>. Some m \<leftarrow> ms]\<rparr>)"

text \<open>The end of a module, \<^verbatim>\<open>base_address + size\<close>, is a 64-bit sum.\<close>

fun MakeFrameFromPC :: "u64 \<Rightarrow> ModuleInfo list \<Rightarrow> FrameInfo" where
  "MakeFrameFromPC program_counter [] =
     \<lparr>pc = program_counter, module_offset = 0, module_path = [], frame_build_id = []\<rparr>"
| "MakeFrameFromPC program_counter (m # ms) =
     (if program_counter \<ge> base_address m \<and> program_counter < base_address m + mod_size m
      then \<lparr>pc = program_counter, module_offset = program_counter - base_address m,
             module_path = path m, frame_build_id = build_id m\<rparr>
      else MakeFrameFromPC program_counter ms)"

definition ExtractRegisters :: "breakpad \<Rightarrow> MinidumpInfo \<Rightarrow> MinidumpInfo" where
  "ExtractRegisters raw info =
     (case threads info of
        [] \<Rightarrow> info
      | t # ts \<Rightarrow>
          if \<not> is_crashing t then info
          else (case thread_list raw of
            None \<Rightarrow> info
          | Some get_context \<Rightarrow>
              (case get_context (crashing_tid info) of
                 None \<Rightarrow> info
               | Some ctx \<Rightarrow>
                   (case context_cpu ctx of
                      MD_CONTEXT_AMD64 \<Rightarrow>
                        (case context_amd64 ctx of
                           None \<Rightarrow> info
                         | Some amd64 \<Rightarrow>
                             info\<lparr>threads := t\<lparr>registers := ExtractAMD64Regs amd64\<rparr> # ts\<rparr>)
                    | MD_CONTEXT_ARM64 \<Rightarrow>
                        (case context_arm64 ctx of
                           None \<Rightarrow> info
                         | Some arm64 \<Rightarrow>
                             info\<lparr>threads := t\<lparr>registers := ExtractARM64Regs arm64\<rparr> # ts\<rparr>)
                    | MD_CONTEXT_OTHER \<Rightarrow> info))))"

text \<open>The name loop: the first entry whose thread id is readable and is the crashing one.\<close>

fun find_thread_name :: "(u32 option \<times> string) option list \<Rightarrow> u32 \<Rightarrow> string option" where
  "find_thread_name [] ct = None"
| "find_thread_name (entry # es) ct =
     (case entry of
        None \<Rightarrow> find_thread_name es ct
      | Some (None, name) \<Rightarrow> find_thread_name es ct
      | Some (Some t, name) \<Rightarrow> if t = ct then Some name else find_thread_name es ct)"

definition ExtractThreadName :: "breakpad \<Rightarrow> MinidumpInfo \<Rightarrow> MinidumpInfo" where
  "ExtractThreadName raw info =
     (case threads info of
        [] \<Rightarrow> info
      | t # ts \<Rightarrow>
          (case thread_name_list raw of
             None \<Rightarrow> info
           | Some names \<Rightarrow>
               (case find_thread_name names (crashing_tid info) of
                  None \<Rightarrow> info
                | Some n \<Rightarrow> info\<lparr>threads := t\<lparr>thread_name := n\<rparr> # ts\<rparr>)))"

section \<open>Crashpad annotations\<close>

definition ReadU32Le :: "bytes \<Rightarrow> nat \<Rightarrow> u32" where
  "ReadU32Le buf offset =
     (if offset + 4 > length buf then 0 else word_of_nat (le_nat (sub_bytes offset 4 buf)))"

text \<open>
  \<^verbatim>\<open>std::string(buf, pos, n)\<close> takes at most the \<open>n\<close> characters from \<open>pos\<close> on; the check
  on \<^verbatim>\<open>rva + 4\<close> keeps \<open>pos\<close> inside, so it does not throw.
\<close>

definition ReadUtf8Str :: "bytes \<Rightarrow> u32 \<Rightarrow> string" where
  "ReadUtf8Str buf rva =
     (if rva = 0 \<or> unat (rva + 4) > length buf then []
      else let len = ReadU32Le buf (unat rva) in
        if len = 0 \<or> unat (rva + 4 + len) > length buf then []
        else map char_of_byte (sub_bytes (unat (rva + 4)) (unat len) buf))"

definition kCrashpadInfoType :: u32 where "kCrashpadInfoType = 0x43500007"

text \<open>The offsets of directory and dictionary entries are 32-bit sums.\<close>

function find_crashpad_stream :: "bytes \<Rightarrow> u32 \<Rightarrow> nat \<Rightarrow> nat \<Rightarrow> u32" where
  "find_crashpad_stream buf dir_rva stream_count i =
     (if i < stream_count then
        (let entry_off = dir_rva + word_of_nat i * 12 in
         if unat (entry_off + 12) > length buf then 0
         else if ReadU32Le buf (unat entry_off) = kCrashpadInfoType
         then ReadU32Le buf (unat (entry_off + 8))
         else find_crashpad_stream buf dir_rva stream_count (Suc i))
      else 0)"
  by pat_completeness auto
termination
  by (relation "measure (\<lambda>(buf, rva, n, i). n - i)") auto

declare find_crashpad_stream.simps [simp del]

definition store_annotation :: "string \<Rightarrow> string \<Rightarrow> MinidumpInfo \<Rightarrow> MinidumpInfo" where
  "store_annotation key val info =
     (if key = ''abort_message'' then info\<lparr>abort_message := val\<rparr>
      else if key = ''terminate_type'' then info\<lparr>terminate_type := val\<rparr> else info)"

function read_annotations :: "bytes \<Rightarrow> u32 \<Rightarrow> nat \<Rightarrow> nat \<Rightarrow> MinidumpInfo \<Rightarrow> MinidumpInfo" where
  "read_annotations buf dict_rva cnt i info =
     (if i < cnt then
        (let entry_off = dict_rva + 4 + word_of_nat i * 8 in
         if unat (entry_off + 8) > length buf then info
         else read_annotations buf dict_rva cnt (Suc i)
           (store_annotation (ReadUtf8Str buf (ReadU32Le buf (unat entry_off)))
              (ReadUtf8Str buf (ReadU32Le buf (unat (entry_off + 4)))) info))
      else info)"
  by pat_completeness auto
termination
  by (relation "measure (\<lambda>(buf, rva, n, i, info). n - i)") auto

declare read_annotations.simps [simp del]

definition ExtractCrashpadAnnotations :: "string \<Rightarrow> world \<Rightarrow> MinidumpInfo \<Rightarrow> MinidumpInfo" where
  "ExtractCrashpadAnnotations p w info =
     (case read_file p w of
        None \<Rightarrow> info
      | Some buf \<Rightarrow>
          if length buf < 32 \<or> ReadU32Le buf 0 \<noteq> 0x504d444d then info
          else let stream_rva = find_crashpad_stream buf (ReadU32Le buf 12) (unat (ReadU32Le buf 8)) 0 in
            if stream_rva = 0 \<or> unat (stream_rva + 44) > length buf \<or>
               ReadU32Le buf (unat stream_rva) \<noteq> 1
            then info
            else let dict_size = ReadU32Le buf (unat (stream_rva + 36));
                     dict_rva = ReadU32Le buf (unat (stream_rva + 40)) in
              if dict_rva = 0 \<or> dict_size < 4 \<or> unat (dict_rva + dict_size) > length buf then info
              else read_annotations buf dict_rva (unat (ReadU32Le buf (unat dict_rva))) 0 info)"

section \<open>ReadMinidump\<close>

definition program_counter_of :: "registers \<Rightarrow> u64" where
  "program_counter_of regs =
     (case find (\<lambda>(name, val). name = ''pc'' \<or> name = ''rip'') regs of
        Some (name, val) \<Rightarrow> val | None \<Rightarrow> 0)"

definition add_crashing_thread :: "breakpad \<Rightarrow> MinidumpInfo \<Rightarrow> MinidumpInfo" where
  "add_crashing_thread raw info =
     (if crashing_tid info = 0 then info
      else
        (let thread = \<lparr>tid = crashing_tid info, thread_name = [], is_crashing = True,
               registers = [], frames = []\<rparr>;
             info1 = ExtractRegisters raw (info\<lparr>threads := threads info @ [thread]\<rparr>);
             t = hd (threads info1); program_counter = program_counter_of (registers t);
             info2 = (if program_counter \<noteq> 0
               then info1\<lparr>threads := t\<lparr>frames := frames t @
                      [MakeFrameFromPC program_counter (modules info1)]\<rparr> # tl (threads info1)\<rparr>
               else info1) in
         ExtractThreadName raw info2))"

definition ReadMinidump ::
  "(world \<Rightarrow> string \<Rightarrow> breakpad option) \<Rightarrow> string \<Rightarrow> world \<Rightarrow> MinidumpInfo status_or"
where
  "ReadMinidump breakpad_read p w =
     (case breakpad_read w p of
        None \<Rightarrow> Inl (Error InternalError (''Failed to read minidump: '' @ p) 0)
      | Some raw \<Rightarrow>
          (let info = empty_info\<lparr>minidump_path := p\<rparr>;
               info1 = (case header_time_date_stamp raw of
                 None \<Rightarrow> info | Some t \<Rightarrow> info\<lparr>timestamp := FormatTimestamp t\<rparr>);
               info2 = (case misc_info raw of
                 None \<Rightarrow> info1
               | Some (flags1, process_id) \<Rightarrow>
                   if flags1 AND MD_MISCINFO_FLAGS1_PROCESS_ID \<noteq> 0 then info1\<lparr>pid := process_id\<rparr>
                   else info1);
               info3 = ExtractModules raw (ExtractExceptionInfo raw info2);
               info4 = (case modules info3 of
                 [] \<Rightarrow> info3 | m # ms \<Rightarrow> info3\<lparr>process_name := Basename (path m)\<rparr>) in
           Inr (ExtractCrashpadAnnotations p w (add_crashing_thread raw info4))))"

section \<open>Timestamps\<close>

text \<open>
  Every 32-bit header time formats to 20 characters, and two different times never
  format alike.
\<close>

theorem FormatTimestamp_injective:
  "length (FormatTimestamp a) = 20 \<and> (FormatTimestamp a = FormatTimestamp b \<longleftrightarrow> a = b)"
proof -
  have t: "unat (t :: u32) < 2 ^ 32" for t using unat_u32_less [of t] by simp
  note y = show_dec_year [OF gmtime_year [OF t]]
  have l: "length (iso_time (gmtime (unat t))) = 20" for t :: u32
    using gmtime_small [of "unat t"] by (simp add: iso_time_def fields_small_def length_pad y)
  have f: "FormatTimestamp t = iso_time (gmtime (unat t))" for t
    using l [of t] by (auto simp: FormatTimestamp_def strftime_def Let_def)
  have "FormatTimestamp a = FormatTimestamp b \<Longrightarrow> a = b"
    using iso_time_inject [OF _ gmtime_small gmtime_small y y] by (simp add: f word_unat_eq_iff)
  then show ?thesis using l by (auto simp: f)
qed

section \<open>The frame of the program counter\<close>

definition module_covers :: "ModuleInfo \<Rightarrow> u64 \<Rightarrow> bool" where
  "module_covers m a = (unat (base_address m) \<le> unat a \<and> unat a < unat (base_address m) + unat (mod_size m))"

text \<open>
  When no module reaches past the end of the address space, the frame of a program
  counter names the first module that covers it, with the distance from its base and its
  build id; a program counter that no module covers gives a frame without module.
\<close>

theorem MakeFrameFromPC_spec:
  assumes "\<forall>m\<in>set ms. unat (base_address m) + unat (mod_size m) < 2 ^ 64"
  shows "MakeFrameFromPC a ms =
    (case find (\<lambda>m. module_covers m a) ms of
       None \<Rightarrow> \<lparr>pc = a, module_offset = 0, module_path = [], frame_build_id = []\<rparr>
     | Some m \<Rightarrow> \<lparr>pc = a, module_offset = word_of_nat (unat a - unat (base_address m)),
         module_path = path m, frame_build_id = build_id m\<rparr>)"
  using assms
proof (induction ms)
  case (Cons m ms)
  have "unat (base_address m + mod_size m) = unat (base_address m) + unat (mod_size m)"
    using Cons.prems by (intro unat_add_no_wrap) simp
  then have c: "base_address m \<le> a \<and> a < base_address m + mod_size m \<longleftrightarrow> module_covers m a"
    by (simp add: module_covers_def word_le_nat_alt word_less_nat_alt)
  have "a - base_address m = word_of_nat (unat a - unat (base_address m))" if "module_covers m a"
    using that by (simp add: module_covers_def of_nat_diff)
  then show ?case using Cons c by auto
qed simp

theorem MakeFrameFromPC_spec_witness:
  "MakeFrameFromPC 0x1010 [\<lparr>path = ''/bin/a'', base_address = 0x1000, mod_size = 0x100, build_id = ''ab''\<rparr>]
   = \<lparr>pc = 0x1010, module_offset = 0x10, module_path = ''/bin/a'', frame_build_id = ''ab''\<rparr>"
  by (subst MakeFrameFromPC_spec) (simp_all add: module_covers_def)

section \<open>The crashing thread\<close>

text \<open>The pieces that do not touch the threads.\<close>

lemma threads_kept [simp]:
  "threads (ExtractExceptionInfo raw info) = threads info"
  "threads (ExtractModules raw info) = threads info"
  "crashing_tid (ExtractModules raw info) = crashing_tid info"
  "threads (store_annotation k v info) = threads info"
  "modules (store_annotation k v info) = modules info"
  "crashing_tid (store_annotation k v info) = crashing_tid info"
  by (auto simp: ExtractExceptionInfo_def ExtractModules_def store_annotation_def Let_def split: option.split)

lemma read_annotations_kept [simp]:
  "threads (read_annotations buf rva n i info) = threads info"
  "modules (read_annotations buf rva n i info) = modules info"
  "crashing_tid (read_annotations buf rva n i info) = crashing_tid info"
  by (induction buf rva n i info rule: read_annotations.induct; subst read_annotations.simps; simp add: Let_def)+

lemma annotations_kept [simp]:
  "threads (ExtractCrashpadAnnotations p w info) = threads info"
  "modules (ExtractCrashpadAnnotations p w info) = modules info"
  "crashing_tid (ExtractCrashpadAnnotations p w info) = crashing_tid info"
  by (simp_all add: ExtractCrashpadAnnotations_def Let_def split: option.split)


text \<open>The registers that the context of a thread gives.\<close>

definition registers_of :: "breakpad \<Rightarrow> u32 \<Rightarrow> registers" where
  "registers_of raw t =
     (case Option.bind (thread_list raw) (\<lambda>get_context. get_context t) of
        None \<Rightarrow> []
      | Some ctx \<Rightarrow>
          (case context_cpu ctx of
             MD_CONTEXT_AMD64 \<Rightarrow> (case context_amd64 ctx of None \<Rightarrow> [] | Some c \<Rightarrow> ExtractAMD64Regs c)
           | MD_CONTEXT_ARM64 \<Rightarrow> (case context_arm64 ctx of None \<Rightarrow> [] | Some c \<Rightarrow> ExtractARM64Regs c)
           | MD_CONTEXT_OTHER \<Rightarrow> []))"

lemma ExtractRegisters_thread:
  assumes "is_crashing t" and "registers t = []"
  shows "ExtractRegisters raw (info\<lparr>threads := [t]\<rparr>) =
    info\<lparr>threads := [t\<lparr>registers := registers_of raw (crashing_tid info)\<rparr>]\<rparr>"
proof -
  have "t\<lparr>registers := []\<rparr> = t" using assms(2) by (cases t) simp
  then show ?thesis
    using assms(1) by (simp add: ExtractRegisters_def registers_of_def split: option.split context_cpu.split)
qed

lemma program_counter_amd64: "program_counter_of (ExtractAMD64Regs c) = rip c"
  by (simp add: program_counter_of_def ExtractAMD64Regs_def)

lemma program_counter_arm64: "program_counter_of (ExtractARM64Regs c) = iregs c ! 32"
  unfolding program_counter_of_def by (subst find_arm64) simp_all

lemma add_crashing_thread_spec:
  fixes raw info
  assumes "threads info = []" and "crashing_tid info \<noteq> 0"
  defines "pcv \<equiv> program_counter_of (registers_of raw (crashing_tid info))"
  shows "\<exists>name. add_crashing_thread raw info = info\<lparr>threads := [\<lparr>tid = crashing_tid info,
    thread_name = name, is_crashing = True, registers = registers_of raw (crashing_tid info),
    frames = (if pcv = 0 then [] else [MakeFrameFromPC pcv (modules info)])\<rparr>]\<rparr>"
proof -
  let ?t = "\<lparr>tid = crashing_tid info, thread_name = [], is_crashing = True, registers = [], frames = []\<rparr>"
  define t1 where "t1 = ?t\<lparr>registers := registers_of raw (crashing_tid info),
    frames := (if pcv = 0 then [] else [MakeFrameFromPC pcv (modules info)])\<rparr>"
  have r: "ExtractRegisters raw (info\<lparr>threads := [?t]\<rparr>) =
      info\<lparr>threads := [?t\<lparr>registers := registers_of raw (crashing_tid info)\<rparr>]\<rparr>"
    by (rule ExtractRegisters_thread) simp_all
  have "add_crashing_thread raw info = ExtractThreadName raw (info\<lparr>threads := [t1]\<rparr>)"
    using assms(1,2) by (simp add: add_crashing_thread_def r Let_def t1_def pcv_def)
  also have "\<exists>name. ExtractThreadName raw (info\<lparr>threads := [t1]\<rparr>) = info\<lparr>threads := [t1\<lparr>thread_name := name\<rparr>]\<rparr>"
  proof -
    have "t1\<lparr>thread_name := []\<rparr> = t1" by (simp add: t1_def)
    then show ?thesis
      unfolding ExtractThreadName_def by (auto split: option.split intro: exI [of _ "[]"])
  qed
  finally show ?thesis by (auto simp: t1_def)
qed

text \<open>What the parsed dump says about a thread and the modules, in its own terms.\<close>

definition context_pc :: "breakpad \<Rightarrow> u32 \<Rightarrow> u64" where
  "context_pc raw t =
     (case Option.bind (thread_list raw) (\<lambda>get_context. get_context t) of
        None \<Rightarrow> 0
      | Some ctx \<Rightarrow>
          (case context_cpu ctx of
             MD_CONTEXT_AMD64 \<Rightarrow> (case context_amd64 ctx of None \<Rightarrow> 0 | Some c \<Rightarrow> rip c)
           | MD_CONTEXT_ARM64 \<Rightarrow> (case context_arm64 ctx of None \<Rightarrow> 0 | Some c \<Rightarrow> iregs c ! 32)
           | MD_CONTEXT_OTHER \<Rightarrow> 0))"

definition loaded_modules :: "breakpad \<Rightarrow> ModuleInfo list" where
  "loaded_modules raw =
     (case module_list raw of None \<Rightarrow> []
      | Some ms \<Rightarrow> [\<lparr>path = code_file m, base_address = raw_base_address m, mod_size = raw_size m,
          build_id = raw_code_identifier m\<rparr>. Some m \<leftarrow> ms])"

definition name_of_thread :: "breakpad \<Rightarrow> u32 \<Rightarrow> string" where
  "name_of_thread raw t =
     (case thread_name_list raw of None \<Rightarrow> []
      | Some names \<Rightarrow> (case find (\<lambda>e. \<exists>n. e = Some (Some t, n)) names of Some (Some (_, n)) \<Rightarrow> n | _ \<Rightarrow> []))"

definition frame_in :: "ModuleInfo list \<Rightarrow> u64 \<Rightarrow> FrameInfo" where
  "frame_in ms a =
     (case find (\<lambda>m. module_covers m a) ms of
        None \<Rightarrow> \<lparr>pc = a, module_offset = 0, module_path = [], frame_build_id = []\<rparr>
      | Some m \<Rightarrow> \<lparr>pc = a, module_offset = word_of_nat (unat a - unat (base_address m)),
          module_path = path m, frame_build_id = build_id m\<rparr>)"

definition thread_of :: "breakpad \<Rightarrow> u32 \<Rightarrow> ThreadInfo" where
  "thread_of raw t =
     \<lparr>tid = t, thread_name = name_of_thread raw t, is_crashing = True, registers = registers_of raw t,
      frames = (if context_pc raw t = 0 then [] else [frame_in (loaded_modules raw) (context_pc raw t)])\<rparr>"

lemma program_counter_context: "program_counter_of (registers_of raw t) = context_pc raw t"
  by (auto simp: registers_of_def context_pc_def program_counter_amd64 program_counter_arm64 program_counter_of_def [of "[]"]
      split: option.split context_cpu.split)

lemma find_thread_name_spec:
  "find_thread_name names t = (case find (\<lambda>e. \<exists>n. e = Some (Some t, n)) names of Some (Some (_, n)) \<Rightarrow> Some n | _ \<Rightarrow> None)"
  by (induction names) (auto split: option.splits prod.splits)

lemma MakeFrameFromPC_in:
  "\<forall>m\<in>set ms. unat (base_address m) + unat (mod_size m) < 2 ^ 64 \<Longrightarrow> MakeFrameFromPC a ms = frame_in ms a"
  unfolding frame_in_def by (rule MakeFrameFromPC_spec)

lemma ExtractThreadName_spec:
  assumes "thread_name t = []"
  shows "ExtractThreadName raw (info\<lparr>threads := [t]\<rparr>) =
    info\<lparr>threads := [t\<lparr>thread_name := name_of_thread raw (crashing_tid info)\<rparr>]\<rparr>"
proof -
  have "t\<lparr>thread_name := []\<rparr> = t" using assms by (cases t) simp
  then show ?thesis
    by (auto simp: ExtractThreadName_def name_of_thread_def find_thread_name_spec split: option.split)
qed

lemma add_crashing_thread_eq:
  assumes "threads info = []" and "modules info = loaded_modules raw"
    and "\<forall>m\<in>set (loaded_modules raw). unat (base_address m) + unat (mod_size m) < 2 ^ 64"
  shows "add_crashing_thread raw info =
    (if crashing_tid info = 0 then info else info\<lparr>threads := [thread_of raw (crashing_tid info)]\<rparr>)"
proof (cases "crashing_tid info = 0")
  case False
  let ?c = "crashing_tid info"
  let ?t = "\<lparr>tid = ?c, thread_name = [], is_crashing = True, registers = [], frames = []\<rparr>"
  let ?t1 = "?t\<lparr>registers := registers_of raw ?c\<rparr>"
  let ?t2 = "?t1\<lparr>frames := (if context_pc raw ?c = 0 then [] else [frame_in (loaded_modules raw) (context_pc raw ?c)])\<rparr>"
  have r: "ExtractRegisters raw (info\<lparr>threads := [?t]\<rparr>) = info\<lparr>threads := [?t1]\<rparr>"
    by (rule ExtractRegisters_thread) simp_all
  have "add_crashing_thread raw info = ExtractThreadName raw (info\<lparr>threads := [?t2]\<rparr>)"
    using assms(1,2) False
    by (simp add: add_crashing_thread_def r Let_def program_counter_context MakeFrameFromPC_in [OF assms(3)])
  also have "\<dots> = info\<lparr>threads := [?t2\<lparr>thread_name := name_of_thread raw ?c\<rparr>]\<rparr>"
    by (rule ExtractThreadName_spec) simp
  finally show ?thesis using False by (simp add: thread_of_def)
qed (simp add: add_crashing_thread_def)

text \<open>The info before the threads and the annotations are added.\<close>

definition base_info :: "breakpad \<Rightarrow> string \<Rightarrow> MinidumpInfo" where
  "base_info raw p =
     (let info = empty_info\<lparr>minidump_path := p\<rparr>;
          info1 = (case header_time_date_stamp raw of
            None \<Rightarrow> info | Some t \<Rightarrow> info\<lparr>timestamp := FormatTimestamp t\<rparr>) in
      case misc_info raw of
        None \<Rightarrow> info1
      | Some (flags1, process_id) \<Rightarrow>
          if flags1 AND MD_MISCINFO_FLAGS1_PROCESS_ID \<noteq> 0 then info1\<lparr>pid := process_id\<rparr> else info1)"

definition header_info :: "breakpad \<Rightarrow> string \<Rightarrow> MinidumpInfo" where
  "header_info raw p =
     (let info3 = ExtractModules raw (ExtractExceptionInfo raw (base_info raw p)) in
      case modules info3 of [] \<Rightarrow> info3 | m # ms \<Rightarrow> info3\<lparr>process_name := Basename (path m)\<rparr>)"

lemma ReadMinidump_eq:
  "ReadMinidump br p w =
    (case br w p of
       None \<Rightarrow> Inl (Error InternalError (''Failed to read minidump: '' @ p) 0)
     | Some raw \<Rightarrow> Inr (ExtractCrashpadAnnotations p w (add_crashing_thread raw (header_info raw p))))"
  by (simp add: ReadMinidump_def header_info_def base_info_def Let_def split: option.split)

lemma base_info_fields:
  "threads (base_info raw p) = [] \<and> modules (base_info raw p) = [] \<and> minidump_path (base_info raw p) = p \<and>
   process_name (base_info raw p) = [] \<and> crashing_tid (base_info raw p) = 0 \<and> signal_number (base_info raw p) = 0 \<and>
   signal_code (base_info raw p) = 0 \<and> fault_addr (base_info raw p) = 0"
proof -
  define info1 where "info1 = (case header_time_date_stamp raw of
    None \<Rightarrow> empty_info\<lparr>minidump_path := p\<rparr> | Some t \<Rightarrow> empty_info\<lparr>minidump_path := p, timestamp := FormatTimestamp t\<rparr>)"
  have "threads info1 = [] \<and> modules info1 = [] \<and> minidump_path info1 = p \<and> process_name info1 = [] \<and>
      crashing_tid info1 = 0 \<and> signal_number info1 = 0 \<and> signal_code info1 = 0 \<and> fault_addr info1 = 0"
    by (simp add: info1_def empty_info_def split: option.split)
  moreover have "base_info raw p = (case misc_info raw of None \<Rightarrow> info1 | Some (flags1, process_id) \<Rightarrow>
      if flags1 AND MD_MISCINFO_FLAGS1_PROCESS_ID \<noteq> 0 then info1\<lparr>pid := process_id\<rparr> else info1)"
    by (simp add: base_info_def info1_def Let_def split: option.split)
  ultimately show ?thesis by (simp split: option.split)
qed

lemma exception_fields:
  "signal_number (ExtractExceptionInfo raw info) = (case exception_of raw of Some e \<Rightarrow> exception_code e | None \<Rightarrow> signal_number info)"
  "signal_code (ExtractExceptionInfo raw info) = (case exception_of raw of Some e \<Rightarrow> exception_flags e | None \<Rightarrow> signal_code info)"
  "fault_addr (ExtractExceptionInfo raw info) = (case exception_of raw of Some e \<Rightarrow> exception_address e | None \<Rightarrow> fault_addr info)"
  "crashing_tid (ExtractExceptionInfo raw info) = (case exception_of raw of Some e \<Rightarrow> exception_thread_id e | None \<Rightarrow> crashing_tid info)"
  "modules (ExtractExceptionInfo raw info) = modules info" "process_name (ExtractExceptionInfo raw info) = process_name info"
  "minidump_path (ExtractExceptionInfo raw info) = minidump_path info"
  by (simp_all add: ExtractExceptionInfo_def Let_def split: option.split)

lemma ExtractModules_eq: "modules info = [] \<Longrightarrow> ExtractModules raw info = info\<lparr>modules := loaded_modules raw\<rparr>"
  by (cases info) (simp add: ExtractModules_def loaded_modules_def split: option.split)

lemma header_info_eq:
  "header_info raw p = (ExtractExceptionInfo raw (base_info raw p))\<lparr>modules := loaded_modules raw,
     process_name := (case loaded_modules raw of [] \<Rightarrow> [] | m # ms \<Rightarrow> Basename (path m))\<rparr>"
proof -
  let ?i = "ExtractExceptionInfo raw (base_info raw p)"
  have i: "modules ?i = []" "process_name ?i = []" using base_info_fields by (simp_all add: exception_fields)
  have "x\<lparr>process_name := []\<rparr> = x" if "process_name x = []" for x :: MinidumpInfo using that by (cases x) simp
  then show ?thesis
    using i by (simp add: header_info_def Let_def ExtractModules_eq split: list.split)
qed

lemma header_info_fields:
  "threads (header_info raw p) = []" "modules (header_info raw p) = loaded_modules raw"
  "minidump_path (header_info raw p) = p"
  "process_name (header_info raw p) = (case loaded_modules raw of [] \<Rightarrow> [] | m # ms \<Rightarrow> Basename (path m))"
  "crashing_tid (header_info raw p) = (case exception_of raw of Some e \<Rightarrow> exception_thread_id e | None \<Rightarrow> 0)"
  "signal_number (header_info raw p) = (case exception_of raw of Some e \<Rightarrow> exception_code e | None \<Rightarrow> 0)"
  "signal_code (header_info raw p) = (case exception_of raw of Some e \<Rightarrow> exception_flags e | None \<Rightarrow> 0)"
  "fault_addr (header_info raw p) = (case exception_of raw of Some e \<Rightarrow> exception_address e | None \<Rightarrow> 0)"
  by (simp_all add: header_info_eq exception_fields base_info_fields split: option.split)

lemma read_annotations_other:
  "read_annotations buf rva n i info =
    info\<lparr>abort_message := abort_message (read_annotations buf rva n i info),
      terminate_type := terminate_type (read_annotations buf rva n i info)\<rparr>"
proof (induction buf rva n i info rule: read_annotations.induct)
  case (1 buf dict_rva cnt i info)
  note IH = 1
  show ?case
  proof (cases "i < cnt \<and> \<not> unat (dict_rva + 4 + word_of_nat i * 8 + 8) > length buf")
    case True
    define info' where "info' = store_annotation (ReadUtf8Str buf (ReadU32Le buf (unat (dict_rva + 4 + word_of_nat i * 8))))
      (ReadUtf8Str buf (ReadU32Le buf (unat (dict_rva + 4 + word_of_nat i * 8 + 4)))) info"
    have step: "read_annotations buf dict_rva cnt i info = read_annotations buf dict_rva cnt (Suc i) info'"
      using True by (subst read_annotations.simps) (simp add: Let_def info'_def)
    have other: "info'\<lparr>abort_message := a, terminate_type := t\<rparr> = info\<lparr>abort_message := a, terminate_type := t\<rparr>" for a t
      by (simp add: info'_def store_annotation_def)
    have "read_annotations buf dict_rva cnt (Suc i) info' =
        info'\<lparr>abort_message := abort_message (read_annotations buf dict_rva cnt (Suc i) info'),
          terminate_type := terminate_type (read_annotations buf dict_rva cnt (Suc i) info')\<rparr>"
      unfolding info'_def using True by (intro IH) simp_all
    then show ?thesis unfolding step by (rule trans [OF _ other])
  next
    case False
    then have "read_annotations buf dict_rva cnt i info = info" by (subst read_annotations.simps) (auto simp: Let_def)
    then show ?thesis by simp
  qed
qed

lemma annotations_other:
  "ExtractCrashpadAnnotations p w info =
    info\<lparr>abort_message := abort_message (ExtractCrashpadAnnotations p w info),
      terminate_type := terminate_type (ExtractCrashpadAnnotations p w info)\<rparr>"
  unfolding ExtractCrashpadAnnotations_def Let_def
  by (auto split: option.split intro: read_annotations_other)


definition read_example :: breakpad where
  "read_example = \<lparr>header_time_date_stamp = None, misc_info = None,
     exception_of = Some \<lparr>exception_code = 11, exception_flags = 1, exception_address = 0, exception_thread_id = 7\<rparr>,
     module_list = Some [Some \<lparr>code_file = ''/bin/a'', raw_base_address = 0x1000, raw_size = 0x100, raw_code_identifier = ''ab''\<rparr>],
     thread_list = Some (\<lambda>t. if t = 7 then Some \<lparr>context_cpu = MD_CONTEXT_AMD64,
       context_amd64 = Some \<lparr>rax = 1, rbx = 2, rcx = 3, rdx = 4, rsi = 5, rdi = 6, rbp = 7, rsp = 0x7ffc1000, r8 = 8, r9 = 9,
         r10 = 10, r11 = 11, r12 = 12, r13 = 13, r14 = 14, r15 = 15, rip = 0x1010\<rparr>, context_arm64 = None\<rparr> else None),
     thread_name_list = Some [None, Some (Some 6, ''main''), Some (Some 7, ''worker'')]\<rparr>"


interpretation le: u32_cells ReadU32Le
  by unfold_locales (simp add: ReadU32Le_def)

end
