(* ===== verification/Tombstone_Formatter.thy ===== *)
theory Tombstone_Formatter
  imports Minidump_Reader
begin

text \<open>
  \<^verbatim>\<open>daemon/tombstone/tombstone_formatter.cpp\<close>: the text that the daemon prints for a crash.
  The dash in the probable causes is the three bytes of its UTF-8 encoding.
\<close>

definition kTopSeparator :: string where
  "kTopSeparator = ''*** *** *** *** *** CRASH DETECTED *** *** *** *** *** ***''"

definition kBottomSeparator :: string where
  "kBottomSeparator = ''*** *** *** *** *** END OF CRASH *** *** *** *** *** ***''"

abbreviation newline :: string where "newline \<equiv> [CHR 0x0A]"
abbreviation dash :: string where "dash \<equiv> [CHR 0xE2, CHR 0x80, CHR 0x94]"
abbreviation quote1 :: string where "quote1 \<equiv> [CHR 0x27]"

definition SplitSignalInfo :: "string \<Rightarrow> string \<times> string" where
  "SplitSignalInfo s =
     (case find_sub '' / '' s of
        None \<Rightarrow> (s, [])
      | Some pos \<Rightarrow> (take pos s, drop (pos + 3) s))"

definition FormatProbableCause :: "u32 \<Rightarrow> u64 \<Rightarrow> u64 \<Rightarrow> u64 \<Rightarrow> string" where
  "FormatProbableCause signo fault prog_ctr stack_ptr =
     (if signo = 11 then
        if fault < 0x1000 then
          if fault = 0 then ''null pointer dereference''
          else ''null pointer dereference '' @ dash @ '' access at offset 0x'' @ show_hex (unat fault)
        else if fault = prog_ctr then
          ''execute fault '' @ dash @ '' non-executable memory at pc '' @
          ''(corrupt function pointer, smashed stack, or ROP)''
        else if stack_ptr \<noteq> 0 then
          (let delta = (if fault > stack_ptr then fault - stack_ptr else stack_ptr - fault) in
           if delta < 65536
           then ''stack overflow '' @ dash @ '' fault address 0x'' @ show_hex (unat fault) @
             '' is near stack pointer''
           else [])
        else []
      else if signo = 6 then ''abort() or assert() failure, or glibc heap corruption detected''
      else if signo = 7 then ''misaligned memory access or truncated mmap file''
      else if signo = 4 then ''illegal instruction '' @ dash @ '' corrupt code page or bad function pointer''
      else if signo = 8 then ''arithmetic exception '' @ dash @ '' integer division by zero or overflow''
      else [])"

definition ExtractStackPtr :: "registers \<Rightarrow> u64" where
  "ExtractStackPtr regs =
     (case find (\<lambda>(name, val). name = ''sp'' \<or> name = ''rsp'') regs of
        Some (name, val) \<Rightarrow> val | None \<Rightarrow> 0)"

section \<open>The lines\<close>

definition header_line :: "MinidumpInfo \<Rightarrow> string" where
  "header_line info =
     (let shown = (case threads info of
            t # _ \<Rightarrow> if thread_name t \<noteq> [] then thread_name t else process_name info
          | [] \<Rightarrow> process_name info) in
      ''process: '' @ process_name info @ '' (pid '' @ show_dec (unat (pid info)) @ '')  '' @
      ''thread: '' @ shown @ '' (tid '' @ show_dec (unat (crashing_tid info)) @ '')'' @ newline)"

definition signal_line :: "MinidumpInfo \<Rightarrow> string" where
  "signal_line info =
     (let (sig_name, code_name) = SplitSignalInfo (signal_info info);
          hex_addr = ''0x'' @ show_hex16 (unat (fault_addr info)) in
      if code_name = []
      then ''signal '' @ show_dec (unat (signal_number info)) @ '' ('' @ sig_name @
        ''), fault addr '' @ hex_addr @ newline
      else ''signal '' @ show_dec (unat (signal_number info)) @ '' ('' @ sig_name @
        ''), code '' @ show_dec (unat (signal_code info)) @ '' ('' @ code_name @
        ''), fault addr '' @ hex_addr @ newline)"

definition abort_line :: "MinidumpInfo \<Rightarrow> string" where
  "abort_line info =
     (if abort_message info = [] then []
      else if terminate_type info \<noteq> []
      then ''Abort message: '' @ quote1 @ terminate_type info @ '': '' @ abort_message info @ quote1 @ newline
      else ''Abort message: '' @ quote1 @ abort_message info @ quote1 @ newline)"

definition cause_line :: "MinidumpInfo \<Rightarrow> string" where
  "cause_line info =
     (case threads info of
        [] \<Rightarrow> []
      | t # _ \<Rightarrow>
          if \<not> is_crashing t then []
          else let stack_ptr = ExtractStackPtr (registers t);
                   prog_ctr = (case frames t of [] \<Rightarrow> 0 | f # _ \<Rightarrow> pc f);
                   cause = FormatProbableCause (signal_number info) (fault_addr info) prog_ctr stack_ptr in
            if cause \<noteq> [] then ''probable cause: '' @ cause @ newline else [])"

definition pc_line :: "MinidumpInfo \<Rightarrow> string" where
  "pc_line info =
     (case threads info of
        [] \<Rightarrow> []
      | t # _ \<Rightarrow>
          (case frames t of
             [] \<Rightarrow> []
           | frame # _ \<Rightarrow>
               if \<not> is_crashing t then []
               else newline @
                 (if module_path frame = []
                  then ''pc 0x'' @ show_hex16 (unat (pc frame)) @ ''  ???'' @ newline
                  else if frame_build_id frame \<noteq> []
                  then ''pc 0x'' @ show_hex16 (unat (module_offset frame)) @ ''  '' @ module_path frame @
                    '' (BuildId: '' @ frame_build_id frame @ '')'' @ newline
                  else ''pc 0x'' @ show_hex16 (unat (module_offset frame)) @ ''  '' @
                    module_path frame @ newline)))"

definition FormatTombstone :: "MinidumpInfo \<Rightarrow> string" where
  "FormatTombstone info =
     kTopSeparator @ newline @ header_line info @ signal_line info @ abort_line info @ cause_line info @
     ''timestamp: '' @ timestamp info @ newline @ pc_line info @
     newline @ ''minidump saved to: '' @ minidump_path info @ newline @ kBottomSeparator @ newline"

section \<open>Signal names\<close>

lemma find_sub_first:
  assumes "find_sub pat (a @ pat @ b) = Some j" and "\<forall>k < length a. \<not> has_prefix pat (drop k (a @ pat @ b))"
  shows "j = length a"
proof -
  obtain x y where xy: "a @ pat @ b = x @ pat @ y" "j = length x"
    "\<forall>k < length x. \<not> has_prefix pat (drop k (a @ pat @ b))"
    using find_from_Some [OF assms(1) [unfolded find_sub_def]] by (metis add.left_neutral)
  have "has_prefix pat (drop (length a) (a @ pat @ b))" by (simp add: has_prefix_iff)
  moreover have "has_prefix pat (drop (length x) (a @ pat @ b))" by (simp add: xy(1) has_prefix_iff)
  ultimately show ?thesis using xy(2,3) assms(2) by (metis linorder_less_linear)
qed

lemma SplitSignalInfo_sep:
  assumes "CHR '' '' \<notin> set a"
  shows "SplitSignalInfo (a @ '' / '' @ b) = (a, b)"
proof -
  have "find_sub '' / '' (a @ '' / '' @ b) \<noteq> None" unfolding find_sub_None by blast
  then obtain j where j: "find_sub '' / '' (a @ '' / '' @ b) = Some j" by blast
  have "\<forall>k < length a. \<not> has_prefix '' / '' (drop k (a @ '' / '' @ b))"
  proof (intro allI impI notI)
    fix k assume k: "k < length a" and p: "has_prefix '' / '' (drop k (a @ '' / '' @ b))"
    then obtain r where "drop k (a @ '' / '' @ b) = '' / '' @ r" by (auto simp: has_prefix_iff)
    then have "(a @ '' / '' @ b) ! k = CHR '' ''" using k by (metis append_Cons nth_Cons_0 nth_drop
      add.right_neutral length_append trans_less_add1 less_imp_le_nat)
    then have "a ! k = CHR '' ''" using k by (simp add: nth_append)
    then show False using k assms by (metis nth_mem)
  qed
  then have "j = length a" by (rule find_sub_first [OF j])
  then show ?thesis using j by (simp add: SplitSignalInfo_def)
qed

lemma SplitSignalInfo_plain: "CHR ''/'' \<notin> set s \<Longrightarrow> SplitSignalInfo s = (s, [])"
proof -
  assume "CHR ''/'' \<notin> set s"
  then have "find_sub '' / '' s = None" unfolding find_sub_None by auto
  then show ?thesis by (simp add: SplitSignalInfo_def)
qed

text \<open>The names of the exception, as the extraction means them.\<close>

definition signal_name :: "u32 \<Rightarrow> string" where
  "signal_name sig = (case kSigNames sig of Some s \<Rightarrow> s | None \<Rightarrow> ''signal '' @ show_dec (unat sig))"

definition signal_code_name :: "u32 \<Rightarrow> u32 \<Rightarrow> string" where
  "signal_code_name sig si_code =
     (if sig = 11 then (case kSegvCodes si_code of Some c \<Rightarrow> c | None \<Rightarrow> []) else [])"

lemma signal_name_no_slash: "CHR ''/'' \<notin> set (signal_name sig)"
proof -
  have "CHR ''/'' \<notin> set (show_dec n)" for n
    using show_dec_isdigit [of "CHR ''/''" n] by (auto simp: isdigit_def)
  then show ?thesis by (auto simp: signal_name_def kSigNames_def split: option.splits if_splits)
qed

lemma signal_info_extracted:
  assumes "exception_of raw = Some rec"
  shows "signal_info (ExtractExceptionInfo raw info) =
    (let c = signal_code_name (exception_code rec) (exception_flags rec) in
     signal_name (exception_code rec) @ (if c = [] then [] else '' / '' @ c))"
  using assms
  by (auto simp: ExtractExceptionInfo_def signal_name_def signal_code_name_def kSegvCodes_def Let_def
      split: option.split)

text \<open>
  C34. The formatter splits the signal text that the reader composed back into the signal
  name and the code name: for every exception the names are recovered, and the code name is
  empty except for the two known codes of SIGSEGV.
\<close>

theorem signal_info_round_trip:
  assumes "exception_of raw = Some rec"
  shows "SplitSignalInfo (signal_info (ExtractExceptionInfo raw info)) =
    (signal_name (exception_code rec), signal_code_name (exception_code rec) (exception_flags rec))"
proof (cases "signal_code_name (exception_code rec) (exception_flags rec) = []")
  case True
  then show ?thesis
    using SplitSignalInfo_plain [OF signal_name_no_slash] by (simp add: signal_info_extracted [OF assms])
next
  case False
  then have "exception_code rec = 11" by (auto simp: signal_code_name_def split: if_splits)
  then have "CHR '' '' \<notin> set (signal_name (exception_code rec))"
    by (simp add: signal_name_def kSigNames_def)
  from SplitSignalInfo_sep [OF this] False show ?thesis
    by (simp add: signal_info_extracted [OF assms] Let_def)
qed

theorem signal_info_round_trip_witness:
  "SplitSignalInfo (signal_info (ExtractExceptionInfo
     \<lparr>header_time_date_stamp = None, misc_info = None,
      exception_of = Some \<lparr>exception_code = 11, exception_flags = 1, exception_address = 0,
        exception_thread_id = 7\<rparr>,
      module_list = None, thread_list = None, thread_name_list = None\<rparr> empty_info))
   = (''SIGSEGV'', ''SEGV_MAPERR'')"
  by (subst signal_info_round_trip, simp)
    (simp add: signal_name_def signal_code_name_def kSigNames_def kSegvCodes_def)

section \<open>Probable causes\<close>

text \<open>
  The causes as a classification. Distances are differences of integers, so nothing wraps.
\<close>

datatype cause = Null_Dereference | Null_Offset nat | Execute_Fault | Stack_Overflow nat |
  Abort_Or_Assert | Misaligned | Illegal_Instruction | Arithmetic | Unknown_Cause

definition classify :: "u32 \<Rightarrow> u64 \<Rightarrow> u64 \<Rightarrow> u64 \<Rightarrow> cause" where
  "classify signo fault prog_ctr stack_ptr =
     (if signo = 11 then
        if fault = 0 then Null_Dereference
        else if unat fault < 4096 then Null_Offset (unat fault)
        else if fault = prog_ctr then Execute_Fault
        else if stack_ptr \<noteq> 0 \<and> \<bar>int (unat fault) - int (unat stack_ptr)\<bar> < 65536
        then Stack_Overflow (unat fault)
        else Unknown_Cause
      else if signo = 6 then Abort_Or_Assert
      else if signo = 7 then Misaligned
      else if signo = 4 then Illegal_Instruction
      else if signo = 8 then Arithmetic
      else Unknown_Cause)"

fun cause_text :: "cause \<Rightarrow> string" where
  "cause_text Null_Dereference = ''null pointer dereference''"
| "cause_text (Null_Offset n) = ''null pointer dereference '' @ dash @ '' access at offset 0x'' @ show_hex n"
| "cause_text Execute_Fault = ''execute fault '' @ dash @ '' non-executable memory at pc '' @
     ''(corrupt function pointer, smashed stack, or ROP)''"
| "cause_text (Stack_Overflow n) = ''stack overflow '' @ dash @ '' fault address 0x'' @ show_hex n @ '' is near stack pointer''"
| "cause_text Abort_Or_Assert = ''abort() or assert() failure, or glibc heap corruption detected''"
| "cause_text Misaligned = ''misaligned memory access or truncated mmap file''"
| "cause_text Illegal_Instruction = ''illegal instruction '' @ dash @ '' corrupt code page or bad function pointer''"
| "cause_text Arithmetic = ''arithmetic exception '' @ dash @ '' integer division by zero or overflow''"
| "cause_text Unknown_Cause = []"

lemma unat_distance:
  fixes a b :: u64
  shows "(if a > b then a - b else b - a) < 65536 \<longleftrightarrow> \<bar>int (unat a) - int (unat b)\<bar> < 65536"
proof -
  have d: "x - y < 65536 \<longleftrightarrow> \<bar>int (unat x) - int (unat y)\<bar> < 65536" if "y \<le> x" for x y :: u64
  proof -
    have "unat (x - y) = unat x - unat y" using that by (rule unat_sub_le)
    moreover have "unat y \<le> unat x" using that by (simp add: word_le_nat_alt)
    moreover have "x - y < 65536 \<longleftrightarrow> unat (x - y) < 65536" by (simp add: word_less_nat_alt)
    ultimately show ?thesis by linarith
  qed
  show ?thesis
  proof (cases "a > b")
    case True
    then show ?thesis using d [of b a] by simp
  next
    case False
    then show ?thesis using d [of a b] by (simp add: abs_minus_commute)
  qed
qed

text \<open>
  C35. The probable cause is the text of the cause class of the crash; the distance between
  the fault address and the stack pointer is taken without wrap-around, so that a stack
  overflow is reported exactly for faults closer than 64 KiB to a known stack pointer.
\<close>

theorem FormatProbableCause_classifies:
  "FormatProbableCause signo fault prog_ctr stack_ptr = cause_text (classify signo fault prog_ctr stack_ptr)"
proof (cases "signo = 11")
  case True
  have page: "fault < 0x1000 \<longleftrightarrow> unat fault < 4096" by (simp add: word_less_nat_alt)
  note dist = unat_distance [of stack_ptr fault]
  consider "fault = 0" | "fault \<noteq> 0" "fault < 0x1000" | "\<not> fault < 0x1000" "fault = prog_ctr"
    | "\<not> fault < 0x1000" "fault \<noteq> prog_ctr" "stack_ptr = 0"
    | "\<not> fault < 0x1000" "fault \<noteq> prog_ctr" "stack_ptr \<noteq> 0" by blast
  then show ?thesis
  proof cases
    case 1
    then show ?thesis unfolding FormatProbableCause_def classify_def True by simp
  next
    case 2
    then have "unat fault < 4096" by (simp add: page)
    with 2 show ?thesis
      unfolding FormatProbableCause_def classify_def True by (simp only: if_True if_False refl cause_text.simps)
  next
    case 3
    then have "\<not> unat fault < 4096" "fault \<noteq> 0" using page by (blast, auto)
    with 3 show ?thesis
      unfolding FormatProbableCause_def classify_def True by (simp only: if_True if_False refl cause_text.simps)
  next
    case 4
    then have "\<not> unat fault < 4096" "fault \<noteq> 0" by (auto simp: page [symmetric])
    with 4 show ?thesis
      unfolding FormatProbableCause_def classify_def True
      by (simp only: if_True if_False refl cause_text.simps simp_thms)
  next
    case 5
    then have n: "\<not> unat fault < 4096" "fault \<noteq> 0" by (auto simp: page [symmetric])
    show ?thesis
    proof (cases "\<bar>int (unat fault) - int (unat stack_ptr)\<bar> < 65536")
      case near: True
      with 5 n show ?thesis
        unfolding FormatProbableCause_def classify_def True Let_def dist
        by (simp only: if_True if_False refl cause_text.simps simp_thms)
    next
      case False
      with 5 n show ?thesis
        unfolding FormatProbableCause_def classify_def True Let_def dist
        by (simp only: if_True if_False refl cause_text.simps simp_thms)
    qed
  qed
next
  case False
  then show ?thesis
    unfolding FormatProbableCause_def classify_def by (simp only: if_False cause_text.simps split: if_split) blast
qed

section \<open>What is not printed\<close>

lemma ExtractStackPtr_amd64: "ExtractStackPtr (ExtractAMD64Regs c) = rsp c"
  by (simp add: ExtractStackPtr_def ExtractAMD64Regs_def)

lemma ExtractStackPtr_arm64: "ExtractStackPtr (ExtractARM64Regs c) = iregs c ! 31"
  unfolding ExtractStackPtr_def by (subst find_arm64) simp_all

lemma tombstone_of_first_frame:
  assumes "threads info = t # ts" and "ExtractStackPtr regs = ExtractStackPtr (registers t)"
    and "take 1 fs = take 1 (frames t)"
  shows "FormatTombstone (info\<lparr>threads := t\<lparr>registers := regs, frames := fs\<rparr> # ts'\<rparr>) = FormatTombstone info"
proof -
  let ?i = "info\<lparr>threads := t\<lparr>registers := regs, frames := fs\<rparr> # ts'\<rparr>"
  have "header_line ?i = header_line info" using assms(1) by (simp add: header_line_def)
  moreover have "signal_line ?i = signal_line info" 
    by (cases "SplitSignalInfo (signal_info info)") (simp add: signal_line_def Let_def)
  moreover have "abort_line ?i = abort_line info" by (simp add: abort_line_def)
  moreover have "cause_line ?i = cause_line info"
    using assms by (cases fs; cases "frames t") (simp_all add: cause_line_def)
  moreover have "pc_line ?i = pc_line info"
    using assms(1,3) by (cases fs; cases "frames t") (simp_all add: pc_line_def)
  ultimately show ?thesis by (simp add: FormatTombstone_def)
qed

text \<open>
  C36. Of the crashing thread the tombstone shows the name and the first frame; of its
  registers only the stack pointer matters, and only for the probable cause. Other
  registers, further frames and further threads can be anything without changing a
  character.
\<close>

theorem tombstone_prints_one_frame:
  assumes "threads info = t # ts" and "ExtractStackPtr regs = ExtractStackPtr (registers t)"
    and "take 1 fs = take 1 (frames t)"
  shows "FormatTombstone (info\<lparr>threads := t\<lparr>registers := regs, frames := fs\<rparr> # ts'\<rparr>) = FormatTombstone info"
  using assms by (rule tombstone_of_first_frame)

definition sample_context :: MDRawContextAMD64 where
  "sample_context = \<lparr>rax = 1, rbx = 2, rcx = 3, rdx = 4, rsi = 5, rdi = 6, rbp = 7, rsp = 0x7ffc1000, r8 = 8, r9 = 9,
     r10 = 10, r11 = 11, r12 = 12, r13 = 13, r14 = 14, r15 = 15, rip = 0x401000\<rparr>"

theorem tombstone_prints_one_frame_witness:
  "FormatTombstone (empty_info\<lparr>threads := [\<lparr>tid = 1, thread_name = [], is_crashing = True,
      registers = ExtractAMD64Regs sample_context, frames = []\<rparr>]\<rparr>) =
   FormatTombstone (empty_info\<lparr>threads := [\<lparr>tid = 1, thread_name = [], is_crashing = True,
      registers = [(''rsp'', rsp sample_context)], frames = []\<rparr>]\<rparr>)"
proof -
  let ?t = "\<lparr>tid = 1, thread_name = [], is_crashing = True, registers = [(''rsp'', rsp sample_context)], frames = []\<rparr>"
  let ?i = "empty_info\<lparr>threads := [?t]\<rparr>"
  have "FormatTombstone (?i\<lparr>threads := ?t\<lparr>registers := ExtractAMD64Regs sample_context, frames := []\<rparr> # []\<rparr>) =
      FormatTombstone ?i"
    by (rule tombstone_prints_one_frame [where ts = "[]"])
      (simp_all only: ExtractStackPtr_amd64, simp_all add: ExtractStackPtr_def)
  then show ?thesis by simp
qed


end
