(* ===== verification/Worker.thy ===== *)
theory Worker
  imports Disk_Manager Minidump_Patcher Tombstone_Formatter
begin

text \<open>
  \<^verbatim>\<open>daemon/worker.cpp\<close>: what the worker thread does with one new minidump, and its loop. The
  interface \<^verbatim>\<open>ITombstone\<close> is a pair of functions \<open>rd\<close> and \<open>fmt\<close>; the locale
  \<open>tombstone_reader\<close> states what the worker relies on, and it is interpreted on the
  reader of the daemon. \<open>None\<close> stands for a stray memory access of the patcher.
\<close>

section \<open>State\<close>

text \<open>
  \<open>rate_limit_map\<close> holds time points of the steady clock, in nanoseconds. The mutex and
  the condition variable are not data: the functions below are the sections that run with
  the lock held, and the processing between them.
\<close>

record WorkerState =
  pending :: "string list"
  stop :: bool
  rate_limit_map :: "string \<Rightarrow> int option"

definition kRateLimitWindow :: int where "kRateLimitWindow = 30 * 10 ^ 9"

definition LogTombstone :: "string \<Rightarrow> world \<Rightarrow> world" where
  "LogTombstone msg w = w\<lparr>out := out w @ msg\<rparr>"

section \<open>Export\<close>

definition export_name :: "string \<Rightarrow> string" where
  "export_name pname = map (\<lambda>chr. if isalnum chr \<or> chr = CHR ''-'' then chr else CHR ''_'') pname"

fun build_id_loop :: "string \<Rightarrow> string \<Rightarrow> string" where
  "build_id_loop [] bid = bid"
| "build_id_loop (chr # cs) bid =
     (let bid1 = (if isxdigit chr then bid @ [tolower chr] else bid) in
      if length bid1 = 8 then bid1 else build_id_loop cs bid1)"

definition export_build_id :: "MinidumpInfo \<Rightarrow> string" where
  "export_build_id info =
     (let raw_id = (case modules info of [] \<Rightarrow> [] | m # _ \<Rightarrow> build_id m);
          bid = build_id_loop raw_id [] in
      if length bid < 8 then bid @ replicate (8 - length bid) CHR ''0'' else bid)"

definition export_destination :: "string \<Rightarrow> MinidumpInfo \<Rightarrow> world \<Rightarrow> string" where
  "export_destination export_dir info w =
     path_append export_dir (export_name (process_name info) @ ''_'' @
       strftime 15 (compact_time (gmtime (nat (wall_clock w)))) @ ''_'' @ export_build_id info @
       ''.crashdump'')"

definition ExportMinidump :: "string \<Rightarrow> string \<Rightarrow> MinidumpInfo \<Rightarrow> world \<Rightarrow> world" where
  "ExportMinidump src_path export_dir info w =
     (let dst = export_destination export_dir info w in
      case copy_file src_path dst w of
        (Inl err, w1) \<Rightarrow> log_to (ExportFailed dst err) w1
      | (Inr _, w1) \<Rightarrow> log_to (Exported dst) w1)"

section \<open>One minidump\<close>

definition crash_key :: "MinidumpInfo \<Rightarrow> string" where
  "crash_key info =
     process_name info @ '':'' @ signal_info info @ '':'' @ show_hex (unat (fault_addr info))"

text \<open>The three parts of \<^verbatim>\<open>ProcessNewMinidump\<close>: patch, read and report, prune.\<close>

definition patch_step :: "bool \<Rightarrow> string \<Rightarrow> world \<Rightarrow> world option" where
  "patch_step patch_build_ids p w =
     (if \<not> patch_build_ids then Some w
      else case PatchMissingBuildIds p w of
        None \<Rightarrow> None
      | Some (Inl e, w1) \<Rightarrow> Some (log_to (PatchFailed p e) w1)
      | Some (Inr _, w1) \<Rightarrow> Some w1)"

definition suppressed :: "WorkerState \<Rightarrow> string \<Rightarrow> int \<Rightarrow> bool" where
  "suppressed state key now =
     (case rate_limit_map state key of None \<Rightarrow> False | Some t \<Rightarrow> now - t < kRateLimitWindow)"

definition report_step ::
  "(world \<Rightarrow> string \<Rightarrow> MinidumpInfo status_or) \<Rightarrow> (MinidumpInfo \<Rightarrow> string) \<Rightarrow> string \<Rightarrow> WorkerState \<Rightarrow>
    string \<Rightarrow> world \<Rightarrow> WorkerState \<times> world"
where
  "report_step rd fmt p state export_dir w =
     (case rd w p of
        Inl e \<Rightarrow> (state, log_to (ReadFailed p e) w)
      | Inr info \<Rightarrow>
          (let key = crash_key info; now = steady_clock w in
           if suppressed state key now then (state, log_to (SuppressedDuplicate key) w)
           else
             (let w1 = LogTombstone (fmt info) w in
              (state\<lparr>rate_limit_map := (rate_limit_map state)(key \<mapsto> now)\<rparr>,
               if export_dir \<noteq> [] then ExportMinidump p export_dir info w1 else w1))))"

definition prune_step :: "DiskManagerConfig \<Rightarrow> world \<Rightarrow> world" where
  "prune_step prune_cfg w =
     (case PruneMinidumps prune_cfg w of
        (Inl e, w1) \<Rightarrow> log_to (PruneFailed e) w1 | (Inr _, w1) \<Rightarrow> w1)"

definition ProcessNewMinidump ::
  "(world \<Rightarrow> string \<Rightarrow> MinidumpInfo status_or) \<Rightarrow> (MinidumpInfo \<Rightarrow> string) \<Rightarrow> string \<Rightarrow> WorkerState \<Rightarrow>
    DiskManagerConfig \<Rightarrow> string \<Rightarrow> bool \<Rightarrow> world \<Rightarrow> (WorkerState \<times> world) option"
where
  "ProcessNewMinidump rd fmt p state prune_cfg export_dir patch_build_ids w =
     (case patch_step patch_build_ids p w of
        None \<Rightarrow> None
      | Some w1 \<Rightarrow>
          (case report_step rd fmt p state export_dir w1 of
             (state2, w2) \<Rightarrow> Some (state2, prune_step prune_cfg w2)))"

section \<open>The worker loop\<close>

text \<open>
  The critical section of \<^verbatim>\<open>RunWorker\<close>: what the worker finds when it holds the lock.
  \<open>Wait\<close> is the predicate of the condition variable failing.
\<close>

datatype worker_action = Wait | Return | Take string WorkerState

definition worker_wait :: "WorkerState \<Rightarrow> worker_action" where
  "worker_wait state =
     (if \<not> (stop state \<or> pending state \<noteq> []) then Wait
      else if stop state \<and> pending state = [] then Return
      else Take (hd (pending state)) (state\<lparr>pending := tl (pending state)\<rparr>))"

lemma process_keeps_queue:
  assumes "ProcessNewMinidump rd fmt p state cfg dir patch w = Some (state', w')"
  shows "pending state' = pending state" and "stop state' = stop state"
  using assms
  by (auto simp: ProcessNewMinidump_def report_step_def Let_def split: option.splits sum.splits prod.splits if_splits)

text \<open>
  \<^verbatim>\<open>RunWorker\<close> as long as nobody else touches the queue: it ends waiting, or returns
  (\<open>True\<close>). The poll loop's part is interleaved in the theory \<open>Daemon\<close>.
\<close>

function RunWorker ::
  "(world \<Rightarrow> string \<Rightarrow> MinidumpInfo status_or) \<Rightarrow> (MinidumpInfo \<Rightarrow> string) \<Rightarrow> WorkerState \<Rightarrow>
    DiskManagerConfig \<Rightarrow> string \<Rightarrow> bool \<Rightarrow> world \<Rightarrow> (bool \<times> WorkerState \<times> world) option"
where
  "RunWorker rd fmt state prune_cfg export_dir patch_build_ids w =
     (case worker_wait state of
        Wait \<Rightarrow> Some (False, state, w)
      | Return \<Rightarrow> Some (True, state, w)
      | Take p state1 \<Rightarrow>
          (case ProcessNewMinidump rd fmt p state1 prune_cfg export_dir patch_build_ids w of
             None \<Rightarrow> None
           | Some (state2, w2) \<Rightarrow> RunWorker rd fmt state2 prune_cfg export_dir patch_build_ids w2))"
  by pat_completeness auto
termination
proof (relation "measure (\<lambda>(rd, fmt, state, cfg, dir, patch, w). length (pending state))", simp)
  fix rd :: "world \<Rightarrow> string \<Rightarrow> MinidumpInfo status_or" and fmt :: "MinidumpInfo \<Rightarrow> string"
    and state :: WorkerState and cfg dir patch w p state1 x state2 w2
  assume t: "worker_wait state = Take p state1"
    and x: "ProcessNewMinidump rd fmt p state1 cfg dir patch w = Some x" "(state2, w2) = x"
  have "pending state \<noteq> []" "pending state1 = tl (pending state)"
    using t by (auto simp: worker_wait_def split: if_splits)
  moreover have "pending state2 = pending state1" using process_keeps_queue(1) x by metis
  ultimately show "((rd, fmt, state2, cfg, dir, patch, w2), rd, fmt, state, cfg, dir, patch, w)
      \<in> measure (\<lambda>(rd, fmt, state, cfg, dir, patch, w). length (pending state))"
    by (cases "pending state") auto
qed

declare RunWorker.simps [simp del]

section \<open>The interface to the tombstone library\<close>

text \<open>
  The law of \<^verbatim>\<open>ITombstone\<close> that the rate limiter needs: the signal text of a dump contains
  no colon. Then the key determines the signature (process name, signal text, address).
\<close>

lemma no_colon_hex: "CHR '':'' \<notin> set (show_hex n)"
  using show_hex_isxdigit [of "CHR '':''" n] by (auto simp: isxdigit_def isdigit_def)

lemma split_last_colon:
  assumes "a @ CHR '':'' # b = c @ CHR '':'' # d" and "CHR '':'' \<notin> set b" and "CHR '':'' \<notin> set d"
  shows "a = c \<and> b = d"
proof -
  have t: "takeWhile (\<lambda>x. x \<noteq> CHR '':'') (rev (x @ CHR '':'' # y)) = rev y" if "CHR '':'' \<notin> set y" for x y
    using that by (simp, subst takeWhile_append2) auto
  have "rev b = rev d" using assms t [of b a] t [of d c] by metis
  then show ?thesis using assms(1) by simp
qed

definition signature_of :: "MinidumpInfo \<Rightarrow> string \<times> string \<times> u64" where
  "signature_of info = (process_name info, signal_info info, fault_addr info)"

lemma crash_key_inject:
  assumes "CHR '':'' \<notin> set (signal_info a)" and "CHR '':'' \<notin> set (signal_info b)"
  shows "crash_key a = crash_key b \<longleftrightarrow> signature_of a = signature_of b"
proof
  assume "crash_key a = crash_key b"
  then have eq: "(process_name a @ CHR '':'' # signal_info a) @ CHR '':'' # show_hex (unat (fault_addr a)) =
      (process_name b @ CHR '':'' # signal_info b) @ CHR '':'' # show_hex (unat (fault_addr b))"
    by (simp add: crash_key_def)
  have s: "process_name a @ CHR '':'' # signal_info a = process_name b @ CHR '':'' # signal_info b"
    "show_hex (unat (fault_addr a)) = show_hex (unat (fault_addr b))"
    using split_last_colon [OF eq no_colon_hex no_colon_hex] by simp_all
  then have "process_name a = process_name b \<and> signal_info a = signal_info b"
    using split_last_colon assms by blast
  moreover have "fault_addr a = fault_addr b" using s(2) by (simp add: word_unat_eq_iff)
  ultimately show "signature_of a = signature_of b" by (simp add: signature_of_def)
qed (simp add: crash_key_def signature_of_def)

locale tombstone_reader =
  fixes rd :: "world \<Rightarrow> string \<Rightarrow> MinidumpInfo status_or"
  assumes rd_no_colon: "rd w p = Inr info \<Longrightarrow> CHR '':'' \<notin> set (signal_info info)"
begin

text \<open>Two dumps share a key exactly when they share the signature.\<close>

lemma key_signature:
  "rd w p = Inr a \<Longrightarrow> rd w' p' = Inr b \<Longrightarrow> crash_key a = crash_key b \<longleftrightarrow> signature_of a = signature_of b"
  by (intro crash_key_inject rd_no_colon)

end

lemma signal_info_no_colon: "CHR '':'' \<notin> set (signal_info (ExtractExceptionInfo raw info)) \<or>
    exception_of raw = None"
proof (cases "exception_of raw")
  case (Some rec)
  have "CHR '':'' \<notin> set (signal_name s)" for s
    using show_dec_isdigit [of "CHR '':''" "unat s"]
    by (auto simp: signal_name_def kSigNames_def isdigit_def split: option.split if_splits)
  moreover have "CHR '':'' \<notin> set (signal_code_name s c)" for s c
  proof -
    have "CHR '':'' \<notin> set n" if "kSegvCodes c = Some n" for n
    proof -
      have "n \<in> {''SEGV_MAPERR'', ''SEGV_ACCERR''}"
        using map_of_SomeD [OF that [unfolded kSegvCodes_def]] by auto
      then show ?thesis by auto
    qed
    then have "CHR '':'' \<notin> set (case kSegvCodes c of None \<Rightarrow> [] | Some n \<Rightarrow> n)"
      by (cases "kSegvCodes c") (simp_all only: option.case, simp_all)
    then show ?thesis unfolding signal_code_name_def by (cases "s = 11") (simp_all only: refl if_True if_False list.set empty_iff not_False_eq_True)
  qed
  ultimately show ?thesis by (auto simp: signal_info_extracted [OF Some] Let_def)
qed simp

lemma signal_info_kept [simp]:
  "signal_info (ExtractModules raw info) = signal_info info"
  "signal_info (store_annotation k v info) = signal_info info"
  "signal_info (ExtractRegisters raw info) = signal_info info"
  "signal_info (ExtractThreadName raw info) = signal_info info"
  by (auto simp: ExtractModules_def store_annotation_def ExtractRegisters_def ExtractThreadName_def
      split: option.split list.split context_cpu.split)

lemma signal_info_annotations [simp]:
  "signal_info (ExtractCrashpadAnnotations p w info) = signal_info info"
proof -
  have "signal_info (read_annotations buf rva n i info) = signal_info info" for buf rva n i info
    by (induction buf rva n i info rule: read_annotations.induct; subst read_annotations.simps; simp add: Let_def)
  then show ?thesis by (simp add: ExtractCrashpadAnnotations_def Let_def split: option.split)
qed

lemma signal_info_thread [simp]: "signal_info (add_crashing_thread raw info) = signal_info info"
  by (simp add: add_crashing_thread_def Let_def)

interpretation reader: tombstone_reader "\<lambda>w p. ReadMinidump breakpad_read p w" for breakpad_read
proof
  fix w p info
  assume "ReadMinidump breakpad_read p w = Inr info"
  then obtain raw info2 where r: "signal_info info = signal_info (ExtractExceptionInfo raw info2)"
    and e: "signal_info info2 = []"
    by (auto simp: ReadMinidump_def Let_def empty_info_def split: option.splits list.splits if_splits prod.splits)
  show "CHR '':'' \<notin> set (signal_info info)"
    using signal_info_no_colon [where raw = raw and info = info2] r e
    by (cases "exception_of raw") (auto simp: ExtractExceptionInfo_def)
qed


section \<open>What the steps leave alone\<close>

lemma write_file_env: "write_file p bs w = (r, w') \<Longrightarrow> same_env w w'"
  by (auto simp: write_file_def same_env_def split: option.splits write_fault.splits if_splits)

lemma copy_file_env: "copy_file src dst w = (r, w') \<Longrightarrow> same_env w w'"
  by (auto simp: copy_file_def split: option.splits if_splits prod.splits sum.splits write_fault.splits
      dest: write_file_env)

lemma same_env_log_to [simp]: "same_env w (log_to e w') \<longleftrightarrow> same_env w w'"
  by (simp add: same_env_def)

lemma same_env_logs [simp]: "same_env w (foldl (\<lambda>w p. log_to (f p) w) w' ps) \<longleftrightarrow> same_env w w'"
  by (induction ps arbitrary: w') simp_all

text \<open>A patch logs, and may write a buffer of the same length over the dump.\<close>

lemma patch_outcome:
  assumes "PatchMissingBuildIds p w = Some (r, w')"
  obtains "w' = w"
  | buf buf' ps r' where "read_file p w = Some buf" and "length buf' = length buf"
    and "write_file p buf' (foldl (\<lambda>w p. log_to (PatchedModule p) w) w ps) = (r', w')"
proof (cases "w' = w")
  case False
  then obtain buf buf' ps where buf: "read_file p w = Some buf" "patch_buffer w buf = Some (buf', ps)" "ps \<noteq> []"
    "w' = snd (ofstream_write p buf' (foldl (\<lambda>w p. log_to (PatchedModule p) w) w ps))"
    using assms unfolding PatchMissingBuildIds_def Let_def
    by (auto split: option.splits if_splits prod.splits sum.splits write_fault.splits)
  then show thesis using that(2) length_patch_buffer [OF buf(2)] ofstream_write_file [of p buf'] by metis
qed (rule that(1))

lemma patch_env: "PatchMissingBuildIds p w = Some (r, w') \<Longrightarrow> same_env w w'"
  by (erule patch_outcome) (auto dest!: write_file_env elim: same_env_trans [rotated])

lemma patch_step_env: "patch_step patch p w = Some w' \<Longrightarrow> same_env w w'"
  by (auto simp: patch_step_def dest!: patch_env split: if_splits option.splits prod.splits sum.splits)

lemma export_env: "same_env w (ExportMinidump src dir info w)"
  by (auto simp: ExportMinidump_def Let_def dest!: copy_file_env split: prod.split sum.split)

lemma prune_step_env: "same_env w (prune_step cfg w)"
  by (auto simp: prune_step_def dest!: prune_minidumps_env(1) split: prod.split sum.split)


section \<open>Rate limiting\<close>

lemma ExportMinidump_out [simp]: "out (ExportMinidump src dir info w) = out w"
  using export_env [of w src dir info] by (simp add: same_env_def)

text \<open>
  Reporting one readable dump prints its tombstone once, unless the last report of the
  same signature (process name, signal text and fault address) is less than 30 seconds ago,
  in which case nothing is printed. The time of the report is remembered for that signature
  and for no other, whatever characters the process names contain.
\<close>

theorem report_step_rate_limit:
  assumes "ReadMinidump breakpad_read p w = Inr info"
    and "report_step (\<lambda>w p. ReadMinidump breakpad_read p w) FormatTombstone p state dir w = (state', w')"
    and "ReadMinidump breakpad_read p2 w2 = Inr info2"
  shows "out w' = out w @ (if suppressed state (crash_key info) (steady_clock w) then []
      else FormatTombstone info) \<and>
    rate_limit_map state' (crash_key info2) =
      (if \<not> suppressed state (crash_key info) (steady_clock w) \<and> signature_of info2 = signature_of info
       then Some (steady_clock w) else rate_limit_map state (crash_key info2))"
proof -
  have "crash_key info2 = crash_key info \<longleftrightarrow> signature_of info2 = signature_of info"
    using reader.key_signature assms(1,3) by blast
  then show ?thesis
    using assms(1,2) by (auto simp: report_step_def Let_def LogTombstone_def split: if_splits)
qed

section \<open>Export names\<close>

lemma build_id_loop_take:
  assumes "length bid < 8"
  shows "build_id_loop cs bid = take 8 (bid @ map tolower (filter isxdigit cs))"
  using assms
proof (induction cs arbitrary: bid)
  case (Cons c cs)
  show ?case
  proof (cases "isxdigit c")
    case True
    then show ?thesis
      using Cons.prems Cons.IH [of "bid @ [tolower c]"] by (cases "length bid = 7") (simp_all add: Let_def)
  next
    case False
    then show ?thesis using Cons by (simp add: Let_def)
  qed
qed simp

lemma isxdigit_tolower: "isxdigit c \<Longrightarrow> isxdigit (tolower c)"
  by (auto simp: isxdigit_def isdigit_def tolower_def)

lemma export_build_id_shape:
  "length (export_build_id info) = 8" "c \<in> set (export_build_id info) \<Longrightarrow> isxdigit c"
proof -
  define raw where "raw = (case modules info of [] \<Rightarrow> [] | m # _ \<Rightarrow> build_id m)"
  define bid where "bid = take 8 (map tolower (filter isxdigit raw))"
  have e: "export_build_id info = (if length bid < 8 then bid @ replicate (8 - length bid) CHR ''0'' else bid)"
    by (simp add: export_build_id_def build_id_loop_take bid_def raw_def Let_def)
  have "length bid \<le> 8" by (simp add: bid_def)
  then show "length (export_build_id info) = 8" by (simp add: e)
  have "isxdigit CHR ''0''" by code_simp
  moreover have "d \<in> set bid \<Longrightarrow> isxdigit d" for d
    by (auto simp: bid_def dest!: in_set_takeD intro: isxdigit_tolower)
  ultimately show "c \<in> set (export_build_id info) \<Longrightarrow> isxdigit c"
    by (auto simp: e split: if_splits)
qed

definition export_file_name :: "MinidumpInfo \<Rightarrow> world \<Rightarrow> string" where
  "export_file_name info w =
     export_name (process_name info) @ ''_'' @ strftime 15 (compact_time (gmtime (nat (wall_clock w)))) @
     ''_'' @ export_build_id info @ ''.crashdump''"

lemma export_destination_eq: "export_destination dir info w = path_append dir (export_file_name info w)"
  by (simp add: export_destination_def export_file_name_def)

lemma safe_chars:
  "isxdigit c \<Longrightarrow> c \<noteq> CHR ''/''" "isdigit c \<Longrightarrow> c \<noteq> CHR ''/''" "isalnum c \<Longrightarrow> c \<noteq> CHR ''/''"
  by (auto simp: isxdigit_def isdigit_def isalnum_def)

lemma pad_isdigit: "c \<in> set (pad k n) \<Longrightarrow> isdigit c"
proof -
  have "isdigit CHR ''0''" by code_simp
  then show "c \<in> set (pad k n) \<Longrightarrow> isdigit c" by (auto simp: pad_def dest: show_dec_isdigit)
qed

lemma compact_time_isdigit: "c \<in> set (compact_time t) \<Longrightarrow> isdigit c"
  by (auto simp: compact_time_def dest: pad_isdigit show_dec_isdigit)

lemma export_file_name_no_slash: "CHR ''/'' \<notin> set (export_file_name info w)"
proof -
  have "CHR ''/'' \<notin> set (compact_time t)" for t using compact_time_isdigit safe_chars(2) by blast
  moreover have "CHR ''/'' \<notin> set (export_build_id info)" using export_build_id_shape(2) safe_chars(1) by blast
  ultimately show ?thesis
    using safe_chars(3) by (auto simp: export_file_name_def export_name_def strftime_def)
qed

text \<open>
  An exported copy always lands directly in the export directory under a name with
  extension \<^verbatim>\<open>.crashdump\<close>, whatever the process is called, so it is one of the files that the
  size and age limits of the export directory apply to.
\<close>

theorem export_destination_is_pruned:
  "is_child dir (export_destination dir info w) \<and> extension (export_destination dir info w) = ''.crashdump''"
proof -
  let ?f = "export_file_name info w"
  obtain pre where pre: "?f = pre @ CHR ''.'' # ''crashdump''" "pre \<noteq> []"
    by (simp add: export_file_name_def)
  have "extension ?f = ''.crashdump''"
    unfolding pre(1) using pre export_file_name_no_slash [of info w] by (subst extension_dotted) auto
  moreover have "extension (path_append dir ?f) = extension ?f"
    using extension_of_filename [of dir ?f] export_file_name_no_slash [of info w] by simp
  moreover have "?f \<noteq> []" using pre by simp
  ultimately show ?thesis
    using export_file_name_no_slash [of info w] by (simp add: export_destination_eq)
qed


lemma length_compact_time:
  assumes "t < 2 ^ 32"
  shows "length (compact_time (gmtime t)) = 14"
  using gmtime_small [of t] show_dec_year [OF gmtime_year [OF assms]]
  by (simp add: compact_time_def fields_small_def length_pad)

text \<open>
  C37. Two exports go to the same file exactly when sanitised process name, build id prefix
  and second of the wall clock agree. So a second crash of the same program within one
  second that the rate limiter lets through overwrites the copy of the first.
\<close>

theorem export_destination_collides:
  assumes "0 \<le> wall_clock w" and "wall_clock w < 2 ^ 32" and "0 \<le> wall_clock v" and "wall_clock v < 2 ^ 32"
  shows "export_destination dir a w = export_destination dir b v \<longleftrightarrow>
    export_name (process_name a) = export_name (process_name b) \<and>
    export_build_id a = export_build_id b \<and> wall_clock w = wall_clock v"
proof -
  have t: "nat (wall_clock w) < 2 ^ 32" "nat (wall_clock v) < 2 ^ 32" using assms by (simp_all add: nat_less_iff)
  note len = t [THEN length_compact_time]
  note y = show_dec_year [OF gmtime_year [OF t(1)]] show_dec_year [OF gmtime_year [OF t(2)]]
  have "export_destination dir a w = export_destination dir b v \<longleftrightarrow> export_file_name a w = export_file_name b v"
    by (simp add: export_destination_eq path_append_def)
  also have "\<dots> \<longleftrightarrow> export_name (process_name a) = export_name (process_name b) \<and>
      compact_time (gmtime (nat (wall_clock w))) = compact_time (gmtime (nat (wall_clock v))) \<and>
      export_build_id a = export_build_id b"
    unfolding export_file_name_def
    by (simp add: strftime_def len export_build_id_shape(1) append_eq_append_conv flip: append_assoc)
  also have "compact_time (gmtime (nat (wall_clock w))) = compact_time (gmtime (nat (wall_clock v)))
      \<longleftrightarrow> wall_clock w = wall_clock v"
    using compact_time_inject [OF _ gmtime_small gmtime_small y] assms(1,3) by auto
  finally show ?thesis by blast
qed


theorem export_destination_collides_witness:
  "export_destination ''/e'' (empty_info\<lparr>process_name := ''a b''\<rparr>) (disk_world\<lparr>wall_clock := 1700000000\<rparr>) =
   export_destination ''/e'' (empty_info\<lparr>process_name := ''a.b''\<rparr>) (disk_world\<lparr>wall_clock := 1700000000\<rparr>)"
proof -
  have "export_name ''a b'' = export_name ''a.b''" by code_simp
  then show ?thesis
    by (subst export_destination_collides) (simp_all add: export_build_id_def empty_info_def)
qed

section \<open>The queue\<close>

text \<open>
  The contract of the work queue: what the poll loop appends the worker takes in order of
  arrival. \<open>abs\<close> is the list of paths waiting.
\<close>

locale fifo =
  fixes abs :: "'s \<Rightarrow> 'a list" and enq :: "'a \<Rightarrow> 's \<Rightarrow> 's" and take :: "'s \<Rightarrow> ('a \<times> 's) option"
  assumes abs_enq: "abs (enq x s) = abs s @ [x]"
    and take_None: "take s = None \<longleftrightarrow> abs s = []"
    and take_Some: "take s = Some (x, s') \<Longrightarrow> abs s = x # abs s'"
begin

lemma abs_fold_enq: "abs (fold enq xs s) = abs s @ xs"
  by (induction xs arbitrary: s) (simp_all add: abs_enq)

lemma take_front: "abs s = x # ys \<Longrightarrow> \<exists>s'. take s = Some (x, s') \<and> abs s' = ys"
  using take_None [of s] take_Some [of s] by (cases "take s") auto

lemma first_in_first_out:
  assumes "abs s = []"
  shows "\<exists>s'. take (fold enq (x # xs) s) = Some (x, s') \<and> abs s' = xs"
  using take_front [of "fold enq (x # xs) s" x xs] abs_fold_enq [of "x # xs" s] assms by simp

end

definition push_pending :: "string \<Rightarrow> WorkerState \<Rightarrow> WorkerState" where
  "push_pending p state = state\<lparr>pending := pending state @ [p]\<rparr>"

definition take_pending :: "WorkerState \<Rightarrow> (string \<times> WorkerState) option" where
  "take_pending state = (case worker_wait state of Take p state' \<Rightarrow> Some (p, state') | _ \<Rightarrow> None)"

interpretation work_queue: fifo pending push_pending take_pending
  by unfold_locales
    (auto simp: push_pending_def take_pending_def worker_wait_def neq_Nil_conv split: worker_action.splits if_splits)

text \<open>Processing a list of paths one after the other.\<close>

fun process_all ::
  "(world \<Rightarrow> string \<Rightarrow> MinidumpInfo status_or) \<Rightarrow> (MinidumpInfo \<Rightarrow> string) \<Rightarrow> string list \<Rightarrow> WorkerState \<Rightarrow>
    DiskManagerConfig \<Rightarrow> string \<Rightarrow> bool \<Rightarrow> world \<Rightarrow> (WorkerState \<times> world) option"
where
  "process_all rd fmt [] state cfg dir patch w = Some (state, w)"
| "process_all rd fmt (p # ps) state cfg dir patch w =
     (case ProcessNewMinidump rd fmt p state cfg dir patch w of
        None \<Rightarrow> None
      | Some (state1, w1) \<Rightarrow> process_all rd fmt ps state1 cfg dir patch w1)"

lemma process_ignores_queue:
  "ProcessNewMinidump rd fmt p (state\<lparr>pending := q\<rparr>) cfg dir patch w =
     map_option (\<lambda>(s, w'). (s\<lparr>pending := q\<rparr>, w')) (ProcessNewMinidump rd fmt p state cfg dir patch w)"
proof -
  have "report_step rd fmt p (state\<lparr>pending := q\<rparr>) dir w1 =
      (case report_step rd fmt p state dir w1 of (s, w2) \<Rightarrow> (s\<lparr>pending := q\<rparr>, w2))" for w1
    by (simp add: report_step_def suppressed_def Let_def split: sum.split)
  then show ?thesis
    by (simp add: ProcessNewMinidump_def split: option.split prod.split)
qed

text \<open>
  Once the shutdown flag is set, the worker returns: it processes every minidump still
  queued, in order of arrival, and leaves an empty queue; the only other outcome is a
  stray access while processing one of them.
\<close>

theorem RunWorker_drains_queue:
  "RunWorker rd fmt (state\<lparr>stop := True\<rparr>) cfg dir patch w =
     map_option (\<lambda>(s, w'). (True, s\<lparr>pending := []\<rparr>, w'))
       (process_all rd fmt (pending state) (state\<lparr>stop := True\<rparr>) cfg dir patch w)"
proof -
  have "stop st \<Longrightarrow> RunWorker rd fmt (st\<lparr>pending := ps\<rparr>) cfg dir patch w =
     map_option (\<lambda>(s, w'). (True, s\<lparr>pending := []\<rparr>, w')) (process_all rd fmt ps st cfg dir patch w)" for st ps w
  proof (induction ps arbitrary: st w)
    case Nil
    then show ?case by (subst RunWorker.simps) (simp add: worker_wait_def)
  next
    case (Cons p ps)
    have "worker_wait (st\<lparr>pending := p # ps\<rparr>) = Take p (st\<lparr>pending := ps\<rparr>)"
      by (simp add: worker_wait_def)
    then show ?case
      using Cons process_keeps_queue(2)
      by (subst RunWorker.simps) (auto simp: process_ignores_queue split: option.split)
  qed
  from this [of "state\<lparr>stop := True\<rparr>" "pending state"] show ?thesis by simp
qed


section \<open>Pruning after every minidump\<close>

lemma well_formed_write_file: "write_file p bs w = (r, w') \<Longrightarrow> well_formed w \<Longrightarrow> well_formed w'"
  by (auto simp: write_file_def split: option.splits write_fault.splits if_splits)

lemma well_formed_copy_file: "copy_file src dst w = (r, w') \<Longrightarrow> well_formed w \<Longrightarrow> well_formed w'"
  by (auto simp: copy_file_def split: option.splits if_splits prod.splits sum.splits write_fault.splits
      dest: well_formed_write_file)

lemma well_formed_logs [simp]: "well_formed (foldl (\<lambda>w p. log_to (f p) w) w ps) = well_formed w"
  by (induction ps arbitrary: w) simp_all

lemma well_formed_patch: "PatchMissingBuildIds p w = Some (r, w') \<Longrightarrow> well_formed w \<Longrightarrow> well_formed w'"
  by (erule patch_outcome) (auto dest!: well_formed_write_file)

lemma well_formed_patch_step: "patch_step patch p w = Some w' \<Longrightarrow> well_formed w \<Longrightarrow> well_formed w'"
  by (auto simp: patch_step_def dest!: well_formed_patch split: if_splits option.splits prod.splits sum.splits)

lemma well_formed_LogTombstone [simp]: "well_formed (LogTombstone msg w) = well_formed w"
  by (simp add: well_formed_def LogTombstone_def)

lemma well_formed_report_step:
  "report_step rd fmt p state dir w = (state', w') \<Longrightarrow> well_formed w \<Longrightarrow> well_formed w'"
  by (auto simp: report_step_def ExportMinidump_def Let_def split: sum.splits if_splits prod.splits
      dest!: well_formed_copy_file)

lemma logs_kept:
  "disk_usage (foldl (\<lambda>w p. log_to (f p) w) w ps) = disk_usage w"
  "lookup (foldl (\<lambda>w p. log_to (f p) w) w ps) q = lookup w q"
  "writes_files w (foldl (\<lambda>w p. log_to (f p) w) w' ps) = writes_files w w'"
  by (induction ps arbitrary: w w') simp_all

lemma patch_step_files:
  assumes "patch_step patch p w = Some w'"
  shows "disk_usage w' \<le> 2 * disk_usage w \<and> writes_files w w'"
proof -
  have "disk_usage v \<le> 2 * disk_usage w \<and> writes_files w v" if "PatchMissingBuildIds p w = Some (r, v)" for r v
    using that
  proof (cases rule: patch_outcome)
    case (2 buf buf' ps r')
    let ?w = "foldl (\<lambda>w p. log_to (PatchedModule p) w) w ps"
    have "disk_usage v \<le> disk_usage w + length buf" using disk_usage_write_file [OF 2(3)] 2(2) by (simp add: logs_kept)
    moreover have "lookup ?w p \<noteq> Some Directory" using read_file_regular [OF 2(1)] by (auto simp: logs_kept)
    then have "writes_files ?w v" by (rule writes_files_write_file [OF 2(3)])
    then have "writes_files w v" using writes_files_trans [of w ?w v] by (simp add: logs_kept)
    ultimately show ?thesis using disk_usage_read_file [OF 2(1)] by simp
  qed simp
  then show ?thesis using assms
    by (fastforce simp: patch_step_def split: if_splits option.splits prod.splits sum.splits)
qed

lemma copy_file_files:
  assumes "copy_file src dst w = (r, w')"
  shows "disk_usage w' \<le> 2 * disk_usage w \<and> writes_files w w'"
proof (cases "w' = w")
  case False
  then obtain bs r' where bs: "read_file src w = Some bs" "lookup w dst \<noteq> Some Directory" "write_file dst bs w = (r', w')"
    using assms by (auto simp: copy_file_def split: option.splits if_splits prod.splits sum.splits write_fault.splits)
  show ?thesis
    using disk_usage_write_file [OF bs(3)] disk_usage_read_file [OF bs(1)] writes_files_write_file [OF bs(3,2)] by simp
qed simp

lemma LogTombstone_files [simp]:
  "disk_usage (LogTombstone msg w) = disk_usage w" "writes_files w (LogTombstone msg w)"
  by (simp_all add: LogTombstone_def disk_usage_def writes_files_def is_directory_def lookup_def)

lemma ExportMinidump_files:
  "disk_usage (ExportMinidump src dir info w) \<le> 2 * disk_usage w \<and> writes_files w (ExportMinidump src dir info w)"
  by (auto simp: ExportMinidump_def Let_def dest!: copy_file_files split: prod.split sum.split)

lemma report_step_files:
  assumes "report_step rd fmt p state dir w = (state', w')"
  shows "disk_usage w' \<le> 2 * disk_usage w \<and> writes_files w w'"
proof -
  have "disk_usage (ExportMinidump p dir info (LogTombstone m w)) \<le> 2 * disk_usage w \<and>
      writes_files w (ExportMinidump p dir info (LogTombstone m w))" for info m
    using ExportMinidump_files [of p dir info "LogTombstone m w"] writes_files_trans [OF LogTombstone_files(2)] by auto
  then show ?thesis using assms by (auto simp: report_step_def Let_def split: sum.splits if_splits)
qed

text \<open>
  C9. Whatever became of a minidump, also when it could not be patched or read or was a duplicate,
  its processing ends with pruning: the reports in the database are within the size limit again,
  unless the pruning failed, which then is the last thing logged. It cannot fail when, before
  the processing, the directories could be listed and their files deleted. Patching, export and the
  tombstone do not endanger that. The disk is assumed to hold less than 2^62 bytes.
\<close>

theorem process_bounds_database:
  assumes "ProcessNewMinidump rd fmt p state cfg dir patch w = Some (state', w')"
    and "well_formed w" and "disk_usage w < 2 ^ 62" and "max_bytes cfg > 0"
  shows "(\<exists>n. GetTotalMinidumpSize (db_path cfg) w' = Inr n \<and> n \<le> max_bytes cfg) \<or>
    \<not> prunable cfg w \<and> (\<exists>l e. log w' = l @ [PruneFailed e])"
proof -
  obtain w1 w2 where w1: "patch_step patch p w = Some w1" and w2: "report_step rd fmt p state dir w1 = (state', w2)"
    and w': "w' = prune_step cfg w2"
    using assms(1) by (auto simp: ProcessNewMinidump_def split: option.splits prod.splits)
  have wf: "well_formed w2"
    using well_formed_report_step [OF w2] well_formed_patch_step [OF w1] assms(2) by blast
  have "disk_usage w2 \<le> 4 * disk_usage w" using patch_step_files [OF w1] report_step_files [OF w2] by linarith
  then have use: "disk_usage w2 < 2 ^ 64" using assms(3) by simp
  have files: "writes_files w w2" using patch_step_files [OF w1] report_step_files [OF w2] writes_files_trans by blast
  obtain r w3 where w3: "PruneMinidumps cfg w2 = (r, w3)" by fastforce
  show ?thesis
  proof (cases r)
    case (Inr u)
    have "\<forall>reports. ListCrashReports (pending_dir cfg) w2 = Inr reports \<longrightarrow> total_size report_size reports < 2 ^ 64"
      using pending.list_dir_usage use by fastforce
    from pruned_total_within [OF wf assms(4) this, of w3] show ?thesis
      using Inr w3 w' by (simp add: prune_step_def)
  next
    case (Inl e)
    then have "\<not> prunable cfg w2" using prunable_prunes [OF _ wf] w3 by fastforce
    then have "\<not> prunable cfg w" using prunable_writes [OF files] by blast
    then show ?thesis using Inl w3 w' by (simp add: prune_step_def)
  qed
qed

theorem process_bounds_database_witness:
  "\<exists>state' w' n. ProcessNewMinidump (\<lambda>_ _. Inl (Error InternalError ''bad'' 0)) (\<lambda>_. []) ''/db/pending/c.dmp''
     \<lparr>pending = [], stop = False, rate_limit_map = Map.empty\<rparr> disk_config ''/ex'' False disk_world = Some (state', w') \<and>
     GetTotalMinidumpSize ''/db'' w' = Inr n \<and> n \<le> 8"
proof -
  let ?st = "\<lparr>pending = [], stop = False, rate_limit_map = Map.empty\<rparr> :: WorkerState"
  let ?rd = "\<lambda>_ _. Inl (Error InternalError ''bad'' 0) :: MinidumpInfo status_or" and ?fmt = "\<lambda>_. [] :: string"
  obtain state' w' where run: "ProcessNewMinidump ?rd ?fmt ''/db/pending/c.dmp'' ?st disk_config ''/ex'' False disk_world
      = Some (state', w')"
    by (simp add: ProcessNewMinidump_def patch_step_def report_step_def)
  have "listable disk_world (pending_dir disk_config)" "listable disk_world (export_path disk_config)"
    "is_directory disk_world (export_path disk_config)" "extension (export_path disk_config) \<notin> {''.dmp'', ''.meta''}"
    unfolding listable_def by code_simp+
  then have p: "prunable disk_config disk_world" by (simp add: prunable_def unlocked_def disk_world_def)
  have "disk_usage disk_world < 2 ^ 62" by (simp add: disk_usage_def disk_world_def)
  from process_bounds_database [OF run disk_world_well_formed this] p show ?thesis
    using run by (auto simp: disk_config_def)
qed

theorem report_step_rate_limit_witness:
  "out (snd (report_step (\<lambda>w p. ReadMinidump (\<lambda>_ _. Some \<lparr>header_time_date_stamp = None, misc_info = None,
       exception_of = None, module_list = None, thread_list = None, thread_name_list = None\<rparr>) p w)
     FormatTombstone ''/d'' \<lparr>pending = [], stop = False, rate_limit_map = (\<lambda>k. Some 5)\<rparr> []
     (disk_world\<lparr>steady_clock := 6\<rparr>))) = []"
proof -
  let ?raw = "\<lparr>header_time_date_stamp = None, misc_info = None, exception_of = None, module_list = None,
    thread_list = None, thread_name_list = None\<rparr>"
  let ?w = "disk_world\<lparr>steady_clock := 6\<rparr>"
  let ?st = "\<lparr>pending = [], stop = False, rate_limit_map = (\<lambda>k. Some 5)\<rparr>"
  obtain info where i: "ReadMinidump (\<lambda>_ _. Some ?raw) ''/d'' ?w = Inr info"
    by (simp add: ReadMinidump_def Let_def)
  obtain st' w' where r: "report_step (\<lambda>w p. ReadMinidump (\<lambda>_ _. Some ?raw) p w) FormatTombstone ''/d''
      ?st [] ?w = (st', w')" by fastforce
  have "suppressed ?st (crash_key info) (steady_clock ?w)"
    by (simp add: suppressed_def kRateLimitWindow_def)
  moreover have "out ?w = []" by (simp add: disk_world_def)
  ultimately show ?thesis using report_step_rate_limit [OF i r i] r by simp
qed


end
