(* ===== verification/Crash_Socket.thy ===== *)
theory Crash_Socket
  imports C_Strings
begin

text \<open>
  \<^verbatim>\<open>daemon/crash_socket.cpp\<close>: the registration socket. The operating system is the record
  \<open>net\<close>: what each path of the socket namespace names, and which calls of this process
  fail. A failing call is \<open>False\<close>, or its \<^verbatim>\<open>errno\<close>.
\<close>

section \<open>The socket namespace\<close>

datatype endpoint = Listening | Dead_Socket | Plain_File

record net =
  endpoint_at :: "string \<Rightarrow> endpoint option"
  world_accessible :: "string set"
  socket_ok :: bool
  probe_ok :: bool
  bind_permitted :: bool
  listen_ok :: bool

text \<open>\<^verbatim>\<open>sun_path\<close> has 108 bytes; the last one is the terminator.\<close>

definition sun_path :: "string \<Rightarrow> string" where
  "sun_path socket_path = truncate_to 108 socket_path"

definition connect_ok :: "net \<Rightarrow> string \<Rightarrow> bool" where
  "connect_ok n p = (endpoint_at n p = Some Listening)"

definition unlink :: "string \<Rightarrow> net \<Rightarrow> net" where
  "unlink p n = n\<lparr>endpoint_at := (endpoint_at n)(p := None),
     world_accessible := world_accessible n - {p}\<rparr>"

text \<open>\<^verbatim>\<open>bind\<close> needs a free path; \<^verbatim>\<open>chmod\<close> acts on the file that exists, if any.\<close>

definition bind :: "string \<Rightarrow> net \<Rightarrow> bool \<times> net" where
  "bind p n =
     (if bind_permitted n \<and> endpoint_at n p = None
      then (True, n\<lparr>endpoint_at := (endpoint_at n)(p \<mapsto> Dead_Socket)\<rparr>) else (False, n))"

definition chmod_all :: "string \<Rightarrow> net \<Rightarrow> net" where
  "chmod_all p n =
     (if endpoint_at n p = None then n else n\<lparr>world_accessible := insert p (world_accessible n)\<rparr>)"

definition listen :: "string \<Rightarrow> net \<Rightarrow> bool \<times> net" where
  "listen p n =
     (if listen_ok n then (True, n\<lparr>endpoint_at := (endpoint_at n)(p \<mapsto> Listening)\<rparr>) else (False, n))"

text \<open>Closing the listening descriptor; the file of a bound socket stays.\<close>

definition close_listener :: "string \<Rightarrow> net \<Rightarrow> net" where
  "close_listener p n =
     (if endpoint_at n p = Some Listening then n\<lparr>endpoint_at := (endpoint_at n)(p \<mapsto> Dead_Socket)\<rparr> else n)"

section \<open>Operations\<close>

text \<open>\<open>None\<close> is the return value -1; otherwise the path the socket is bound to.\<close>

definition CreateListenSocket :: "string \<Rightarrow> net \<Rightarrow> string option \<times> net" where
  "CreateListenSocket socket_path n =
     (if \<not> socket_ok n then (None, n)
      else let addr = sun_path socket_path in
        if probe_ok n \<and> connect_ok n addr then (None, n)
        else let n1 = unlink socket_path n in
          (case bind addr n1 of
             (False, n2) \<Rightarrow> (None, n2)
           | (True, n2) \<Rightarrow>
               (let n3 = chmod_all socket_path n2 in
                (case listen addr n3 of
                   (False, n4) \<Rightarrow> (None, n4)
                 | (True, n4) \<Rightarrow> (Some addr, n4)))))"

text \<open>
  The registration message: a payload and one control message. An \<^verbatim>\<open>int\<close> travels as its four
  bytes; \<^verbatim>\<open>CMSG_LEN(n)\<close> is the 16-byte header plus \<open>n\<close>.
\<close>

definition int_bytes :: "int \<Rightarrow> bytes" where
  "int_bytes i = le_bytes 4 (nat (i mod 2 ^ 32))"

definition bytes_int :: "bytes \<Rightarrow> int" where
  "bytes_int bs = signed_take_bit 31 (int (le_nat bs))"

definition int_range :: "int \<Rightarrow> bool" where
  "int_range i = (- (2 ^ 31) \<le> i \<and> i < 2 ^ 31)"

lemma bytes_int_bytes: "int_range i \<Longrightarrow> bytes_int (int_bytes i) = i"
proof -
  assume i: "int_range i"
  have "int (nat (i mod 2 ^ 32)) = take_bit 32 i" by (simp add: take_bit_eq_mod)
  then have "bytes_int (int_bytes i) = signed_take_bit 31 i"
    by (simp add: bytes_int_def int_bytes_def le_nat_le_bytes take_bit_eq_mod zmod_int signed_take_bit_take_bit
        flip: take_bit_eq_mod)
  then show ?thesis using i by (simp add: int_range_def signed_take_bit_int_eq_self)
qed

lemma length_int_bytes [simp]: "length (int_bytes i) = 4"
  by (simp add: int_bytes_def)

definition SOL_SOCKET :: int where "SOL_SOCKET = 1"
definition SCM_RIGHTS :: int where "SCM_RIGHTS = 1"

definition CMSG_LEN :: "nat \<Rightarrow> nat" where "CMSG_LEN n = 16 + n"

record cmsghdr =
  cmsg_len :: nat
  cmsg_level :: int
  cmsg_type :: int
  cmsg_data :: bytes

record msghdr =
  msg_iov :: bytes
  msg_control :: "cmsghdr option"

definition share_message :: "int \<Rightarrow> int \<Rightarrow> msghdr" where
  "share_message shared_client_fd handler_pid =
     \<lparr>msg_iov = int_bytes handler_pid,
      msg_control = Some \<lparr>cmsg_len = CMSG_LEN 4, cmsg_level = SOL_SOCKET, cmsg_type = SCM_RIGHTS,
        cmsg_data = int_bytes shared_client_fd\<rparr>\<rparr>"

text \<open>
  \<^verbatim>\<open>AcceptAndShareSocket\<close>: the calls it makes on the accepted connection. \<open>accepted\<close> is the
  result of \<^verbatim>\<open>accept4\<close>, \<open>send_result\<close> what \<^verbatim>\<open>sendmsg\<close> returns on a connection (the
  error, if any).
\<close>

datatype socket_call = Perror string errno | Sendmsg nat msghdr | CloseFd nat

definition EINTR :: errno where "EINTR = 4"
definition EAGAIN :: errno where "EAGAIN = 11"
definition EPIPE :: errno where "EPIPE = 32"

definition AcceptAndShareSocket ::
  "errno + nat \<Rightarrow> (nat \<Rightarrow> errno option) \<Rightarrow> int \<Rightarrow> int \<Rightarrow> socket_call list"
where
  "AcceptAndShareSocket accepted send_result shared_client_fd handler_pid =
     (case accepted of
        Inl e \<Rightarrow> if e \<noteq> EINTR \<and> e \<noteq> EAGAIN then [Perror ''accept4'' e] else []
      | Inr conn_fd \<Rightarrow>
          [Sendmsg conn_fd (share_message shared_client_fd handler_pid)] @
          (case send_result conn_fd of
             None \<Rightarrow> [] | Some e \<Rightarrow> if e \<noteq> EPIPE then [Perror ''sendmsg(SCM_RIGHTS)'' e] else []) @
          [CloseFd conn_fd])"

text \<open>
  With all system calls working and a path of at most 107 characters,
  \<^verbatim>\<open>CreateListenSocket\<close> refuses to start, changing nothing, exactly when a live daemon is
  listening there; otherwise it replaces whatever the path names by a listening socket that
  every user may connect to.
\<close>

lemma CreateListenSocket_result:
  assumes "length p \<le> 107" and "socket_ok n" and "probe_ok n" and "bind_permitted n" and "listen_ok n"
  shows "CreateListenSocket p n =
    (if endpoint_at n p = Some Listening then (None, n)
     else (Some p, n\<lparr>endpoint_at := (endpoint_at n)(p \<mapsto> Listening),
       world_accessible := insert p (world_accessible n)\<rparr>))"
proof -
  have "sun_path p = p" using assms(1) by (simp add: sun_path_def truncate_to_fits)
  then show ?thesis
    using assms(2-)
    by (simp add: CreateListenSocket_def connect_ok_def unlink_def bind_def chmod_all_def listen_def Let_def)
qed

section \<open>Properties\<close>

text \<open>
  With a longer path the socket lives at the first 107 characters, but the clean-up and
  the permissions go to the full path: a dead socket stays in the way and the daemon cannot
  start again, however often it tries.
\<close>

lemma long_path_cannot_restart:
  assumes "length p > 107" and "endpoint_at n (take 107 p) = Some Dead_Socket"
  shows "fst (CreateListenSocket p n) = None \<and>
    endpoint_at (snd (CreateListenSocket p n)) (take 107 p) = Some Dead_Socket"
proof -
  have "length (take 107 p) = 107" using assms(1) by simp
  then have "take 107 p \<noteq> p" using assms(1) by auto
  then show ?thesis
    using assms(2)
    by (simp add: CreateListenSocket_def sun_path_def truncate_to_def connect_ok_def unlink_def bind_def Let_def)
qed

lemma accepted_connection_closed:
  "count_list (AcceptAndShareSocket (Inr c) send fd hpid) (CloseFd c) = 1"
  by (simp add: AcceptAndShareSocket_def split: option.split)

end
