(* ===== verification/Watcher.thy ===== *)
theory Watcher
  imports Worker Crash_Socket Byte_Cells "HOL-Library.Sublist"
begin

unbundle bit_operations_syntax

text \<open>
  \<^verbatim>\<open>daemon/watcher.cpp\<close>: the event loop that turns inotify events into queued minidumps,
  its watchdog and its set-up. The system calls appear as their results: a tick of
  the loop is what \<^verbatim>\<open>poll\<close>, \<^verbatim>\<open>accept4\<close> and \<^verbatim>\<open>read\<close> return in one iteration. The threads of the
  daemon are interleaved in the theory \<open>Daemon\<close>.
\<close>

section \<open>inotify events\<close>

definition IN_MOVED_TO :: u32 where "IN_MOVED_TO = 0x80"

definition inotify_header :: nat where "inotify_header = 16"

text \<open>
  Reads of the event buffer; \<open>None\<close> is a read outside it. \<^verbatim>\<open>strnlen\<close> looks at most at
  \<open>n\<close> bytes; \<^verbatim>\<open>strcmp\<close> with a literal stops at the first difference.
\<close>

definition event_u32 :: "bytes \<Rightarrow> nat \<Rightarrow> u32 option" where
  "event_u32 buf off =
     (if off + 4 \<le> length buf then Some (word_of_nat (le_nat (sub_bytes off 4 buf))) else None)"

fun strnlen :: "bytes \<Rightarrow> nat \<Rightarrow> nat \<Rightarrow> nat option" where
  "strnlen buf off 0 = Some 0"
| "strnlen buf off (Suc n) =
     (case buf_at buf off of
        None \<Rightarrow> None
      | Some b \<Rightarrow> if b = 0 then Some 0 else map_option Suc (strnlen buf (Suc off) n))"

fun strcmp_lit :: "bytes \<Rightarrow> nat \<Rightarrow> bytes \<Rightarrow> bool option" where
  "strcmp_lit buf off [] = map_option (\<lambda>b. b = 0) (buf_at buf off)"
| "strcmp_lit buf off (c # cs) =
     (case buf_at buf off of
        None \<Rightarrow> None | Some b \<Rightarrow> if b \<noteq> c then Some False else strcmp_lit buf (Suc off) cs)"

text \<open>
  What one event contributes: \<open>Some []\<close> for the \<^verbatim>\<open>continue\<close>s, or the path to push.
\<close>

definition event_paths :: "string \<Rightarrow> bytes \<Rightarrow> nat \<Rightarrow> u32 \<Rightarrow> nat \<Rightarrow> string list option" where
  "event_paths dir buf name_off emask len =
     (if emask AND IN_MOVED_TO = 0 then Some []
      else if len = 0 then Some []
      else case strnlen buf name_off len of
        None \<Rightarrow> None
      | Some nlen \<Rightarrow>
          if nlen < 4 then Some []
          else (case strcmp_lit buf (name_off + nlen - 4) (bytes_of ''.dmp'') of
            None \<Rightarrow> None
          | Some eq \<Rightarrow>
              if eq then Some [dir @ ''/'' @ map char_of_byte (sub_bytes name_off nlen buf)]
              else Some []))"

function EnqueueInotifyEvents :: "string \<Rightarrow> WorkerState \<Rightarrow> bytes \<Rightarrow> nat \<Rightarrow> WorkerState option" where
  "EnqueueInotifyEvents dir state buf offset =
     (if offset < length buf then
        (case (event_u32 buf (offset + 4), event_u32 buf (offset + 12)) of
           (Some emask, Some len) \<Rightarrow>
             (case event_paths dir buf (offset + inotify_header) emask (unat len) of
                None \<Rightarrow> None
              | Some ps \<Rightarrow>
                  EnqueueInotifyEvents dir (fold push_pending ps state) buf
                    (offset + inotify_header + unat len))
         | _ \<Rightarrow> None)
      else Some state)"
  by pat_completeness auto
termination
  by (relation "measure (\<lambda>(dir, state, buf, offset). length buf - offset)") (auto simp: inotify_header_def)

declare EnqueueInotifyEvents.simps [simp del]

section \<open>Set-up\<close>

definition mkdir :: "string \<Rightarrow> world \<Rightarrow> world" where
  "mkdir d w = (if lookup w d = None \<and> unwritable w d = None then set_node d Directory w else w)"

definition EnsureDbDirs :: "string \<Rightarrow> string \<Rightarrow> string \<Rightarrow> world \<Rightarrow> bool \<times> world" where
  "EnsureDbDirs db_dir new_dir pending_path w =
     (if \<not> is_directory w db_dir then (False, w)
      else (True, mkdir pending_path (mkdir new_dir w)))"

text \<open>
  The descriptors that \<^verbatim>\<open>InitWatcherFds\<close> opens. The listening socket is named by the path
  it is bound to, the others are numbers; the answers of the remaining system calls are given.
\<close>

record kernel_answers =
  socketpair :: "(int \<times> int) option"
  inotify_init1 :: int
  inotify_add_watch :: "int \<Rightarrow> string \<Rightarrow> u32 \<Rightarrow> int"
  getpid :: int
  server_init_ok :: bool

record WatcherFds =
  listen_fd :: string
  inotify_fd :: int
  server_fd :: int
  client_fd :: int
  inotify_watch_fd :: int

definition InitWatcherFds :: "string \<Rightarrow> string \<Rightarrow> kernel_answers \<Rightarrow> net \<Rightarrow> WatcherFds option \<times> net" where
  "InitWatcherFds socket_path pending_path ker n =
     (case CreateListenSocket socket_path n of
        (None, n1) \<Rightarrow> (None, n1)
      | (Some addr, n1) \<Rightarrow>
          (case socketpair ker of
             None \<Rightarrow> (None, close_listener addr n1)
           | Some (server, client) \<Rightarrow>
               (let ifd = inotify_init1 ker in
                if ifd < 0 then (None, close_listener addr n1)
                else let watch = inotify_add_watch ker ifd pending_path IN_MOVED_TO in
                if watch < 0 then (None, close_listener addr n1)
                else (Some \<lparr>listen_fd = addr, inotify_fd = ifd, server_fd = server, client_fd = client,
                  inotify_watch_fd = watch\<rparr>, n1))))"

text \<open>The process annotations that \<^verbatim>\<open>RunWatcher\<close> gives to Crashpad's exception handler.\<close>

definition kNoAnnotations :: "(string \<times> string) list" where "kNoAnnotations = []"

section \<open>The event loop\<close>

text \<open>
  One iteration: the shutdown flag where it is tested, the reading of the steady clock after
  \<^verbatim>\<open>poll\<close>, in nanoseconds, the result of \<^verbatim>\<open>poll\<close> (an error, or
  the two ready flags, none of them on a timeout), of \<^verbatim>\<open>accept4\<close> and \<^verbatim>\<open>sendmsg\<close>, and of \<^verbatim>\<open>read\<close>.
\<close>

record tick =
  g_stop :: bool
  tick_now :: int
  poll_result :: "errno + bool \<times> bool"
  accept_result :: "errno + nat"
  send_result :: "nat \<Rightarrow> errno option"
  read_result :: "errno + bytes"

datatype loop_step = Continue WorkerState "socket_call list" | Break WorkerState "socket_call list"

definition loop_body :: "WatcherFds \<Rightarrow> int \<Rightarrow> string \<Rightarrow> WorkerState \<Rightarrow> tick \<Rightarrow> loop_step option" where
  "loop_body fds handler_pid dir state t =
     (case poll_result t of
        Inl e \<Rightarrow> if e = EINTR then Some (Continue state []) else Some (Break state [Perror ''poll'' e])
      | Inr (inotify_ready, listen_ready) \<Rightarrow>
          (let calls = (if listen_ready
                 then AcceptAndShareSocket (accept_result t) (send_result t) (client_fd fds) handler_pid
                 else []) in
           if \<not> inotify_ready then Some (Continue state calls)
           else (case read_result t of
              Inl e \<Rightarrow>
                if e = EINTR \<or> e = EAGAIN then Some (Continue state calls)
                else Some (Break state (calls @ [Perror ''read(inotify)'' e]))
            | Inr buf \<Rightarrow>
                map_option (\<lambda>s. Continue s calls) (EnqueueInotifyEvents dir state buf 0))))"

text \<open>
  The loop over the ticks that happen; it is still running when they are used up. The flag
  of the result tells whether it has ended.
\<close>

fun RunEventLoop ::
  "WatcherFds \<Rightarrow> int \<Rightarrow> string \<Rightarrow> WorkerState \<Rightarrow> tick list \<Rightarrow> (bool \<times> WorkerState \<times> socket_call list) option"
where
  "RunEventLoop fds handler_pid dir state [] = Some (False, state, [])"
| "RunEventLoop fds handler_pid dir state (t # ts) =
     (if g_stop t then Some (True, state, [])
      else case loop_body fds handler_pid dir state t of
        None \<Rightarrow> None
      | Some (Break state1 calls) \<Rightarrow> Some (True, state1, calls)
      | Some (Continue state1 calls) \<Rightarrow>
          (case RunEventLoop fds handler_pid dir state1 ts of
             None \<Rightarrow> None
           | Some (ended, state2, calls2) \<Rightarrow> Some (ended, state2, calls @ calls2)))"

text \<open>
  With \<^verbatim>\<open>HAVE_LIBSYSTEMD\<close> the loop also kicks the watchdog of systemd. The times of the
  kicks, over the iterations that happen, \<open>last_watchdog\<close> being the time when the loop starts:
\<close>

definition kWatchdogKickInterval :: int where "kWatchdogKickInterval = 5 * 10 ^ 9"

fun watchdog_kicks :: "int \<Rightarrow> tick list \<Rightarrow> int list" where
  "watchdog_kicks last_watchdog [] = []"
| "watchdog_kicks last_watchdog (t # ts) =
     (if g_stop t then []
      else if tick_now t - last_watchdog \<ge> kWatchdogKickInterval
      then tick_now t # watchdog_kicks (tick_now t) ts
      else watchdog_kicks last_watchdog ts)"

definition iteration_times :: "tick list \<Rightarrow> int list" where
  "iteration_times ts = map tick_now (takeWhile (\<lambda>t. \<not> g_stop t) ts)"

lemma watchdog_gaps:
  assumes "p - l < kWatchdogKickInterval" and "successively (\<lambda>a b. b - a \<le> d) (p # iteration_times ts)"
  shows "successively (\<lambda>a b. b - a < kWatchdogKickInterval + d) (l # watchdog_kicks l ts) \<and>
    last (p # iteration_times ts) - last (l # watchdog_kicks l ts) < kWatchdogKickInterval"
  using assms
proof (induction ts arbitrary: p l)
  case (Cons t ts)
  show ?case
  proof (cases "g_stop t")
    case False
    then have times: "iteration_times (t # ts) = tick_now t # iteration_times ts"
      by (simp add: iteration_times_def)
    then have step: "tick_now t - p \<le> d"
      and rest: "successively (\<lambda>a b. b - a \<le> d) (tick_now t # iteration_times ts)"
      using Cons.prems(2) by simp_all
    show ?thesis
    proof (cases "tick_now t - l \<ge> kWatchdogKickInterval")
      case True
      have "tick_now t - l < kWatchdogKickInterval + d" using step Cons.prems(1) by simp
      moreover have "tick_now t - tick_now t < kWatchdogKickInterval" by (simp add: kWatchdogKickInterval_def)
      note Cons.IH [OF this rest]
      ultimately show ?thesis using False True times by simp
    next
      case small: False
      then have "tick_now t - l < kWatchdogKickInterval" by simp
      from Cons.IH [OF this rest] show ?thesis using False small times by simp
    qed
  qed (use Cons.prems in \<open>simp add: iteration_times_def\<close>)
qed (simp add: iteration_times_def)

section \<open>Events as the kernel writes them\<close>

text \<open>
  An event has a 16-byte header and a name padded with at least one NUL (no name at all for
  an event on the directory itself).
\<close>

record inotify_event =
  event_wd :: nat
  event_mask :: u32
  event_cookie :: nat
  event_name :: string
  event_padding :: nat

definition event_well_formed :: "inotify_event \<Rightarrow> bool" where
  "event_well_formed e =
     ((\<forall>c\<in>set (event_name e). byte_of_char c \<noteq> 0) \<and>
      (event_name e \<noteq> [] \<longrightarrow> 0 < event_padding e) \<and>
      length (event_name e) + event_padding e < 2 ^ 32)"

definition encode_event :: "inotify_event \<Rightarrow> bytes" where
  "encode_event e =
     le_bytes 4 (event_wd e) @ le_bytes 4 (unat (event_mask e)) @ le_bytes 4 (event_cookie e) @
     le_bytes 4 (length (event_name e) + event_padding e) @ bytes_of (event_name e) @
     replicate (event_padding e) 0"

definition is_new_dump :: "inotify_event \<Rightarrow> bool" where
  "is_new_dump e = (event_mask e AND IN_MOVED_TO \<noteq> 0 \<and> suffix ''.dmp'' (event_name e))"

section \<open>What the poll loop queues\<close>

lemma sub_bytes_skip: "sub_bytes (length a + k) n (a @ b) = sub_bytes k n b"
  by (simp add: sub_bytes_def)

lemma buf_at_skip: "buf_at (a @ b # c) (length a) = Some b"
  by (simp add: buf_at_def)

lemma strnlen_terminated:
  assumes "0 \<notin> set bs" and "length bs < n"
  shows "strnlen (pre @ bs @ 0 # post) (length pre) n = Some (length bs)"
  using assms
proof (induction bs arbitrary: pre n)
  case Nil
  then show ?case using buf_at_skip [of pre 0 post] by (cases n) simp_all
next
  case (Cons b bs)
  then obtain m where n: "n = Suc m" by (cases n) simp_all
  have "strnlen ((pre @ [b]) @ bs @ 0 # post) (length (pre @ [b])) m = Some (length bs)"
    using Cons.prems n by (intro Cons.IH) simp_all
  then show ?case using Cons.prems buf_at_skip [of pre b "bs @ 0 # post"] by (simp add: n)
qed

lemma strcmp_lit_terminated:
  assumes "length bs = length lit"
  shows "strcmp_lit (pre @ bs @ 0 # post) (length pre) lit = Some (bs = lit)"
  using assms
proof (induction lit arbitrary: pre bs)
  case Nil
  then show ?case using buf_at_skip [of pre 0 post] by simp
next
  case (Cons c lit)
  then obtain b bs' where bs: "bs = b # bs'" by (cases bs) simp_all
  have "strcmp_lit ((pre @ [b]) @ bs' @ 0 # post) (length (pre @ [b])) lit = Some (bs' = lit)"
    using Cons.prems bs by (intro Cons.IH) simp
  then show ?case using buf_at_skip [of pre b "bs' @ 0 # post"] by (cases "b = c") (simp_all add: bs)
qed

lemma bytes_of_inject [simp]: "bytes_of a = bytes_of b \<longleftrightarrow> a = b"
  by (metis map_char_bytes_of)

lemma suffix_drop: "length p \<le> length s \<Longrightarrow> suffix p s \<longleftrightarrow> drop (length s - length p) s = p"
  by (auto simp: suffix_def) (metis append_take_drop_id)

lemma nul_free: "\<forall>c\<in>set s. byte_of_char c \<noteq> 0 \<Longrightarrow> 0 \<notin> set (bytes_of s)"
  by (auto simp: bytes_of_def image_iff)

text \<open>What an event with a name contributes, when its bytes stand at \<open>length pre\<close>.\<close>

lemma event_paths_name:
  assumes nul: "\<forall>c\<in>set s. byte_of_char c \<noteq> 0" and len: "length s < len"
  shows "event_paths dir (pre @ bytes_of s @ 0 # post) (length pre) m len =
    Some (if m AND IN_MOVED_TO \<noteq> 0 \<and> suffix ''.dmp'' s then [dir @ ''/'' @ s] else [])"
proof -
  let ?buf = "pre @ bytes_of s @ 0 # post" and ?k = "length s - 4"
  have n: "strnlen ?buf (length pre) len = Some (length s)"
    using strnlen_terminated [OF nul_free [OF nul]] len by simp
  show ?thesis
  proof (cases "length s < 4")
    case True
    then have "\<not> suffix ''.dmp'' s" by (auto dest: suffix_length_le)
    then show ?thesis using True n len by (simp add: event_paths_def)
  next
    case False
    have buf: "?buf = (pre @ bytes_of (take ?k s)) @ bytes_of (drop ?k s) @ 0 # post"
      by (simp add: bytes_of_def flip: map_append)
    have off: "length pre + length s - 4 = length (pre @ bytes_of (take ?k s))" using False by simp
    have "strcmp_lit ((pre @ bytes_of (take ?k s)) @ bytes_of (drop ?k s) @ 0 # post)
        (length (pre @ bytes_of (take ?k s))) (bytes_of ''.dmp'') = Some (bytes_of (drop ?k s) = bytes_of ''.dmp'')"
      using False by (intro strcmp_lit_terminated) simp
    then have c: "strcmp_lit ?buf (length pre + length s - 4) (bytes_of ''.dmp'') = Some (drop ?k s = ''.dmp'')"
      by (simp only: buf [symmetric] off [symmetric] bytes_of_inject)
    have sfx: "suffix ''.dmp'' s \<longleftrightarrow> drop ?k s = ''.dmp''" using False suffix_drop [of "''.dmp''" s] by (simp add: numeral_eq_Suc)
    have nm: "map char_of_byte (sub_bytes (length pre) (length s) ?buf) = s"
      by (simp add: sub_bytes_def)
    show ?thesis using False len by (simp only: event_paths_def n option.case c sfx nm) simp
  qed
qed

lemma length_encode_event:
  "length (encode_event e) = 16 + length (event_name e) + event_padding e"
  by (simp add: encode_event_def)

lemma u32_le_bytes: "word_of_nat (le_nat (le_bytes 4 (unat m))) = (m :: u32)"
  using unat_u32_less [of m] by (simp add: le_nat_le_bytes)

lemma event_u32_skip:
  "length xs = k \<Longrightarrow> event_u32 (pre @ xs @ le_bytes 4 v @ post) (length pre + k) =
    Some (word_of_nat (le_nat (le_bytes 4 v)))"
  by (simp add: event_u32_def sub_bytes_skip) (simp add: sub_bytes_def)

lemma event_u32_field:
  assumes "length xs = k" and "v < 2 ^ 32"
  shows "map_option unat (event_u32 (pre @ xs @ le_bytes 4 v @ post) (length pre + k)) = Some v"
  using assms by (simp add: event_u32_skip le_nat_le_bytes unat_of_nat_small)

lemma event_fields:
  assumes "event_well_formed e"
  shows "event_u32 (pre @ encode_event e @ post) (length pre + 4) = Some (event_mask e)"
    and "map_option unat (event_u32 (pre @ encode_event e @ post) (length pre + 12)) =
      Some (length (event_name e) + event_padding e)"
proof -
  let ?rest = "bytes_of (event_name e) @ replicate (event_padding e) 0 @ post"
  have "encode_event e @ post = le_bytes 4 (event_wd e) @ le_bytes 4 (unat (event_mask e)) @
      le_bytes 4 (event_cookie e) @ le_bytes 4 (length (event_name e) + event_padding e) @ ?rest"
    by (simp add: encode_event_def)
  then show "event_u32 (pre @ encode_event e @ post) (length pre + 4) = Some (event_mask e)"
    using event_u32_skip [of "le_bytes 4 (event_wd e)" 4 pre "unat (event_mask e)"]
    by (simp add: u32_le_bytes)
  have "encode_event e @ post = (le_bytes 4 (event_wd e) @ le_bytes 4 (unat (event_mask e)) @
      le_bytes 4 (event_cookie e)) @ le_bytes 4 (length (event_name e) + event_padding e) @ ?rest"
    by (simp add: encode_event_def)
  moreover have "length (event_name e) + event_padding e < 2 ^ 32"
    using assms by (simp add: event_well_formed_def)
  ultimately show "map_option unat (event_u32 (pre @ encode_event e @ post) (length pre + 12)) =
      Some (length (event_name e) + event_padding e)"
    using event_u32_field [of "le_bytes 4 (event_wd e) @ le_bytes 4 (unat (event_mask e)) @
      le_bytes 4 (event_cookie e)" 12 "length (event_name e) + event_padding e" pre ?rest]
    by simp
qed

lemma fold_push_append: "fold push_pending ps (fold push_pending qs st) = fold push_pending (qs @ ps) st"
  by simp

definition dump_paths :: "string \<Rightarrow> inotify_event \<Rightarrow> string list" where
  "dump_paths dir e = (if is_new_dump e then [dir @ ''/'' @ event_name e] else [])"

lemma event_paths_encoded:
  assumes "event_well_formed e"
  shows "event_paths dir (pre @ encode_event e @ post) (length pre + 16) (event_mask e)
    (length (event_name e) + event_padding e) = Some (dump_paths dir e)"
proof (cases "event_padding e")
  case 0
  then have "event_name e = []" using assms by (auto simp: event_well_formed_def)
  then show ?thesis using 0 by (simp add: event_paths_def dump_paths_def is_new_dump_def)
next
  case (Suc m)
  let ?head = "le_bytes 4 (event_wd e) @ le_bytes 4 (unat (event_mask e)) @
    le_bytes 4 (event_cookie e) @ le_bytes 4 (length (event_name e) + event_padding e)"
  have buf: "pre @ encode_event e @ post =
      (pre @ ?head) @ bytes_of (event_name e) @ 0 # (replicate m 0 @ post)"
    by (simp add: encode_event_def Suc)
  have off: "length pre + 16 = length (pre @ ?head)" by simp
  show ?thesis unfolding buf off
    using assms Suc by (subst event_paths_name) (auto simp: event_well_formed_def dump_paths_def is_new_dump_def)
qed

lemma enqueue_one_event:
  assumes "event_well_formed e"
  shows "EnqueueInotifyEvents dir st (pre @ encode_event e @ post) (length pre) =
    EnqueueInotifyEvents dir (fold push_pending (dump_paths dir e) st) (pre @ encode_event e @ post)
      (length (pre @ encode_event e))"
proof -
  obtain len where len: "event_u32 (pre @ encode_event e @ post) (length pre + 12) = Some len"
    "unat len = length (event_name e) + event_padding e"
    using event_fields(2) [OF assms, of pre post] by auto
  have m: "event_u32 (pre @ encode_event e @ post) (length pre + 4) = Some (event_mask e)"
    using event_fields(1) [OF assms] .
  have p: "event_paths dir (pre @ encode_event e @ post) (length pre + 16) (event_mask e) (unat len) =
      Some (dump_paths dir e)"
    using event_paths_encoded [OF assms] len(2) by simp
  show ?thesis
    by (subst EnqueueInotifyEvents.simps)
      (simp add: len m p [unfolded len(2)] inotify_header_def length_encode_event add.assoc)
qed

lemma enqueue_events_from:
  assumes "\<forall>e\<in>set es. event_well_formed e"
  shows "EnqueueInotifyEvents dir st (pre @ concat (map encode_event es)) (length pre) =
    Some (fold push_pending (concat (map (dump_paths dir) es)) st)"
  using assms
proof (induction es arbitrary: pre st)
  case Nil
  then show ?case by (simp add: EnqueueInotifyEvents.simps)
next
  case (Cons e es)
  then show ?case
    using enqueue_one_event [of e dir st pre "concat (map encode_event es)"]
      Cons.IH [of _ "pre @ encode_event e"] by simp
qed

lemma dump_paths_filter:
  "concat (map (dump_paths dir) es) = map (\<lambda>e. dir @ ''/'' @ event_name e) (filter is_new_dump es)"
  by (induction es) (simp_all add: dump_paths_def)

text \<open>
  C11. Reading back the events of one \<^verbatim>\<open>read\<close> queues exactly the files renamed into the
  directory whose names end in .dmp, each once, in the order of the events, behind what the
  queue held.
\<close>

theorem EnqueueInotifyEvents_decodes:
  assumes "\<forall>e\<in>set es. event_well_formed e"
  shows "\<exists>st'. EnqueueInotifyEvents dir st (concat (map encode_event es)) 0 = Some st' \<and>
    pending st' = pending st @ map (\<lambda>e. dir @ ''/'' @ event_name e) (filter is_new_dump es) \<and>
    stop st' = stop st \<and> rate_limit_map st' = rate_limit_map st"
proof -
  have "stop (fold push_pending ps st) = stop st \<and> rate_limit_map (fold push_pending ps st) = rate_limit_map st" for ps
    by (induction ps arbitrary: st) (simp_all add: push_pending_def)
  then show ?thesis
    using enqueue_events_from [OF assms, of dir st "[]"] work_queue.abs_fold_enq [of _ st]
    by (simp add: dump_paths_filter)
qed

theorem EnqueueInotifyEvents_decodes_witness:
  "\<exists>st'. EnqueueInotifyEvents ''/db/pending'' \<lparr>pending = [''/db/pending/old.dmp''], stop = False, rate_limit_map = Map.empty\<rparr>
      (concat (map encode_event
        [\<lparr>event_wd = 1, event_mask = 0x80, event_cookie = 7, event_name = ''a.dmp'', event_padding = 11\<rparr>,
         \<lparr>event_wd = 1, event_mask = 0x80, event_cookie = 8, event_name = ''a.meta'', event_padding = 10\<rparr>])) 0 = Some st' \<and>
     pending st' = [''/db/pending/old.dmp'', ''/db/pending/a.dmp'']"
  using EnqueueInotifyEvents_decodes [of "[\<lparr>event_wd = 1, event_mask = 0x80, event_cookie = 7, event_name = ''a.dmp'', event_padding = 11\<rparr>,
         \<lparr>event_wd = 1, event_mask = 0x80, event_cookie = 8, event_name = ''a.meta'', event_padding = 10\<rparr>]"
      "''/db/pending''" "\<lparr>pending = [''/db/pending/old.dmp''], stop = False, rate_limit_map = Map.empty\<rparr>"]
  by (auto simp: event_well_formed_def byte_of_char_def is_new_dump_def IN_MOVED_TO_def suffix_def)

section \<open>The watchdog\<close>

text \<open>
  C23. If no iteration of the event loop takes longer than \<open>d\<close>, the watchdog is kicked at
  intervals shorter than five seconds plus \<open>d\<close>, and at every iteration the last kick is less
  than five seconds ago. So iterations of at most five seconds satisfy the limit of ten
  seconds that the service file sets.
\<close>

theorem watchdog_kicked_in_time:
  assumes "successively (\<lambda>a b. b - a \<le> d) (start # iteration_times ts)"
  shows "successively (\<lambda>a b. b - a < kWatchdogKickInterval + d) (start # watchdog_kicks start ts) \<and>
    last (start # iteration_times ts) - last (start # watchdog_kicks start ts) < kWatchdogKickInterval \<and>
    (d \<le> 5 * 10 ^ 9 \<longrightarrow> successively (\<lambda>a b. b - a < 10 * 10 ^ 9) (start # watchdog_kicks start ts))"
proof -
  have "start - start < kWatchdogKickInterval" by (simp add: kWatchdogKickInterval_def)
  note g = watchdog_gaps [OF this assms]
  have "d \<le> 5 * 10 ^ 9 \<Longrightarrow> kWatchdogKickInterval + d \<le> 10 * 10 ^ 9" by (simp add: kWatchdogKickInterval_def)
  then show ?thesis using g by (auto elim!: successively_mono)
qed

theorem watchdog_kicked_in_time_witness:
  "successively (\<lambda>a b. b - a < 7 * 10 ^ 9) (0 # watchdog_kicks 0 (map (\<lambda>n. \<lparr>g_stop = n = 9, tick_now = 2 * 10 ^ 9 * n,
     poll_result = Inr (False, False), accept_result = Inl 0, send_result = (\<lambda>_. None), read_result = Inl 0\<rparr>) [1..10]))"
proof -
  let ?ts = "map (\<lambda>n. \<lparr>g_stop = n = 9, tick_now = 2 * 10 ^ 9 * n,
     poll_result = Inr (False, False), accept_result = Inl 0, send_result = (\<lambda>_. None), read_result = Inl 0\<rparr>) [1..10]"
  have "[1..10] = [1, 2, 3, 4, 5, 6, 7, 8, 9, 10 :: int]" by (simp add: upto_rec1)
  then have "successively (\<lambda>a b. b - a \<le> 2 * 10 ^ 9) (0 # iteration_times ?ts)"
    by (simp add: iteration_times_def)
  from watchdog_kicked_in_time [OF this] show ?thesis by (simp add: kWatchdogKickInterval_def)
qed

end
