(* ===== verification/Daemon.thy ===== *)
theory Daemon
  imports Watcher
begin

text \<open>
  \<^verbatim>\<open>RunWatcher\<close> of \<^verbatim>\<open>daemon/watcher.cpp\<close>: the start of the daemon, and the interleavings of
  its three threads up to the end of the shutdown, as a step relation with its invariant.
\<close>

section \<open>The daemon's state and steps\<close>

text \<open>
  The arguments of \<^verbatim>\<open>RunWatcher\<close>, with the third-party minidump reader, and the state that
  its threads share with the kernel. \<open>stop_flag\<close> is the global \<^verbatim>\<open>g_stop\<close>, \<open>server_ready\<close> the
  result of \<^verbatim>\<open>InitializeWithClient\<close> in the handler thread, and \<open>clients\<close> counts the processes that
  hold a copy of the shared descriptor. \<open>arrived\<close> and \<open>processed\<close> are histories: every event on
  the watched directory, and every path the worker has finished with.
\<close>

record watcher_config =
  db_path :: string
  socket_path :: string
  prune_cfg :: DiskManagerConfig
  export_path :: string
  patch_build_ids :: bool
  breakpad_read :: "world \<Rightarrow> string \<Rightarrow> breakpad option"

datatype phase = Polling | Joining_Handler | Joining_Worker | Exited

record daemon =
  at :: phase
  fds :: WatcherFds
  handler_pid :: int
  stop_flag :: bool
  server_ready :: bool
  handler_running :: bool
  clients :: nat
  worker :: WorkerState
  busy :: "string option"
  worker_returned :: bool
  unread :: "inotify_event list"
  sent :: "socket_call list"
  os :: world
  sockets :: net
  arrived :: "inotify_event list"
  processed :: "string list"

definition watched_dir :: "watcher_config \<Rightarrow> string" where
  "watched_dir cfg = db_path cfg @ ''/pending''"

text \<open>
  \<^verbatim>\<open>RunWatcher\<close> up to the event loop; no state is the return value 1. The third-party
  \<^verbatim>\<open>CrashReportDatabase::Initialize\<close> is the parameter \<open>initialize\<close>.
\<close>

definition RunWatcher_setup ::
  "(string \<Rightarrow> world \<Rightarrow> world option) \<Rightarrow> kernel_answers \<Rightarrow> watcher_config \<Rightarrow> world \<Rightarrow> net \<Rightarrow> daemon option"
where
  "RunWatcher_setup initialize ker cfg w n =
     (let new_dir = db_path cfg @ ''/new'' in
      case EnsureDbDirs (db_path cfg) new_dir (watched_dir cfg) w of
        (False, w1) \<Rightarrow> None
      | (True, w1) \<Rightarrow>
          (case initialize (db_path cfg) w1 of
             None \<Rightarrow> None
           | Some w2 \<Rightarrow>
               (case InitWatcherFds (socket_path cfg) (watched_dir cfg) ker n of
                  (None, n1) \<Rightarrow> None
                | (Some fs, n1) \<Rightarrow>
                    Some \<lparr>at = Polling, fds = fs, handler_pid = getpid ker, stop_flag = False,
                      server_ready = server_init_ok ker, handler_running = True, clients = 0,
                      worker = \<lparr>pending = [], stop = False, rate_limit_map = Map.empty\<rparr>,
                      busy = None, worker_returned = False, unread = [], sent = [], os = w2,
                      sockets = n1, arrived = [], processed = []\<rparr>)))"

text \<open>
  What the kernel hands to one iteration: a successful \<^verbatim>\<open>read\<close> takes whole events from the
  front of the queue, at most as many as fit into the buffer.
\<close>

definition kInotifyEventBufferCount :: nat where "kInotifyEventBufferCount = 16"

definition does_read :: "tick \<Rightarrow> bool" where
  "does_read t = (case poll_result t of Inl _ \<Rightarrow> False | Inr (inotify_ready, _) \<Rightarrow> inotify_ready)"

definition kernel_read :: "tick \<Rightarrow> inotify_event list \<Rightarrow> inotify_event list \<Rightarrow> bool" where
  "kernel_read t q rest =
     (if does_read t \<and> (\<exists>buf. read_result t = Inr buf)
      then \<exists>es. q = es @ rest \<and> read_result t = Inr (concat (map encode_event es)) \<and>
        length (concat (map encode_event es)) \<le> kInotifyEventBufferCount * (inotify_header + 256)
      else rest = q)"

text \<open>The tombstone operations that the daemon's worker is given, \<^verbatim>\<open>daemon/real_tombstone.cpp\<close>.\<close>

definition RealTombstone_ReadMinidump ::
  "(world \<Rightarrow> string \<Rightarrow> breakpad option) \<Rightarrow> world \<Rightarrow> string \<Rightarrow> MinidumpInfo status_or"
where
  "RealTombstone_ReadMinidump breakpad_rd w p = ReadMinidump breakpad_rd p w"

definition RealTombstone_FormatTombstone :: "MinidumpInfo \<Rightarrow> string" where
  "RealTombstone_FormatTombstone info = FormatTombstone info"

definition process :: "watcher_config \<Rightarrow> string \<Rightarrow> WorkerState \<Rightarrow> world \<Rightarrow> (WorkerState \<times> world) option" where
  "process cfg p st w =
     ProcessNewMinidump (RealTombstone_ReadMinidump (breakpad_read cfg)) RealTombstone_FormatTombstone p st
       (prune_cfg cfg) (export_path cfg) (patch_build_ids cfg) w"

text \<open>\<^verbatim>\<open>SetupSignalHandlers\<close>: the signals whose handler is \<^verbatim>\<open>HandleSignal\<close>.\<close>

definition SIGINT :: int where "SIGINT = 2"
definition SIGTERM :: int where "SIGTERM = 15"

definition SetupSignalHandlers :: "int set" where
  "SetupSignalHandlers = {SIGTERM, SIGINT}"

definition HandleSignal :: "int \<Rightarrow> daemon \<Rightarrow> daemon" where
  "HandleSignal sig s = s\<lparr>stop_flag := True\<rparr>"

text \<open>The processes that an iteration hands the shared descriptor to.\<close>

definition new_clients :: "tick \<Rightarrow> nat" where
  "new_clients t =
     (case (poll_result t, accept_result t) of
        (Inr (_, listen_ready), Inr conn) \<Rightarrow> if listen_ready \<and> send_result t conn = None then 1 else 0
      | _ \<Rightarrow> 0)"

text \<open>
  The interleavings of the poll loop and the main thread's shutdown (one thread), the handler
  thread, and the worker. The kernel and other processes may act at any time
  (\<open>world_step\<close>); dumps are renamed into the directory while the handler thread runs. A client
  may end, or fork and so pass its copy of the descriptor on. Crashpad's server returns when
  no copy of the client end is left, the daemon's own being closed after the poll loop; it
  returns at once when its initialisation failed.
\<close>

inductive daemon_step :: "watcher_config \<Rightarrow> daemon \<Rightarrow> daemon \<Rightarrow> bool" for cfg where
  world_step: "daemon_step cfg s (s\<lparr>os := w'\<rparr>)"
| dump_step:
    "handler_running s \<Longrightarrow> event_well_formed e \<Longrightarrow>
     daemon_step cfg s (s\<lparr>unread := unread s @ [e], arrived := arrived s @ [e], os := w'\<rparr>)"
| poll_step:
    "at s = Polling \<Longrightarrow> g_stop t = stop_flag s \<Longrightarrow> \<not> g_stop t \<Longrightarrow> kernel_read t (unread s) rest \<Longrightarrow>
     loop_body (fds s) (handler_pid s) (watched_dir cfg) (worker s) t = Some (Continue st' calls) \<Longrightarrow>
     daemon_step cfg s (s\<lparr>worker := st', unread := rest, sent := sent s @ calls,
       clients := clients s + new_clients t\<rparr>)"
| break_step:
    "at s = Polling \<Longrightarrow> g_stop t = stop_flag s \<Longrightarrow> \<not> g_stop t \<Longrightarrow> kernel_read t (unread s) rest \<Longrightarrow>
     loop_body (fds s) (handler_pid s) (watched_dir cfg) (worker s) t = Some (Break st' calls) \<Longrightarrow>
     daemon_step cfg s (s\<lparr>at := Joining_Handler, worker := st', unread := rest, sent := sent s @ calls,
       clients := clients s + new_clients t\<rparr>)"
| signal_step: "sig \<in> SetupSignalHandlers \<Longrightarrow> daemon_step cfg s (HandleSignal sig s)"
| stop_step: "at s = Polling \<Longrightarrow> stop_flag s \<Longrightarrow> daemon_step cfg s (s\<lparr>at := Joining_Handler\<rparr>)"
| client_exit_step: "0 < clients s \<Longrightarrow> daemon_step cfg s (s\<lparr>clients := clients s - 1\<rparr>)"
| client_fork_step: "0 < clients s \<Longrightarrow> daemon_step cfg s (s\<lparr>clients := clients s + 1\<rparr>)"
| handler_step:
    "handler_running s \<Longrightarrow> (server_ready s \<longrightarrow> at s \<noteq> Polling \<and> clients s = 0) \<Longrightarrow>
     daemon_step cfg s (s\<lparr>handler_running := False\<rparr>)"
| joined_step:
    "at s = Joining_Handler \<Longrightarrow> \<not> handler_running s \<Longrightarrow>
     daemon_step cfg s (s\<lparr>at := Joining_Worker, worker := (worker s)\<lparr>stop := True\<rparr>\<rparr>)"
| take_step:
    "\<not> worker_returned s \<Longrightarrow> busy s = None \<Longrightarrow> worker_wait (worker s) = Take p st' \<Longrightarrow>
     daemon_step cfg s (s\<lparr>worker := st', busy := Some p\<rparr>)"
| process_step:
    "busy s = Some p \<Longrightarrow> process cfg p (worker s) (os s) = Some (st', w') \<Longrightarrow>
     daemon_step cfg s (s\<lparr>worker := st', os := w', busy := None, processed := processed s @ [p]\<rparr>)"
| return_step:
    "\<not> worker_returned s \<Longrightarrow> busy s = None \<Longrightarrow> worker_wait (worker s) = Return \<Longrightarrow>
     daemon_step cfg s (s\<lparr>worker_returned := True\<rparr>)"
| exit_step:
    "at s = Joining_Worker \<Longrightarrow> worker_returned s \<Longrightarrow>
     daemon_step cfg s (s\<lparr>at := Exited, sockets := close_listener (listen_fd (fds s)) (unlink (socket_path cfg) (sockets s))\<rparr>)"

inductive reachable :: "watcher_config \<Rightarrow> daemon \<Rightarrow> bool" for cfg where
  start: "RunWatcher_setup initialize ker cfg w n = Some s \<Longrightarrow> reachable cfg s"
| step: "reachable cfg s \<Longrightarrow> daemon_step cfg s t \<Longrightarrow> reachable cfg t"

inductive_cases daemon_stepE: "daemon_step cfg s t"

text \<open>The dump paths of a list of events, and the paths inside the daemon.\<close>

definition paths_of :: "watcher_config \<Rightarrow> inotify_event list \<Rightarrow> string list" where
  "paths_of cfg es = concat (map (dump_paths (watched_dir cfg)) es)"

definition accepted :: "daemon \<Rightarrow> string list" where
  "accepted s = processed s @ (case busy s of None \<Rightarrow> [] | Some p \<Rightarrow> [p]) @ pending (worker s)"

lemma paths_of_append [simp]: "paths_of cfg (a @ b) = paths_of cfg a @ paths_of cfg b"
  by (simp add: paths_of_def)

lemma paths_of_Nil [simp]: "paths_of cfg [] = []"
  by (simp add: paths_of_def)

lemma loop_body_queue:
  assumes "kernel_read t q rest" and "\<forall>e\<in>set q. event_well_formed e"
    and "loop_body fs hpid (watched_dir cfg) st t = Some res"
    and "res = Continue st' calls \<or> res = Break st' calls"
  shows "\<exists>es. q = es @ rest \<and> st' = fold push_pending (paths_of cfg es) st"
proof (cases "does_read t \<and> (\<exists>buf. read_result t = Inr buf)")
  case True
  then obtain es where q: "q = es @ rest" and buf: "read_result t = Inr (concat (map encode_event es))"
    using assms(1) by (auto simp: kernel_read_def)
  have "EnqueueInotifyEvents (watched_dir cfg) st (concat (map encode_event es)) 0 =
      Some (fold push_pending (paths_of cfg es) st)"
    using enqueue_events_from [of es _ st "[]"] assms(2) q by (simp add: paths_of_def)
  then show ?thesis
    using True assms(3,4) q buf
    by (intro exI [of _ es]) (auto simp: loop_body_def does_read_def Let_def split: sum.splits prod.splits if_splits)
next
  case False
  then have "rest = q" "st' = st"
    using assms
    by (auto simp: kernel_read_def loop_body_def does_read_def Let_def split: sum.splits prod.splits if_splits)
  then show ?thesis by (intro exI [of _ "[]"]) simp
qed

definition daemon_inv :: "watcher_config \<Rightarrow> daemon \<Rightarrow> bool" where
  "daemon_inv cfg s =
     ((\<forall>e\<in>set (unread s). event_well_formed e) \<and>
      paths_of cfg (arrived s) = accepted s @ paths_of cfg (unread s) \<and>
      (stop (worker s) \<longleftrightarrow> at s = Joining_Worker \<or> at s = Exited) \<and>
      (at s = Exited \<longrightarrow> worker_returned s) \<and>
      (worker_returned s \<longrightarrow> stop (worker s) \<and> pending (worker s) = [] \<and> busy s = None))"

lemma pending_fold_push: "pending (fold push_pending ps st) = pending st @ ps"
  using work_queue.abs_fold_enq by blast

lemma stop_fold_push: "stop (fold push_pending ps st) = stop st"
  by (induction ps arbitrary: st) (simp_all add: push_pending_def)

lemma setup_inv: "RunWatcher_setup initialize ker cfg w n = Some s \<Longrightarrow> daemon_inv cfg s"
  by (auto simp: RunWatcher_setup_def daemon_inv_def accepted_def Let_def split: prod.splits bool.splits option.splits)

lemma poll_inv:
  assumes inv: "daemon_inv cfg s" and p: "at s = Polling"
    and k: "kernel_read t (unread s) rest"
    and b: "loop_body (fds s) (handler_pid s) (watched_dir cfg) (worker s) t = Some res"
    and r: "res = Continue st' calls \<or> res = Break st' calls"
  shows "daemon_inv cfg (s\<lparr>worker := st', unread := rest, sent := x, clients := y\<rparr>)"
proof -
  obtain es where es: "unread s = es @ rest" "st' = fold push_pending (paths_of cfg es) (worker s)"
    using loop_body_queue [OF k _ b r] inv by (auto simp: daemon_inv_def)
  then show ?thesis
    using inv p by (auto simp: daemon_inv_def accepted_def pending_fold_push stop_fold_push)
qed

lemma worker_wait_Take: "worker_wait st = Take p st' \<Longrightarrow> pending st = p # pending st' \<and> stop st' = stop st"
  by (cases "pending st") (auto simp: worker_wait_def split: if_splits)

lemma worker_wait_Return: "worker_wait st = Return \<longleftrightarrow> stop st \<and> pending st = []"
  by (auto simp: worker_wait_def)

lemma step_inv:
  assumes "daemon_step cfg s t" and "daemon_inv cfg s"
  shows "daemon_inv cfg t"
  using assms
proof (induction rule: daemon_step.induct)
  case (poll_step s t rest st' calls)
  then show ?case using poll_inv by blast
next
  case (break_step s t rest st' calls)
  have "daemon_inv cfg (s\<lparr>worker := st', unread := rest, sent := sent s @ calls,
      clients := clients s + new_clients t\<rparr>)"
    using poll_inv break_step by blast
  then show ?case using break_step by (auto simp: daemon_inv_def accepted_def)
next
  case (take_step s p st')
  then show ?case using worker_wait_Take [of "worker s" p st'] by (auto simp: daemon_inv_def accepted_def)
next
  case (process_step s p st' w')
  then show ?case using process_keeps_queue
    by (auto simp: daemon_inv_def accepted_def process_def)
qed (auto simp: daemon_inv_def accepted_def worker_wait_Return HandleSignal_def)

lemma reachable_inv: "reachable cfg s \<Longrightarrow> daemon_inv cfg s"
  by (induction rule: reachable.induct) (auto intro: setup_inv step_inv)

section \<open>Order of processing\<close>

text \<open>
  C3. No dump is lost or duplicated before it is processed: in every reachable state the
  dumps that were renamed into the directory are, in order, those the worker has finished,
  the one it is busy with, those in the queue, and those whose events the daemon has not
  read. When \<^verbatim>\<open>RunWatcher\<close> has returned, all that it had read are processed.
\<close>

theorem daemon_processes_in_order:
  assumes "reachable cfg s"
  shows "paths_of cfg (arrived s) = processed s @ (case busy s of None \<Rightarrow> [] | Some p \<Rightarrow> [p]) @
      pending (worker s) @ paths_of cfg (unread s) \<and>
    (at s = Exited \<longrightarrow> paths_of cfg (arrived s) = processed s @ paths_of cfg (unread s))"
  using reachable_inv [OF assms] by (auto simp: daemon_inv_def accepted_def)

section \<open>Shutdown\<close>

text \<open>After the poll loop has ended the queue of events only grows.\<close>

lemma no_poll_after_shutdown:
  assumes "daemon_step cfg s t" and "at s \<noteq> Polling"
  shows "at t \<noteq> Polling \<and> (\<exists>es. unread t = unread s @ es \<and> arrived t = arrived s @ es)"
  using assms by (cases rule: daemon_stepE) (auto simp: HandleSignal_def)

lemma no_poll_until:
  assumes "(daemon_step cfg)\<^sup>*\<^sup>* s t" and "at s \<noteq> Polling"
  shows "at t \<noteq> Polling \<and> (\<exists>es. unread t = unread s @ es \<and> arrived t = arrived s @ es)"
  using assms
proof (induction rule: rtranclp_induct)
  case (step t u)
  then show ?case using no_poll_after_shutdown [OF step.hyps(2)] by auto
qed simp

lemma reachable_steps: "(daemon_step cfg)\<^sup>*\<^sup>* s t \<Longrightarrow> reachable cfg s \<Longrightarrow> reachable cfg t"
  by (induction rule: rtranclp_induct) (auto intro: reachable.step)

lemma accepted_after_shutdown:
  assumes "reachable cfg s" and "at s \<noteq> Polling" and "(daemon_step cfg)\<^sup>*\<^sup>* s t"
  shows "accepted t = accepted s"
proof -
  have "daemon_inv cfg s" "daemon_inv cfg t"
    using reachable_inv assms(1) reachable_steps [OF assms(3,1)] by auto
  then show ?thesis using no_poll_until [OF assms(3,2)] by (auto simp: daemon_inv_def)
qed

text \<open>
  C18. The dumps that Crashpad renames into the directory after the poll loop has ended, while
  the main thread waits for the handler thread, are never queued: what the worker has taken
  on stays what it was when the loop ended, and the late events stay unread.
\<close>

theorem late_dumps_stay_unread:
  assumes "reachable cfg s" and "at s \<noteq> Polling" and "(daemon_step cfg)\<^sup>*\<^sup>* s t"
  shows "accepted t = accepted s \<and> (\<exists>es. arrived t = arrived s @ es \<and> unread t = unread s @ es)"
  using no_poll_until [OF assms(3,2)] accepted_after_shutdown [OF assms] by auto

lemma process_total: "\<not> patch_build_ids cfg \<Longrightarrow> \<exists>r. process cfg p st w = Some r"
  by (auto simp: process_def ProcessNewMinidump_def patch_step_def split: prod.split)

lemma finish_busy:
  assumes "\<not> patch_build_ids cfg"
  shows "\<exists>t. (daemon_step cfg)\<^sup>*\<^sup>* s t \<and> busy t = None \<and> pending (worker t) = pending (worker s) \<and>
    stop (worker t) = stop (worker s) \<and> at t = at s \<and> worker_returned t = worker_returned s"
proof (cases "busy s")
  case (Some p)
  obtain st' w' where r: "process cfg p (worker s) (os s) = Some (st', w')"
    using process_total [OF assms] by (metis surj_pair)
  then have "pending st' = pending (worker s)" "stop st' = stop (worker s)"
    using process_keeps_queue by (auto simp: process_def)
  then show ?thesis
    using daemon_step.process_step [OF Some r]
    by (intro exI [of _ "s\<lparr>worker := st', os := w', busy := None, processed := processed s @ [p]\<rparr>"]) auto
qed auto

lemma worker_drains:
  assumes "\<not> patch_build_ids cfg" and "stop (worker s)" and "\<not> worker_returned s"
  shows "\<exists>t. (daemon_step cfg)\<^sup>*\<^sup>* s t \<and> worker_returned t \<and> at t = at s"
  using assms(2,3)
proof (induction "pending (worker s)" arbitrary: s)
  case Nil
  obtain t where t: "(daemon_step cfg)\<^sup>*\<^sup>* s t" "busy t = None" "pending (worker t) = []"
    "stop (worker t)" "at t = at s" "\<not> worker_returned t"
    using finish_busy [OF assms(1), of s] Nil by auto
  then have "daemon_step cfg t (t\<lparr>worker_returned := True\<rparr>)"
    by (intro daemon_step.return_step) (simp_all add: worker_wait_Return)
  then show ?case using t by (intro exI [of _ "t\<lparr>worker_returned := True\<rparr>"]) auto
next
  case (Cons p ps)
  obtain t where t: "(daemon_step cfg)\<^sup>*\<^sup>* s t" "busy t = None" "pending (worker t) = p # ps"
    "stop (worker t)" "at t = at s" "\<not> worker_returned t"
    using finish_busy [OF assms(1), of s] Cons by auto
  let ?u = "t\<lparr>worker := (worker t)\<lparr>pending := ps\<rparr>, busy := Some p\<rparr>"
  have u: "daemon_step cfg t ?u"
    using t by (intro daemon_step.take_step) (simp_all add: worker_wait_def)
  obtain v where "(daemon_step cfg)\<^sup>*\<^sup>* ?u v" "worker_returned v" "at v = at t"
    using Cons.hyps(1) [of ?u] t by auto
  then show ?case using t u by (metis converse_rtranclp_into_rtranclp rtranclp_trans)
qed

lemma exit_from_join:
  assumes "\<not> patch_build_ids cfg" and "daemon_inv cfg s" and "at s = Joining_Worker"
  shows "\<exists>t. (daemon_step cfg)\<^sup>*\<^sup>* s t \<and> at t = Exited"
proof -
  obtain t where t: "(daemon_step cfg)\<^sup>*\<^sup>* s t" "worker_returned t" "at t = Joining_Worker"
    using assms worker_drains [OF assms(1), of s]
    by (cases "worker_returned s") (auto simp: daemon_inv_def)
  then have "\<exists>u. daemon_step cfg t u \<and> at u = Exited"
    using daemon_step.exit_step [of t cfg] by (intro exI conjI) auto
  then show ?thesis
    using t(1) by (meson rtranclp.rtrancl_into_rtrancl)
qed

lemma clients_leave:
  "\<exists>t. (daemon_step cfg)\<^sup>*\<^sup>* s t \<and> clients t = 0 \<and> at t = at s \<and> handler_running t = handler_running s"
proof (induction "clients s" arbitrary: s)
  case 0
  then show ?case by (intro exI [of _ s]) simp
next
  case (Suc n)
  let ?u = "s\<lparr>clients := clients s - 1\<rparr>"
  have u: "daemon_step cfg s ?u" using Suc.hyps(2) by (intro daemon_step.client_exit_step) simp
  obtain t where "(daemon_step cfg)\<^sup>*\<^sup>* ?u t" "clients t = 0" "at t = at s" "handler_running t = handler_running s"
    using Suc.hyps(1) [of ?u] Suc.hyps(2) [symmetric] by auto
  then show ?case using u by (meson converse_rtranclp_into_rtranclp)
qed

lemma join_from_handler:
  assumes "at s = Joining_Handler"
  shows "\<exists>t. (daemon_step cfg)\<^sup>*\<^sup>* s t \<and> at t = Joining_Worker"
proof -
  obtain u where u: "(daemon_step cfg)\<^sup>*\<^sup>* s u" "clients u = 0" "at u = Joining_Handler"
    using clients_leave [of cfg s] assms by auto
  have "\<exists>v. (daemon_step cfg)\<^sup>*\<^sup>* u v \<and> at v = Joining_Handler \<and> \<not> handler_running v"
  proof (cases "handler_running u")
    case True
    then have "daemon_step cfg u (u\<lparr>handler_running := False\<rparr>)"
      using u by (intro daemon_step.handler_step) simp_all
    then show ?thesis using u(3) by (intro exI [of _ "u\<lparr>handler_running := False\<rparr>"]) auto
  qed (use u(3) in auto)
  then obtain v where v: "(daemon_step cfg)\<^sup>*\<^sup>* u v" "at v = Joining_Handler" "\<not> handler_running v" by blast
  have "daemon_step cfg v (v\<lparr>at := Joining_Worker, worker := (worker v)\<lparr>stop := True\<rparr>\<rparr>)"
    using v by (intro daemon_step.joined_step)
  then have "(daemon_step cfg)\<^sup>*\<^sup>* s (v\<lparr>at := Joining_Worker, worker := (worker v)\<lparr>stop := True\<rparr>\<rparr>)"
    using u(1) v(1) by (meson rtranclp.rtrancl_into_rtrancl rtranclp_trans)
  then show ?thesis by (intro exI conjI) (assumption, simp)
qed

lemma stop_from_poll:
  assumes "at s = Polling"
  shows "(daemon_step cfg)\<^sup>*\<^sup>* s (s\<lparr>at := Joining_Handler, stop_flag := True\<rparr>)"
proof -
  have "daemon_step cfg s (HandleSignal SIGTERM s)"
    by (intro daemon_step.signal_step) (simp add: SetupSignalHandlers_def)
  moreover have "daemon_step cfg (HandleSignal SIGTERM s) ((HandleSignal SIGTERM s)\<lparr>at := Joining_Handler\<rparr>)"
    using assms by (intro daemon_step.stop_step) (simp_all add: HandleSignal_def)
  moreover have "(HandleSignal SIGTERM s)\<lparr>at := Joining_Handler\<rparr> = s\<lparr>at := Joining_Handler, stop_flag := True\<rparr>"
    by (simp add: HandleSignal_def)
  ultimately show ?thesis by (metis rtranclp.rtrancl_refl rtranclp.rtrancl_into_rtrancl)
qed

lemma exit_after_poll:
  assumes "\<not> patch_build_ids cfg" and "reachable cfg s" and "at s \<noteq> Polling"
  shows "\<exists>t. (daemon_step cfg)\<^sup>*\<^sup>* s t \<and> at t = Exited"
proof (cases "at s")
  case Joining_Handler
  then obtain t where t: "(daemon_step cfg)\<^sup>*\<^sup>* s t" "at t = Joining_Worker"
    using join_from_handler by blast
  then show ?thesis
    using exit_from_join [OF assms(1) reachable_inv [OF reachable_steps [OF t(1) assms(2)]] t(2)]
    by (meson rtranclp_trans)
next
  case Joining_Worker
  then show ?thesis using exit_from_join [OF assms(1) reachable_inv [OF assms(2)]] by blast
qed (use assms in auto)

lemma exit_reachable:
  assumes "reachable cfg s" and "\<not> patch_build_ids cfg"
  shows "\<exists>t. (daemon_step cfg)\<^sup>*\<^sup>* s t \<and> at t = Exited \<and>
    (at s \<noteq> Polling \<longrightarrow> processed t = accepted s)"
proof (cases "at s = Polling")
  case True
  let ?u = "s\<lparr>at := Joining_Handler, stop_flag := True\<rparr>"
  have u: "(daemon_step cfg)\<^sup>*\<^sup>* s ?u" using True by (rule stop_from_poll)
  obtain t where "(daemon_step cfg)\<^sup>*\<^sup>* ?u t" "at t = Exited"
    using exit_after_poll [OF assms(2) reachable_steps [OF u assms(1)]] by auto
  then show ?thesis using u True by (metis rtranclp_trans)
next
  case False
  then obtain t where t: "(daemon_step cfg)\<^sup>*\<^sup>* s t" "at t = Exited"
    using exit_after_poll [OF assms(2,1)] by blast
  have "daemon_inv cfg t" using reachable_inv reachable_steps t(1) assms(1) by blast
  then have "processed t = accepted t" using t(2) by (simp add: daemon_inv_def accepted_def)
  then show ?thesis using t accepted_after_shutdown [OF assms(1) False t(1)] by auto
qed

text \<open>
  Shutdown can always complete: from every reachable state the end of \<^verbatim>\<open>RunWatcher\<close> can be
  reached, by a signal and the clients' ends, and if the poll loop has ended, with exactly
  the dumps processed that it had queued (patching is off, so that no dump can make the
  patcher leave its buffer).
\<close>

theorem shutdown_completes:
  assumes "reachable cfg s" and "\<not> patch_build_ids cfg"
  shows "\<exists>t. (daemon_step cfg)\<^sup>*\<^sup>* s t \<and> at t = Exited \<and>
    (at s \<noteq> Polling \<longrightarrow> processed t = accepted s)"
  using assms by (rule exit_reachable)

section \<open>A run\<close>

text \<open>
  A daemon over the database of the disk manager's example: a dump arrives after the signal,
  and the daemon exits without looking at it.
\<close>

definition example_config :: watcher_config where
  "example_config = \<lparr>db_path = ''/db'', socket_path = ''/run/h.sock'', prune_cfg = disk_config,
     export_path = [], patch_build_ids = False, breakpad_read = (\<lambda>w p. None)\<rparr>"

definition example_net :: net where
  "example_net = \<lparr>endpoint_at = Map.empty, world_accessible = {}, socket_ok = True, probe_ok = True,
     bind_permitted = True, listen_ok = True\<rparr>"

definition example_kernel :: kernel_answers where
  "example_kernel = \<lparr>socketpair = Some (4, 5), inotify_init1 = 6, inotify_add_watch = (\<lambda>_ _ _. 1), getpid = 77,
     server_init_ok = True\<rparr>"

definition example_event :: inotify_event where
  "example_event = \<lparr>event_wd = 1, event_mask = 0x80, event_cookie = 7, event_name = ''z.dmp'', event_padding = 11\<rparr>"

lemma example_starts:
  "\<exists>s. RunWatcher_setup (\<lambda>p w. Some w) example_kernel example_config disk_world example_net = Some s \<and>
     at s = Polling \<and> handler_running s \<and> server_ready s \<and> \<not> stop_flag s \<and> clients s = 0 \<and> \<not> worker_returned s \<and> busy s = None \<and>
     worker s = \<lparr>pending = [], stop = False, rate_limit_map = Map.empty\<rparr> \<and> unread s = [] \<and> processed s = [] \<and>
     arrived s = []"
proof -
  have d: "fst (EnsureDbDirs ''/db'' ''/db/new'' ''/db/pending'' disk_world)" by code_simp
  obtain w1 where e: "EnsureDbDirs ''/db'' ''/db/new'' ''/db/pending'' disk_world = (True, w1)"
    using d by (metis (full_types) prod.collapse)
  have "fst (CreateListenSocket ''/run/h.sock'' example_net) = Some ''/run/h.sock''"
    by (subst CreateListenSocket_result) (simp_all add: example_net_def)
  then obtain n1 where c: "CreateListenSocket ''/run/h.sock'' example_net = (Some ''/run/h.sock'', n1)"
    by (metis prod.collapse)
  show ?thesis
    by (simp add: RunWatcher_setup_def example_config_def example_kernel_def watched_dir_def e InitWatcherFds_def c Let_def)
qed

lemma example_late_dump:
  "\<exists>s t. reachable example_config s \<and> at s = Joining_Handler \<and> accepted s = [] \<and>
     (daemon_step example_config)\<^sup>*\<^sup>* s t \<and> arrived t = [example_event]"
proof -
  obtain s where s: "reachable example_config s" "at s = Polling" "handler_running s" "busy s = None"
    "pending (worker s) = []" "processed s = []" "arrived s = []"
    using example_starts reachable.start by (metis WorkerState.select_convs(1))
  let ?s = "s\<lparr>at := Joining_Handler, stop_flag := True\<rparr>"
  let ?t = "?s\<lparr>unread := unread ?s @ [example_event], arrived := arrived ?s @ [example_event], os := os ?s\<rparr>"
  have "daemon_step example_config ?s ?t"
    using s(3) by (intro daemon_step.dump_step)
      (simp_all add: example_event_def event_well_formed_def byte_of_char_def)
  moreover have "reachable example_config ?s"
    using reachable_steps [OF stop_from_poll [OF s(2)] s(1)] .
  ultimately show ?thesis
    using s by (intro exI [of _ ?s] exI [of _ ?t]) (auto simp: accepted_def)
qed

theorem late_dumps_stay_unread_witness:
  "\<exists>t. reachable example_config t \<and> arrived t = [example_event] \<and> accepted t = []"
proof -
  obtain s t where st: "reachable example_config s" "at s = Joining_Handler" "accepted s = []"
    "(daemon_step example_config)\<^sup>*\<^sup>* s t" "arrived t = [example_event]"
    using example_late_dump by auto
  then have "accepted t = []" using late_dumps_stay_unread [of example_config s t] by simp
  then show ?thesis using st reachable_steps by blast
qed

theorem daemon_processes_in_order_witness:
  "\<exists>s. reachable example_config s \<and> arrived s = [example_event] \<and>
     processed s @ (case busy s of None \<Rightarrow> [] | Some p \<Rightarrow> [p]) @ pending (worker s) @
       paths_of example_config (unread s) = [''/db/pending/z.dmp'']"
proof -
  obtain s where s: "reachable example_config s" "arrived s = [example_event]"
    using example_late_dump reachable_steps by metis
  have "paths_of example_config [example_event] = [''/db/pending/z.dmp'']"
    by (simp add: paths_of_def dump_paths_def is_new_dump_def example_event_def IN_MOVED_TO_def suffix_def
        watched_dir_def example_config_def)
  then show ?thesis using daemon_processes_in_order [OF s(1)] s by auto
qed

theorem shutdown_completes_witness:
  "\<exists>t. reachable example_config t \<and> at t = Exited"
proof -
  obtain s where s: "reachable example_config s" using example_late_dump by auto
  have "\<not> patch_build_ids example_config" by (simp add: example_config_def)
  then obtain t where "(daemon_step example_config)\<^sup>*\<^sup>* s t" "at t = Exited"
    using shutdown_completes [OF s] by auto
  then show ?thesis using reachable_steps s by blast
qed

section \<open>The event loop and the steps\<close>

text \<open>The events that remain when the reads of a sequence of iterations are done.\<close>

fun kernel_reads :: "tick list \<Rightarrow> inotify_event list \<Rightarrow> inotify_event list \<Rightarrow> bool" where
  "kernel_reads [] q rest = (rest = q)"
| "kernel_reads (t # ts) q rest = (\<exists>q1. kernel_read t q q1 \<and> kernel_reads ts q1 rest)"

text \<open>
  A run of the loop over such iterations is a run of the step relation, with the same queue and
  the same calls.
\<close>

lemma RunEventLoop_simulated:
  assumes "RunEventLoop (fds s) (handler_pid s) (watched_dir cfg) (worker s) ts = Some (ended, st', calls)"
    and "kernel_reads ts (unread s) rest" and "at s = Polling" and "\<not> stop_flag s"
  shows "\<exists>t. (daemon_step cfg)\<^sup>*\<^sup>* s t \<and> worker t = st' \<and> sent t = sent s @ calls \<and>
    at t = (if ended then Joining_Handler else Polling)"
  using assms
proof (induction ts arbitrary: s calls)
  case Nil
  then show ?case by (intro exI [of _ s]) simp
next
  case (Cons t ts)
  obtain q1 where q1: "kernel_read t (unread s) q1" "kernel_reads ts q1 rest" using Cons.prems(2) by auto
  show ?case
  proof (cases "g_stop t")
    case True
    then show ?thesis using Cons.prems stop_from_poll [of s cfg]
      by (intro exI [of _ "s\<lparr>at := Joining_Handler, stop_flag := True\<rparr>"]) auto
  next
    case False
    obtain b where b: "loop_body (fds s) (handler_pid s) (watched_dir cfg) (worker s) t = Some b"
      using Cons.prems(1) False by (auto split: option.splits)
    show ?thesis
    proof (cases b)
      case (Break st1 calls1)
      let ?t = "s\<lparr>at := Joining_Handler, worker := st1, unread := q1, sent := sent s @ calls1,
        clients := clients s + new_clients t\<rparr>"
      have "daemon_step cfg s ?t"
        using Cons.prems(3,4) False q1(1) b by (intro daemon_step.break_step) (simp_all add: Break)
      then show ?thesis using Cons.prems(1) False b Break by (intro exI [of _ ?t]) auto
    next
      case (Continue st1 calls1)
      let ?t = "s\<lparr>worker := st1, unread := q1, sent := sent s @ calls1,
        clients := clients s + new_clients t\<rparr>"
      have st: "daemon_step cfg s ?t"
        using Cons.prems(3,4) False q1(1) b by (intro daemon_step.poll_step) (simp_all add: Continue)
      obtain calls2 where r: "RunEventLoop (fds s) (handler_pid s) (watched_dir cfg) st1 ts = Some (ended, st', calls2)"
        "calls = calls1 @ calls2"
        using Cons.prems(1) False b Continue by (auto split: option.splits)
      obtain u where "(daemon_step cfg)\<^sup>*\<^sup>* ?t u" "worker u = st'" "sent u = sent ?t @ calls2"
        "at u = (if ended then Joining_Handler else Polling)"
        using Cons.IH [of ?t calls2] r q1(2) Cons.prems(3,4) by auto
      then show ?thesis using st r(2) by (intro exI [of _ u]) (auto intro: converse_rtranclp_into_rtranclp)
    qed
  qed
qed

text \<open>
  What ends the loop besides the flag: an error of \<^verbatim>\<open>poll\<close> or of \<^verbatim>\<open>read\<close> that is not to be
  retried. The iterations up to the end, and the connection that one accepts.
\<close>

definition fails :: "tick \<Rightarrow> bool" where
  "fails t =
     (case poll_result t of
        Inl e \<Rightarrow> e \<noteq> EINTR
      | Inr (inotify_ready, listen_ready) \<Rightarrow> inotify_ready \<and> (\<exists>e. read_result t = Inl e \<and> e \<noteq> EINTR \<and> e \<noteq> EAGAIN))"

fun iterations :: "tick list \<Rightarrow> tick list" where
  "iterations [] = []"
| "iterations (t # ts) = (if g_stop t then [] else if fails t then [t] else t # iterations ts)"

definition accepted_by :: "tick \<Rightarrow> nat list" where
  "accepted_by t =
     (case (poll_result t, accept_result t) of
        (Inr (inotify_ready, True), Inr conn) \<Rightarrow> [conn] | _ \<Rightarrow> [])"

abbreviation sends :: "socket_call list \<Rightarrow> socket_call list" where
  "sends calls \<equiv> filter (\<lambda>c. \<exists>conn m. c = Sendmsg conn m) calls"

lemma sends_accept:
  "sends (AcceptAndShareSocket acc send fd hpid) = (case acc of Inl e \<Rightarrow> [] | Inr conn \<Rightarrow> [Sendmsg conn (share_message fd hpid)])"
  by (auto simp: AcceptAndShareSocket_def split: sum.split option.split)

lemma loop_body_result:
  assumes "kernel_read t q q1" and "\<forall>e\<in>set q. event_well_formed e"
  obtains es calls where "q = es @ q1"
    and "loop_body fs hpid dir st t =
      Some ((if fails t then Break else Continue) (fold push_pending (concat (map (dump_paths dir) es)) st) calls)"
    and "sends calls = map (\<lambda>c. Sendmsg c (share_message (client_fd fs) hpid)) (accepted_by t)"
proof (cases "does_read t \<and> (\<exists>buf. read_result t = Inr buf)")
  case True
  then obtain es where q: "q = es @ q1" and buf: "read_result t = Inr (concat (map encode_event es))"
    using assms(1) by (auto simp: kernel_read_def)
  obtain l where l: "poll_result t = Inr (True, l)"
    using True by (auto simp: does_read_def split: sum.splits)
  have "EnqueueInotifyEvents dir st (concat (map encode_event es)) 0 =
      Some (fold push_pending (concat (map (dump_paths dir) es)) st)"
    using enqueue_events_from [of es dir st "[]"] assms(2) q by simp
  then show ?thesis using that [of es "if l then AcceptAndShareSocket (accept_result t) (send_result t) (client_fd fs) hpid else []"]
    by (auto simp: q buf l loop_body_def fails_def accepted_by_def sends_accept split: sum.split)
next
  case False
  then have q: "q1 = q" using assms(1) unfolding kernel_read_def by meson
  have "\<exists>calls. loop_body fs hpid dir st t = Some ((if fails t then Break else Continue) st calls) \<and>
      sends calls = map (\<lambda>c. Sendmsg c (share_message (client_fd fs) hpid)) (accepted_by t)"
    using False by (auto simp: does_read_def loop_body_def fails_def accepted_by_def sends_accept Let_def split: sum.splits)
  then show ?thesis using that [of "[]"] q by auto
qed

lemma rate_limit_map_push: "rate_limit_map (fold push_pending ps st) = rate_limit_map st"
  by (induction ps arbitrary: st) (simp_all add: push_pending_def)

text \<open>
  C14. The event loop ends at the first iteration before which the flag is set, or in which \<^verbatim>\<open>poll\<close> or
  \<^verbatim>\<open>read\<close> fails with an error other than \<^verbatim>\<open>EINTR\<close> (for \<^verbatim>\<open>read\<close> also \<^verbatim>\<open>EAGAIN\<close>), and never reads outside its
  buffer. Until then every event that it takes from the kernel is looked at, and the queue of the worker grows by exactly
  the new dumps among them, in order; and every connection that is accepted, also
  in an iteration whose \<^verbatim>\<open>read\<close> then fails, is sent the shared descriptor and the process id, in order.
  Assumed is that \<^verbatim>\<open>read\<close> returns whole events from the front of the kernel's queue.
\<close>

theorem RunEventLoop_result:
  assumes "kernel_reads (iterations ts) q rest" and "\<forall>e\<in>set q. event_well_formed e"
  shows "\<exists>es st' calls. q = es @ rest \<and>
    RunEventLoop fs hpid dir st ts = Some (\<exists>t\<in>set ts. g_stop t \<or> fails t, st', calls) \<and>
    pending st' = pending st @ map (\<lambda>e. dir @ ''/'' @ event_name e) (filter is_new_dump es) \<and>
    stop st' = stop st \<and> rate_limit_map st' = rate_limit_map st \<and>
    sends calls = map (\<lambda>c. Sendmsg c (share_message (client_fd fs) hpid)) (concat (map accepted_by (iterations ts)))"
proof -
  have "\<exists>es calls. q = es @ rest \<and>
      RunEventLoop fs hpid dir st ts = Some (\<exists>t\<in>set ts. g_stop t \<or> fails t,
        fold push_pending (concat (map (dump_paths dir) es)) st, calls) \<and>
      sends calls = map (\<lambda>c. Sendmsg c (share_message (client_fd fs) hpid)) (concat (map accepted_by (iterations ts)))"
    using assms
  proof (induction ts arbitrary: q st)
    case (Cons t ts)
    show ?case
    proof (cases "g_stop t")
      case False
      then obtain q1 where q1: "kernel_read t q q1" "kernel_reads (if fails t then [] else iterations ts) q1 rest"
        using Cons.prems(1) by (auto split: if_splits)
      obtain es calls where b: "q = es @ q1" "loop_body fs hpid dir st t =
          Some ((if fails t then Break else Continue) (fold push_pending (concat (map (dump_paths dir) es)) st) calls)"
        "sends calls = map (\<lambda>c. Sendmsg c (share_message (client_fd fs) hpid)) (accepted_by t)"
        using loop_body_result [OF q1(1) Cons.prems(2)] by blast
      show ?thesis
      proof (cases "fails t")
        case True
        then show ?thesis using False q1(2) b by (intro exI [of _ es] exI [of _ calls]) simp
      next
        case go: False
        then obtain es2 calls2 where "q1 = es2 @ rest"
          "RunEventLoop fs hpid dir (fold push_pending (concat (map (dump_paths dir) es)) st) ts =
            Some (\<exists>t\<in>set ts. g_stop t \<or> fails t,
              fold push_pending (concat (map (dump_paths dir) es2)) (fold push_pending (concat (map (dump_paths dir) es)) st), calls2)"
          "sends calls2 = map (\<lambda>c. Sendmsg c (share_message (client_fd fs) hpid)) (concat (map accepted_by (iterations ts)))"
          using Cons.IH [of q1] q1(2) Cons.prems(2) b(1) by fastforce
        then show ?thesis using False go b by (intro exI [of _ "es @ es2"] exI [of _ "calls @ calls2"]) simp
      qed
    qed (use Cons.prems in simp)
  qed simp
  then show ?thesis
    by (auto simp: pending_fold_push stop_fold_push rate_limit_map_push dump_paths_filter)
qed

definition example_fds :: WatcherFds where
  "example_fds = \<lparr>listen_fd = ''/run/h.sock'', inotify_fd = 6, server_fd = 4, client_fd = 5, inotify_watch_fd = 1\<rparr>"

theorem RunEventLoop_result_witness:
  "\<exists>st' calls. RunEventLoop example_fds 77 ''/db/pending'' \<lparr>pending = [], stop = False, rate_limit_map = Map.empty\<rparr>
     [\<lparr>g_stop = False, tick_now = 0, poll_result = Inr (True, True), accept_result = Inr 9, send_result = (\<lambda>_. None),
       read_result = Inr (concat (map encode_event [example_event]))\<rparr>,
      \<lparr>g_stop = True, tick_now = 1, poll_result = Inl EINTR, accept_result = Inl 0, send_result = (\<lambda>_. None), read_result = Inl 0\<rparr>]
     = Some (True, st', calls) \<and> pending st' = [''/db/pending/z.dmp''] \<and> sends calls = [Sendmsg 9 (share_message 5 77)]"
proof -
  let ?t = "\<lparr>g_stop = False, tick_now = 0, poll_result = Inr (True, True), accept_result = Inr 9, send_result = (\<lambda>_. None),
    read_result = Inr (concat (map encode_event [example_event]))\<rparr> :: tick"
  let ?u = "\<lparr>g_stop = True, tick_now = 1, poll_result = Inl EINTR, accept_result = Inl 0, send_result = (\<lambda>_. None),
    read_result = Inl 0\<rparr> :: tick"
  have f: "\<not> fails ?t" by (simp add: fails_def)
  have "length (concat (map encode_event [example_event])) \<le> kInotifyEventBufferCount * (inotify_header + 256)"
    by (simp add: length_encode_event example_event_def kInotifyEventBufferCount_def inotify_header_def)
  then have "kernel_read ?t [example_event] []" by (simp add: kernel_read_def does_read_def)
  then have k: "kernel_reads (iterations [?t, ?u]) [example_event] []" using f by simp
  have e: "\<forall>e\<in>set [example_event]. event_well_formed e"
    by (simp add: example_event_def event_well_formed_def byte_of_char_def)
  from RunEventLoop_result [OF k e, of example_fds 77 "''/db/pending''" "\<lparr>pending = [], stop = False, rate_limit_map = Map.empty\<rparr>"]
  obtain st' calls where "RunEventLoop example_fds 77 ''/db/pending'' \<lparr>pending = [], stop = False, rate_limit_map = Map.empty\<rparr>
      [?t, ?u] = Some (\<exists>t\<in>set [?t, ?u]. g_stop t \<or> fails t, st', calls)"
    "pending st' = map (\<lambda>e. ''/db/pending'' @ ''/'' @ event_name e) (filter is_new_dump [example_event])"
    "sends calls = map (\<lambda>c. Sendmsg c (share_message (client_fd example_fds) 77)) (concat (map accepted_by (iterations [?t, ?u])))"
    by auto
  moreover have "map (\<lambda>e. ''/db/pending'' @ ''/'' @ event_name e) (filter is_new_dump [example_event]) = [''/db/pending/z.dmp'']"
    by (simp add: is_new_dump_def example_event_def IN_MOVED_TO_def suffix_def)
  ultimately show ?thesis using f by (simp add: accepted_by_def example_fds_def)
qed

section \<open>The registration socket over the daemon's life\<close>

text \<open>The listening socket is up until the daemon exits.\<close>

definition socket_inv :: "watcher_config \<Rightarrow> daemon \<Rightarrow> bool" where
  "socket_inv cfg s =
     (let addr = sun_path (socket_path cfg) in
      listen_fd (fds s) = addr \<and>
      (if at s = Exited
       then endpoint_at (sockets s) addr = (if addr = socket_path cfg then None else Some Dead_Socket)
       else endpoint_at (sockets s) addr = Some Listening))"

lemma CreateListenSocket_listens:
  "CreateListenSocket p n = (Some addr, n') \<Longrightarrow> addr = sun_path p \<and> endpoint_at n' addr = Some Listening"
  by (auto simp: CreateListenSocket_def listen_def Let_def split: if_splits prod.splits bool.splits)

lemma InitWatcherFds_listens:
  assumes "InitWatcherFds p d ker n = (Some fs, n')"
  shows "listen_fd fs = sun_path p \<and> endpoint_at n' (sun_path p) = Some Listening"
  using assms CreateListenSocket_listens [of p n]
  by (fastforce simp: InitWatcherFds_def Let_def split: prod.splits option.splits if_splits)

lemma setup_socket_inv: "RunWatcher_setup initialize ker cfg w n = Some s \<Longrightarrow> socket_inv cfg s"
  by (auto simp: RunWatcher_setup_def socket_inv_def Let_def split: prod.splits bool.splits option.splits
      dest: InitWatcherFds_listens)

lemma step_socket_inv: "daemon_step cfg s t \<Longrightarrow> socket_inv cfg s \<Longrightarrow> at s \<noteq> Exited \<Longrightarrow> socket_inv cfg t"
  by (induction rule: daemon_step.induct)
    (auto simp: socket_inv_def Let_def unlink_def close_listener_def HandleSignal_def)

lemma exited_stays:
  "daemon_step cfg s t \<Longrightarrow> at s = Exited \<Longrightarrow> at t = Exited \<and> sockets t = sockets s \<and> fds t = fds s"
  by (induction rule: daemon_step.induct) (auto simp: HandleSignal_def)

lemma reachable_socket_inv: "reachable cfg s \<Longrightarrow> socket_inv cfg s"
proof (induction rule: reachable.induct)
  case (step s t)
  show ?case
  proof (cases "at s = Exited")
    case True
    then show ?thesis using exited_stays [OF step.hyps(2)] step.IH by (simp add: socket_inv_def)
  qed (use step_socket_inv step in blast)
qed (rule setup_socket_inv)

lemma sun_path_short: "sun_path p = p \<longleftrightarrow> length p \<le> 107"
proof
  assume "sun_path p = p"
  moreover have "length (sun_path p) \<le> 107" by (simp add: sun_path_def truncate_to_def)
  ultimately show "length p \<le> 107" by simp
qed (simp add: sun_path_def truncate_to_fits)

text \<open>
  C17. After \<^verbatim>\<open>RunWatcher\<close> has returned the daemon can be started again on the same socket
  path if the path has at most 107 characters: the path is free, and with working system
  calls \<^verbatim>\<open>CreateListenSocket\<close> succeeds. With a longer path it never succeeds again: the
  dead socket at the first 107 characters is in the way and is not removed.
\<close>

theorem restart_after_exit:
  assumes "reachable cfg s" and "at s = Exited"
  shows "if length (socket_path cfg) \<le> 107
    then endpoint_at (sockets s) (socket_path cfg) = None \<and>
      (socket_ok (sockets s) \<and> probe_ok (sockets s) \<and> bind_permitted (sockets s) \<and> listen_ok (sockets s) \<longrightarrow>
        fst (CreateListenSocket (socket_path cfg) (sockets s)) = Some (socket_path cfg))
    else fst (CreateListenSocket (socket_path cfg) (sockets s)) = None \<and>
      endpoint_at (snd (CreateListenSocket (socket_path cfg) (sockets s))) (take 107 (socket_path cfg)) =
        Some Dead_Socket"
proof (cases "length (socket_path cfg) \<le> 107")
  case True
  then have "sun_path (socket_path cfg) = socket_path cfg" by (simp add: sun_path_short)
  then have "endpoint_at (sockets s) (socket_path cfg) = None"
    using reachable_socket_inv [OF assms(1)] assms(2) by (simp add: socket_inv_def Let_def)
  then show ?thesis using True by (simp add: CreateListenSocket_result)
next
  case False
  then have "sun_path (socket_path cfg) \<noteq> socket_path cfg" by (simp add: sun_path_short)
  moreover have "sun_path (socket_path cfg) = take 107 (socket_path cfg)"
    by (simp add: sun_path_def truncate_to_def)
  ultimately have "endpoint_at (sockets s) (take 107 (socket_path cfg)) = Some Dead_Socket"
    using reachable_socket_inv [OF assms(1)] assms(2) by (simp add: socket_inv_def Let_def)
  then show ?thesis using False long_path_cannot_restart by simp
qed

theorem restart_after_exit_witness:
  "\<exists>s. reachable example_config s \<and> at s = Exited \<and> endpoint_at (sockets s) ''/run/h.sock'' = None"
proof -
  obtain s where s: "reachable example_config s" using example_late_dump by auto
  have "\<not> patch_build_ids example_config" by (simp add: example_config_def)
  then obtain t where t: "(daemon_step example_config)\<^sup>*\<^sup>* s t" "at t = Exited"
    using exit_reachable [OF s] by auto
  have r: "reachable example_config t" using reachable_steps [OF t(1) s] .
  show ?thesis using restart_after_exit [OF r t(2)] r t(2) by (auto simp: example_config_def)
qed

section \<open>Clients and the shutdown\<close>

lemma handler_joined_step:
  "daemon_step cfg s t \<Longrightarrow> at s \<in> {Joining_Worker, Exited} \<longrightarrow> \<not> handler_running s \<Longrightarrow>
   at t \<in> {Joining_Worker, Exited} \<longrightarrow> \<not> handler_running t"
  by (induction rule: daemon_step.induct) (auto simp: HandleSignal_def)

lemma handler_joined: "reachable cfg s \<Longrightarrow> at s \<in> {Joining_Worker, Exited} \<longrightarrow> \<not> handler_running s"
proof (induction rule: reachable.induct)
  case (start initialize ker w n s)
  then show ?case
    by (auto simp: RunWatcher_setup_def Let_def split: prod.splits bool.splits option.splits)
qed (rule handler_joined_step)

lemma client_keeps_handler:
  assumes "daemon_step cfg s t" and "server_ready s" and "handler_running s" and "0 < clients s"
  shows "server_ready t \<and> handler_running t"
  using assms by (cases rule: daemon_stepE) (auto simp: HandleSignal_def)

text \<open>
  C15. While a client holds the shared descriptor, a running handler thread keeps the daemon
  from exiting: along every run in which a client remains, whatever signals arrive, the
  handler thread runs on and \<^verbatim>\<open>RunWatcher\<close> does not get past joining it.
\<close>

theorem client_delays_exit:
  assumes "reachable cfg s" and "server_ready s" and "handler_running s" and "0 < clients s"
    and "(\<lambda>a b. daemon_step cfg a b \<and> 0 < clients b)\<^sup>*\<^sup>* s t"
  shows "handler_running t \<and> at t \<noteq> Joining_Worker \<and> at t \<noteq> Exited"
proof -
  have "reachable cfg t \<and> server_ready t \<and> handler_running t \<and> 0 < clients t"
    using assms(5)
  proof (induction rule: rtranclp_induct)
    case (step u v)
    then show ?case using client_keeps_handler [of cfg u v] reachable.step [of cfg u v] by blast
  qed (use assms in simp)
  then show ?thesis using handler_joined by blast
qed

theorem client_delays_exit_witness:
  "\<exists>s. reachable example_config s \<and> stop_flag s \<and> 0 < clients s \<and> at s = Joining_Handler \<and> handler_running s"
proof -
  obtain s where s: "reachable example_config s" "at s = Polling" "\<not> stop_flag s" "unread s = []"
    "server_ready s" "handler_running s" "clients s = 0"
    using example_starts reachable.start by metis
  let ?tick = "\<lparr>g_stop = False, tick_now = 0, poll_result = Inr (False, True), accept_result = Inr 9,
    send_result = (\<lambda>_. None), read_result = Inl 0\<rparr>"
  let ?calls = "AcceptAndShareSocket (Inr 9) (\<lambda>_. None) (client_fd (fds s)) (handler_pid s)"
  let ?t = "s\<lparr>worker := worker s, unread := [], sent := sent s @ ?calls, clients := clients s + new_clients ?tick\<rparr>"
  have st: "daemon_step example_config s ?t"
    using s by (intro daemon_step.poll_step) (simp_all add: kernel_read_def does_read_def loop_body_def)
  then have "reachable example_config ?t" using s(1) by (rule reachable.step [rotated])
  moreover have "server_ready ?t" "handler_running ?t" "0 < clients ?t" "at ?t = Polling"
    using s by (simp_all add: new_clients_def)
  ultimately obtain t where t: "reachable example_config t" and c: "server_ready t" "handler_running t"
      "0 < clients t" "at t = Polling" by blast
  let ?u = "HandleSignal SIGTERM t" and ?v = "(HandleSignal SIGTERM t)\<lparr>at := Joining_Handler\<rparr>"
  have 1: "daemon_step example_config t ?u"
    by (intro daemon_step.signal_step) (simp add: SetupSignalHandlers_def)
  have 2: "daemon_step example_config ?u ?v"
    using c(4) by (intro daemon_step.stop_step) (simp_all add: HandleSignal_def)
  have "0 < clients ?u" "0 < clients ?v" using c(3) by (simp_all add: HandleSignal_def)
  then have run: "(\<lambda>a b. daemon_step example_config a b \<and> 0 < clients b)\<^sup>*\<^sup>* t ?v"
    using 1 2 by (intro rtranclp.rtrancl_into_rtrancl [OF r_into_rtranclp]) simp_all
  have "reachable example_config ?v" using reachable.step [OF reachable.step [OF t 1] 2] .
  then show ?thesis
    using client_delays_exit [OF t c(1-3) run] c(3) by (intro exI [of _ ?v]) (simp add: HandleSignal_def)
qed

end
