(* ===== verification/Watcherd.thy ===== *)
theory Watcherd
  imports Watcherd_Main Daemon
begin

text \<open>
  The program \<^verbatim>\<open>crashomon-watcherd\<close> as a whole: \<^verbatim>\<open>main\<close> of \<^verbatim>\<open>daemon/main.cpp\<close> run with
  \<^verbatim>\<open>RunWatcher\<close> of \<^verbatim>\<open>daemon/watcher.cpp\<close>, when it starts, and how the parts that are given the
  same settings agree.
\<close>

section \<open>The daemon as a whole\<close>

text \<open>
  \<^verbatim>\<open>main\<close> with \<^verbatim>\<open>RunWatcher\<close>: \<open>Inl\<close> is an exit code before the event loop, \<open>Inr\<close> the arguments
  of \<^verbatim>\<open>RunWatcher\<close> and the state in which the loop starts. The daemon returns 0 after the loop.
\<close>

definition RunWatcher_start ::
  "(string \<Rightarrow> world \<Rightarrow> world option) \<Rightarrow> (world \<Rightarrow> string \<Rightarrow> breakpad option) \<Rightarrow> kernel_answers \<Rightarrow> world \<Rightarrow> net \<Rightarrow>
    string \<Rightarrow> string \<Rightarrow> DiskManagerConfig \<Rightarrow> string \<Rightarrow> bool \<Rightarrow> int + watcher_config \<times> daemon"
where
  "RunWatcher_start initialize breakpad_rd ker w n db sock prune export patch =
     (let cfg = \<lparr>watcher_config.db_path = db, socket_path = sock, prune_cfg = prune, export_path = export,
        patch_build_ids = patch, breakpad_read = breakpad_rd\<rparr> in
      case RunWatcher_setup initialize ker cfg w n of None \<Rightarrow> Inl 1 | Some s \<Rightarrow> Inr (cfg, s))"

definition watcherd ::
  "(string \<Rightarrow> string option) \<Rightarrow> string list \<Rightarrow> (string \<Rightarrow> world \<Rightarrow> world option) \<Rightarrow>
    (world \<Rightarrow> string \<Rightarrow> breakpad option) \<Rightarrow> kernel_answers \<Rightarrow> world \<Rightarrow> net \<Rightarrow> int + watcher_config \<times> daemon"
where
  "watcherd getenv args initialize breakpad_rd ker w n =
     watcherd_main getenv args (RunWatcher_start initialize breakpad_rd ker w n) Inl"

lemma parsed_paths:
  "parse_args args (default_options getenv) = Some opts \<Longrightarrow>
   opt_db_path opts = setting getenv args ''--db-path'' ''CRASHOMON_DB_PATH'' ''/var/crashomon'' \<and>
   opt_socket_path opts = setting getenv args ''--socket-path'' ''CRASHOMON_SOCKET_PATH'' ''/run/crashomon/handler.sock''"
proof -
  assume p: "parse_args args (default_options getenv) = Some opts"
  then have "\<forall>arg\<in>set args. recognised arg" using parse_args_None [of args "default_options getenv"] by auto
  from parse_args_Some [OF this] p show ?thesis
    by (auto simp: setting_def default_options_def split: option.split)
qed

lemma watcherd_Inr:
  assumes "watcherd getenv args initialize br ker w n = Inr (cfg, s)"
  obtains opts where "parse_args args (default_options getenv) = Some opts"
    and "RunWatcher_setup initialize ker cfg w n = Some s"
    and "cfg = \<lparr>watcher_config.db_path = opt_db_path opts, socket_path = opt_socket_path opts, prune_cfg = prune_config opts,
      export_path = opt_export_path opts, patch_build_ids = opt_patch_build_ids opts, breakpad_read = br\<rparr>"
  using assms
  by (auto simp: watcherd_def watcherd_main_def RunWatcher_start_def Let_def split: option.splits)

text \<open>
  C22. The daemon gets to its event loop, polling and with no crash seen yet, exactly when every
  argument is recognised, the database directory exists, Crashpad can open the database in it,
  and the sockets and the watch on \<^verbatim>\<open>pending\<close> can be set up for the configured paths; in every
  other case it exits with 1.
\<close>

theorem watcherd_starts:
  fixes getenv args
  defines "db \<equiv> setting getenv args ''--db-path'' ''CRASHOMON_DB_PATH'' ''/var/crashomon''"
    and "sock \<equiv> setting getenv args ''--socket-path'' ''CRASHOMON_SOCKET_PATH'' ''/run/crashomon/handler.sock''"
  shows "if (\<forall>arg\<in>set args. recognised arg) \<and> is_directory w db \<and>
      initialize db (mkdir (db @ ''/pending'') (mkdir (db @ ''/new'') w)) \<noteq> None \<and>
      fst (InitWatcherFds sock (db @ ''/pending'') ker n) \<noteq> None
    then \<exists>cfg s. watcherd getenv args initialize br ker w n = Inr (cfg, s) \<and> reachable cfg s \<and>
      at s = Polling \<and> \<not> stop_flag s \<and> accepted s = [] \<and> arrived s = []
    else watcherd getenv args initialize br ker w n = Inl 1"
proof (cases "parse_args args (default_options getenv)")
  case None
  then have "\<not> (\<forall>arg\<in>set args. recognised arg)"
    using parse_args_None [of args "default_options getenv"] by blast
  then show ?thesis using None by (simp only: simp_thms if_False) (simp add: watcherd_def watcherd_main_def)
next
  case (Some opts)
  then have r: "\<forall>arg\<in>set args. recognised arg" using parse_args_None [of args "default_options getenv"] by auto
  have paths: "opt_db_path opts = db" "opt_socket_path opts = sock"
    using parsed_paths [OF Some] by (simp_all add: db_def sock_def)
  define cfg where "cfg = \<lparr>watcher_config.db_path = db, socket_path = sock, prune_cfg = prune_config opts,
      export_path = opt_export_path opts, patch_build_ids = opt_patch_build_ids opts, breakpad_read = br\<rparr>"
  have start: "watcherd getenv args initialize br ker w n =
      (case RunWatcher_setup initialize ker cfg w n of None \<Rightarrow> Inl 1 | Some s \<Rightarrow> Inr (cfg, s))"
    unfolding watcherd_def watcherd_main_def Some option.case RunWatcher_start_def Let_def paths cfg_def by (rule refl)
  let ?ok = "is_directory w db \<and> initialize db (mkdir (db @ ''/pending'') (mkdir (db @ ''/new'') w)) \<noteq> None \<and>
      fst (InitWatcherFds sock (db @ ''/pending'') ker n) \<noteq> None"
  have result: "RunWatcher_setup initialize ker cfg w n = None \<longleftrightarrow> \<not> ?ok"
    "RunWatcher_setup initialize ker cfg w n = Some s \<Longrightarrow>
      at s = Polling \<and> \<not> stop_flag s \<and> accepted s = [] \<and> arrived s = []" for s
    by (cases "is_directory w db"; auto simp: RunWatcher_setup_def EnsureDbDirs_def watched_dir_def cfg_def
        accepted_def Let_def split: option.splits prod.splits)+
  show ?thesis
  proof (cases ?ok)
    case True
    then obtain s where s: "RunWatcher_setup initialize ker cfg w n = Some s" using result(1) by blast
    have "reachable cfg s" using s by (rule reachable.start)
    then show ?thesis using True r s start result(2) [OF s] by auto
  next
    case False
    then show ?thesis using result(1) start by auto
  qed
qed

lemma watched_is_pending: "watched_dir cfg = pending_dir (prune_cfg cfg)"
  if "DiskManagerConfig.db_path (prune_cfg cfg) = watcher_config.db_path cfg" for cfg
  using that by (simp add: watched_dir_def pending_dir_def)

lemma child_of_pending:
  assumes "CHR ''/'' \<notin> set nm" and "suffix ''.dmp'' nm" and "4 < length nm"
  shows "is_child (d @ ''/pending'') (d @ ''/pending'' @ ''/'' @ nm) \<and>
    extension (d @ ''/pending'' @ ''/'' @ nm) = ''.dmp''"
proof -
  have p: "path_append (d @ ''/pending'') nm = d @ ''/pending'' @ ''/'' @ nm"
    by (simp add: path_append_def dir_prefix_def)
  obtain f where f: "nm = f @ CHR ''.'' # ''dmp''" using assms(2) by (auto simp: suffix_def)
  then have "f \<noteq> []" using assms(3) by auto
  then have "extension nm = ''.dmp''" unfolding f using assms(1) f by (intro extension_dotted) auto
  then have "extension (path_append (d @ ''/pending'') nm) = ''.dmp''"
    using extension_of_filename [of "d @ ''/pending''" nm] assms(1) by simp
  moreover have "is_child (d @ ''/pending'') (path_append (d @ ''/pending'') nm)" using assms(1,3) by auto
  ultimately show ?thesis by (simp only: p)
qed

text \<open>
  C8. The files the daemon handles are the files it limits: from its start on, every path that
  is queued, in work or processed lies directly in the directory that pruning lists, with the
  extension that pruning looks for, and the same holds of every export and the export
  directory. Assumed is that file names contain no slash and more than the extension.
\<close>

theorem handled_files_are_limited:
  assumes "watcherd getenv args initialize br ker w n = Inr (cfg, s0)" and "(daemon_step cfg)\<^sup>*\<^sup>* s0 s"
    and "\<forall>e\<in>set (arrived s). CHR ''/'' \<notin> set (event_name e) \<and> 4 < length (event_name e)"
  shows "(\<forall>p\<in>set (accepted s). is_child (pending_dir (prune_cfg cfg)) p \<and> extension p = ''.dmp'') \<and>
    (\<forall>info v. is_child (DiskManagerConfig.export_path (prune_cfg cfg))
        (export_destination (watcher_config.export_path cfg) info v) \<and>
      extension (export_destination (watcher_config.export_path cfg) info v) = ''.crashdump'')"
proof
  obtain opts where start: "RunWatcher_setup initialize ker cfg w n = Some s0"
    and cfg: "cfg = \<lparr>watcher_config.db_path = opt_db_path opts, socket_path = opt_socket_path opts, prune_cfg = prune_config opts,
      export_path = opt_export_path opts, patch_build_ids = opt_patch_build_ids opts, breakpad_read = br\<rparr>"
    using watcherd_Inr [OF assms(1)] by blast
  have dir: "watched_dir cfg = pending_dir (prune_cfg cfg)"
    by (rule watched_is_pending) (simp add: cfg prune_config_def)
  have "reachable cfg s" using reachable_steps [OF assms(2)] reachable.start [OF start] by blast
  then have "paths_of cfg (arrived s) = accepted s @ paths_of cfg (unread s)"
    using reachable_inv by (simp add: daemon_inv_def)
  then have sub: "set (accepted s) \<subseteq> set (paths_of cfg (arrived s))" by simp
  show "\<forall>p\<in>set (accepted s). is_child (pending_dir (prune_cfg cfg)) p \<and> extension p = ''.dmp''"
  proof
    fix p assume "p \<in> set (accepted s)"
    then obtain e where e: "e \<in> set (arrived s)" "p \<in> set (dump_paths (watched_dir cfg) e)"
      using sub by (auto simp: paths_of_def)
    then have "is_new_dump e" "p = watched_dir cfg @ ''/'' @ event_name e"
      by (auto simp: dump_paths_def split: if_splits)
    then show "is_child (pending_dir (prune_cfg cfg)) p \<and> extension p = ''.dmp''"
      using child_of_pending [of "event_name e"] assms(3) e(1)
      by (simp add: is_new_dump_def watched_dir_def flip: dir)
  qed
  show "\<forall>info v. is_child (DiskManagerConfig.export_path (prune_cfg cfg))
      (export_destination (watcher_config.export_path cfg) info v) \<and>
      extension (export_destination (watcher_config.export_path cfg) info v) = ''.crashdump''"
    using export_destination_is_pruned by (simp add: cfg prune_config_def)
qed

definition example_env :: "string \<Rightarrow> string option" where
  "example_env v = (if v = ''CRASHOMON_DB_PATH'' then Some ''/db''
     else if v = ''CRASHOMON_SOCKET_PATH'' then Some ''/run/h.sock'' else None)"

lemma example_settings:
  "setting example_env [] ''--db-path'' ''CRASHOMON_DB_PATH'' ''/var/crashomon'' = ''/db''"
  "setting example_env [] ''--socket-path'' ''CRASHOMON_SOCKET_PATH'' ''/run/crashomon/handler.sock'' = ''/run/h.sock''"
  "is_directory disk_world ''/db''"
  by code_simp+

lemma example_fds: "fst (InitWatcherFds ''/run/h.sock'' ''/db/pending'' example_kernel example_net) \<noteq> None"
  by (simp add: InitWatcherFds_def example_kernel_def CreateListenSocket_result example_net_def Let_def)

theorem watcherd_starts_witness:
  "\<exists>cfg s. watcherd example_env [] (\<lambda>p w. Some w) (\<lambda>_ _. None) example_kernel disk_world example_net = Inr (cfg, s) \<and>
     reachable cfg s \<and> at s = Polling \<and> \<not> stop_flag s \<and> accepted s = [] \<and> arrived s = []"
proof -
  have "\<forall>arg\<in>set []. recognised arg" by simp
  then show ?thesis
    using watcherd_starts [of "[]" disk_world example_env "\<lambda>p w. Some w" example_kernel example_net "\<lambda>_ _. None"]
      example_fds
    by (simp add: example_settings)
qed

lemma example_daemon:
  "\<exists>cfg s. watcherd example_env [] (\<lambda>p w. Some w) (\<lambda>_ _. None) example_kernel disk_world example_net = Inr (cfg, s) \<and>
     watched_dir cfg = ''/db/pending'' \<and> at s = Polling \<and> \<not> stop_flag s \<and> handler_running s \<and> unread s = [] \<and>
     arrived s = [] \<and> processed s = [] \<and> busy s = None \<and> pending (worker s) = []"
proof -
  have "fst (EnsureDbDirs ''/db'' ''/db/new'' ''/db/pending'' disk_world)" by code_simp
  then obtain w1 where e: "EnsureDbDirs ''/db'' ''/db/new'' ''/db/pending'' disk_world = (True, w1)"
    by (metis (full_types) prod.collapse)
  obtain fs n1 where f: "InitWatcherFds ''/run/h.sock'' ''/db/pending'' example_kernel example_net = (Some fs, n1)"
    using example_fds by (metis option.exhaust prod.collapse)
  have opts: "default_options example_env = \<lparr>opt_db_path = ''/db'', opt_socket_path = ''/run/h.sock'',
      opt_export_path = [], opt_max_bytes = 0, opt_max_age_sec = 0, opt_patch_build_ids = True\<rparr>"
    by (simp add: default_options_def example_env_def)
  show ?thesis
    by (simp add: watcherd_def watcherd_main_def opts RunWatcher_start_def RunWatcher_setup_def watched_dir_def e f Let_def)
qed

theorem handled_files_are_limited_witness:
  "\<exists>cfg s0 s. watcherd example_env [] (\<lambda>p w. Some w) (\<lambda>_ _. None) example_kernel disk_world example_net = Inr (cfg, s0) \<and>
     (daemon_step cfg)\<^sup>*\<^sup>* s0 s \<and> accepted s = [''/db/pending/z.dmp''] \<and>
     is_child (pending_dir (prune_cfg cfg)) ''/db/pending/z.dmp''"
proof -
  obtain cfg s where start: "watcherd example_env [] (\<lambda>p w. Some w) (\<lambda>_ _. None) example_kernel disk_world example_net =
      Inr (cfg, s)" and s: "watched_dir cfg = ''/db/pending''" "at s = Polling" "\<not> stop_flag s" "handler_running s"
      "unread s = []" "arrived s = []" "processed s = []" "busy s = None" "pending (worker s) = []"
    using example_daemon by blast
  have e: "event_well_formed example_event" "event_name example_event = ''z.dmp''"
    by (simp_all add: example_event_def event_well_formed_def byte_of_char_def)
  let ?t = "s\<lparr>unread := unread s @ [example_event], arrived := arrived s @ [example_event], os := os s\<rparr>"
  have 1: "daemon_step cfg s ?t" using s(4) e(1) by (rule daemon_step.dump_step)
  let ?tick = "\<lparr>g_stop = False, tick_now = 0, poll_result = Inr (True, False), accept_result = Inl 0,
    send_result = (\<lambda>_. None), read_result = Inr (concat (map encode_event [example_event]))\<rparr>"
  let ?st = "fold push_pending (concat (map (dump_paths (watched_dir cfg)) [example_event])) (worker s)"
  let ?u = "?t\<lparr>worker := ?st, unread := [], sent := sent ?t @ [], clients := clients ?t + new_clients ?tick\<rparr>"
  have enq: "EnqueueInotifyEvents (watched_dir cfg) (worker s) (concat (map encode_event [example_event])) 0 = Some ?st"
    using enqueue_events_from [of "[example_event]" "watched_dir cfg" "worker s" "[]"] e(1) by simp
  have len: "length (concat (map encode_event [example_event])) \<le> kInotifyEventBufferCount * (inotify_header + 256)"
    by (simp add: length_encode_event example_event_def kInotifyEventBufferCount_def inotify_header_def)
  have 2: "daemon_step cfg ?t ?u"
    using s(2,3,5) enq len
    by (intro daemon_step.poll_step) (simp_all add: kernel_read_def does_read_def loop_body_def)
  have run: "(daemon_step cfg)\<^sup>*\<^sup>* s ?u" using 1 2 by (rule rtranclp.rtrancl_into_rtrancl [OF r_into_rtranclp])
  have "dump_paths (watched_dir cfg) example_event = [''/db/pending/z.dmp'']"
    by (simp add: dump_paths_def is_new_dump_def example_event_def IN_MOVED_TO_def suffix_def s(1))
  then have acc: "accepted ?u = [''/db/pending/z.dmp'']"
    using s(7-9) by (simp add: accepted_def push_pending_def)
  have "\<forall>e\<in>set (arrived ?u). CHR ''/'' \<notin> set (event_name e) \<and> 4 < length (event_name e)"
    using s(6) e(2) by simp
  from handled_files_are_limited [OF start run this] show ?thesis
    using start run acc by (intro exI [of _ cfg] exI [of _ s] exI [of _ ?u]) simp
qed

end
