(* ===== verification/Client.thy ===== *)
theory Client
  imports Crash_Socket
begin

text \<open>
  The client library, \<^verbatim>\<open>lib/crashomon.cpp\<close>, \<^verbatim>\<open>lib/crashomon_internal.h\<close> and
  \<^verbatim>\<open>lib/exception_capture.cpp\<close>: configuration from the environment, the connection to the
  daemon with its retry loop, and the annotations. Crashpad's dictionary and client, the
  demangler and the C library's \<^verbatim>\<open>strerror\<close> are arguments.
\<close>

section \<open>Configuration\<close>

definition kDefaultDbPath :: string where "kDefaultDbPath = ''/var/crashomon''"
definition kDefaultSocketPath :: string where "kDefaultSocketPath = ''/run/crashomon/handler.sock''"
definition kDefaultConnectTimeoutSec :: int where "kDefaultConnectTimeoutSec = 3"

type_synonym environment = "string \<Rightarrow> string option"

definition GetEnv :: "environment \<Rightarrow> string \<Rightarrow> string option" where
  "GetEnv env var = env var"

record ResolvedConfig =
  resolved_db_path :: string
  resolved_socket_path :: string
  connect_timeout_sec :: int

text \<open>The conversion of a \<^verbatim>\<open>long\<close> to \<^verbatim>\<open>int\<close> keeps the low 32 bits.\<close>

definition long_to_int :: "int \<Rightarrow> int" where
  "long_to_int v = signed_take_bit 31 v"

definition resolve_timeout :: "string option \<Rightarrow> int" where
  "resolve_timeout e =
     (case e of
        None \<Rightarrow> kDefaultConnectTimeoutSec
      | Some val_str \<Rightarrow>
          (case strtol val_str of
             None \<Rightarrow> kDefaultConnectTimeoutSec
           | Some (val, rest) \<Rightarrow>
               if rest = [] \<and> val \<ge> 0 then long_to_int val else kDefaultConnectTimeoutSec))"

definition Resolve :: "environment \<Rightarrow> ResolvedConfig" where
  "Resolve env =
     \<lparr>resolved_db_path =
        (case GetEnv env ''CRASHOMON_DB_PATH'' of Some e \<Rightarrow> e | None \<Rightarrow> kDefaultDbPath),
      resolved_socket_path =
        (case GetEnv env ''CRASHOMON_SOCKET_PATH'' of Some e \<Rightarrow> e | None \<Rightarrow> kDefaultSocketPath),
      connect_timeout_sec = resolve_timeout (GetEnv env ''CRASHOMON_CONNECT_TIMEOUT_SEC'')\<rparr>"

section \<open>Log filter\<close>

definition CrashpadLogFilter :: "int \<Rightarrow> int \<Rightarrow> string option \<Rightarrow> nat \<Rightarrow> string \<Rightarrow> bool" where
  "CrashpadLogFilter LOG_WARNING severity file message_start str =
     (severity = LOG_WARNING \<and>
      (case file of None \<Rightarrow> False | Some f \<Rightarrow> find_sub ''crashpad_client_linux.cc'' f \<noteq> None) \<and>
      find_sub ''prctl'' (drop message_start str) \<noteq> None)"

section \<open>Times\<close>

datatype timespec = Timespec (tv_sec: int) (tv_nsec: int)

instantiation timespec :: linorder
begin

definition less_eq_timespec :: "timespec \<Rightarrow> timespec \<Rightarrow> bool" where
  "less_eq_timespec a b = (tv_sec a < tv_sec b \<or> tv_sec a = tv_sec b \<and> tv_nsec a \<le> tv_nsec b)"

definition less_timespec :: "timespec \<Rightarrow> timespec \<Rightarrow> bool" where
  "less_timespec a b = (tv_sec a < tv_sec b \<or> tv_sec a = tv_sec b \<and> tv_nsec a < tv_nsec b)"

instance
  by standard (auto simp: less_eq_timespec_def less_timespec_def timespec.expand)

end

definition deadline_reached :: "timespec \<Rightarrow> timespec \<Rightarrow> bool" where
  "deadline_reached now deadline =
     (tv_sec now > tv_sec deadline \<or>
      tv_sec now = tv_sec deadline \<and> tv_nsec now \<ge> tv_nsec deadline)"

definition kRetryIntervalNs :: int where "kRetryIntervalNs = 100000000"

definition retry_interval :: timespec where "retry_interval = Timespec 0 kRetryIntervalNs"

text \<open>
  The monotonic clock is the number of nanoseconds since it was started. A call of
  \<^verbatim>\<open>nanosleep\<close> lasts at least as long as asked for, or a signal handler cuts it short and
  it fails with \<^verbatim>\<open>EINTR\<close>.
\<close>

definition in_ns :: "timespec \<Rightarrow> int" where
  "in_ns t = 10 ^ 9 * tv_sec t + tv_nsec t"

definition clock_gettime :: "int \<Rightarrow> timespec" where
  "clock_gettime now = Timespec (now div 10 ^ 9) (now mod 10 ^ 9)"

datatype sleep_outcome = Slept (overrun: nat) | Interrupted (slept_for: nat)

definition nanosleep :: "timespec \<Rightarrow> sleep_outcome \<Rightarrow> int \<Rightarrow> int \<times> int" where
  "nanosleep request outcome now =
     (case outcome of
        Slept n \<Rightarrow> (0, now + in_ns request + int n)
      | Interrupted n \<Rightarrow> (-1, now + min (int n) (in_ns request)))"

section \<open>The connection\<close>

definition ENOENT :: errno where "ENOENT = 2"
definition ECONNREFUSED :: errno where "ECONNREFUSED = 111"

definition transient :: "errno \<Rightarrow> bool" where
  "transient e = (e = ENOENT \<or> e = ECONNREFUSED)"

text \<open>
  The retry loop. \<open>conn k\<close> is the result of the \<open>k\<close>-th \<^verbatim>\<open>connect\<close>, \<open>takes k\<close> the time in
  nanoseconds that passes before the clock is read after it, and \<open>sleeps k\<close> what becomes of
  the \<^verbatim>\<open>nanosleep\<close> that follows, whose result the code ignores; \<open>now\<close> is the clock. The result is
  the number of attempts, whether the waiting message was printed, and the error of the last
  attempt (none if it connected). The loop need not end: then there is no result.
\<close>

partial_function (option) connect_loop ::
  "(nat \<Rightarrow> errno option) \<Rightarrow> (nat \<Rightarrow> nat) \<Rightarrow> (nat \<Rightarrow> sleep_outcome) \<Rightarrow> timespec \<Rightarrow> int \<Rightarrow> nat \<Rightarrow> bool \<Rightarrow>
    (nat \<times> bool \<times> errno option) option"
where
  "connect_loop conn takes sleeps deadline now k waiting_printed =
     (case conn k of
        None \<Rightarrow> Some (Suc k, waiting_printed, None)
      | Some e \<Rightarrow>
          if \<not> transient e then Some (Suc k, waiting_printed, Some e)
          else
            let now1 = now + int (takes k) in
            if deadline_reached (clock_gettime now1) deadline then Some (Suc k, waiting_printed, Some e)
            else connect_loop conn takes sleeps deadline (snd (nanosleep retry_interval (sleeps k) now1)) (Suc k) True)"

text \<open>
  \<^verbatim>\<open>recvmsg\<close> answers an error, or the number of payload bytes and the message. The buffer
  for \<^verbatim>\<open>pid\<close> is zero before.
\<close>

definition ReceiveSharedSocket :: "errno + nat \<times> msghdr \<Rightarrow> (int \<times> int) option" where
  "ReceiveSharedSocket received =
     (case received of
        Inl e \<Rightarrow> None
      | Inr (recv_len, msg) \<Rightarrow>
          if recv_len < 4 then None
          else (case msg_control msg of
             None \<Rightarrow> None
           | Some cmsg \<Rightarrow>
               if cmsg_level cmsg \<noteq> SOL_SOCKET \<or> cmsg_type cmsg \<noteq> SCM_RIGHTS \<or> cmsg_len cmsg \<noteq> CMSG_LEN 4
               then None
               else Some (bytes_int (take 4 (cmsg_data cmsg)), bytes_int (take 4 (msg_iov msg)))))"

section \<open>Annotations\<close>

text \<open>
  \<^verbatim>\<open>simple_annotations\<close> points to nothing, to the library's own dictionary, or to one that
  the host program has set up. \<open>set_key_value\<close> stands for
  \<^verbatim>\<open>SimpleStringDictionary::SetKeyValue\<close>.
\<close>

datatype dictionary_ref = Library_Annotations | Host_Annotations nat

record 'd client =
  log_filter_installed :: bool
  simple_annotations :: "dictionary_ref option"
  dictionaries :: "dictionary_ref \<Rightarrow> 'd"
  terminate_hook :: bool
  open_sockets :: "int list"
  stderr :: string

definition crashomon_set_tag ::
  "('d \<Rightarrow> string \<Rightarrow> string \<Rightarrow> 'd) \<Rightarrow> string option \<Rightarrow> string option \<Rightarrow> 'd client \<Rightarrow> 'd client"
where
  "crashomon_set_tag set_key_value key val s =
     (case (simple_annotations s, key, val) of
        (Some r, Some k, Some v) \<Rightarrow>
          s\<lparr>dictionaries := (dictionaries s)(r := set_key_value (dictionaries s r) k v)\<rparr>
      | _ \<Rightarrow> s)"

definition crashomon_set_abort_message ::
  "('d \<Rightarrow> string \<Rightarrow> string \<Rightarrow> 'd) \<Rightarrow> string option \<Rightarrow> 'd client \<Rightarrow> 'd client"
where
  "crashomon_set_abort_message set_key_value msg s =
     crashomon_set_tag set_key_value (Some ''abort_message'') msg s"

definition or_unknown :: "string option \<Rightarrow> string" where
  "or_unknown s = (case s of Some t \<Rightarrow> t | None \<Rightarrow> ''?'')"

definition assert_text :: "string option \<Rightarrow> string option \<Rightarrow> u32 \<Rightarrow> string option \<Rightarrow> string" where
  "assert_text assertion file line func =
     ''assertion failed: '' @ [CHR 0x27] @ or_unknown assertion @ [CHR 0x27] @ '' ('' @ or_unknown file @
     '':'' @ show_dec (unat line) @ '', '' @ or_unknown func @ '')''"

definition WriteAssertAnnotation ::
  "('d \<Rightarrow> string \<Rightarrow> string \<Rightarrow> 'd) \<Rightarrow> string option \<Rightarrow> string option \<Rightarrow> u32 \<Rightarrow> string option \<Rightarrow>
    'd client \<Rightarrow> 'd client"
where
  "WriteAssertAnnotation set_key_value assertion file line func s =
     crashomon_set_abort_message set_key_value
       (Some (truncate_to 512 (assert_text assertion file line func))) s"

text \<open>
  \<open>demangle\<close> is \<^verbatim>\<open>abi::__cxa_demangle\<close>: its status and the text. An exception type is given
  by its mangled name.
\<close>

definition demangled_name :: "(string \<Rightarrow> int \<times> string option) \<Rightarrow> string \<Rightarrow> string" where
  "demangled_name demangle nm =
     (case demangle nm of (status, Some t) \<Rightarrow> if status = 0 then t else nm | (status, None) \<Rightarrow> nm)"

definition WriteTerminateAnnotation ::
  "('d \<Rightarrow> string \<Rightarrow> string \<Rightarrow> 'd) \<Rightarrow> (string \<Rightarrow> int \<times> string option) \<Rightarrow> string option \<Rightarrow> string option \<Rightarrow>
    'd client \<Rightarrow> 'd client"
where
  "WriteTerminateAnnotation set_key_value demangle exc_type what_msg s =
     (case exc_type of
        Some nm \<Rightarrow>
          (let s1 = crashomon_set_tag set_key_value (Some ''terminate_type'') (Some (demangled_name demangle nm)) s;
               msg = (case what_msg of
                  Some (c # cs) \<Rightarrow> c # cs | _ \<Rightarrow> ''unhandled C++ exception'') in
           crashomon_set_abort_message set_key_value (Some msg) s1)
      | None \<Rightarrow>
          crashomon_set_abort_message set_key_value (Some ''terminate called without active exception'') s)"

text \<open>The current exception: none, a \<^verbatim>\<open>std::exception\<close> with its text, or something else.\<close>

datatype current_exception = No_Exception | Std_Exception (mangled: string) (what: string) | Other_Exception (mangled: string)

text \<open>The text in the buffer afterwards; a null buffer is \<open>None\<close>, and stays untouched.\<close>

definition CaptureCurrentExceptionMessage :: "current_exception \<Rightarrow> string option \<Rightarrow> nat \<Rightarrow> string option" where
  "CaptureCurrentExceptionMessage cur buf buf_size =
     (if buf = None \<or> buf_size = 0 then buf
      else (case cur of
         No_Exception \<Rightarrow> Some []
       | Std_Exception nm w \<Rightarrow> Some (truncate_to buf_size w)
       | Other_Exception nm \<Rightarrow> Some []))"

definition cxa_current_exception_type :: "current_exception \<Rightarrow> string option" where
  "cxa_current_exception_type cur =
     (case cur of No_Exception \<Rightarrow> None | Std_Exception nm w \<Rightarrow> Some nm | Other_Exception nm \<Rightarrow> Some nm)"

text \<open>The handler that \<^verbatim>\<open>DoInit\<close> gives to \<^verbatim>\<open>std::set_terminate\<close>, up to its \<^verbatim>\<open>abort\<close>.\<close>

definition terminate_handler ::
  "('d \<Rightarrow> string \<Rightarrow> string \<Rightarrow> 'd) \<Rightarrow> (string \<Rightarrow> int \<times> string option) \<Rightarrow> current_exception \<Rightarrow> 'd client \<Rightarrow> 'd client"
where
  "terminate_handler set_key_value demangle cur s =
     WriteTerminateAnnotation set_key_value demangle (cxa_current_exception_type cur)
       (CaptureCurrentExceptionMessage cur (Some []) 512) s"

section \<open>Initialisation\<close>

record client_kernel =
  socket_result :: int
  connect_at :: "string \<Rightarrow> nat \<Rightarrow> errno option"
  clock_start :: int
  connect_takes :: "nat \<Rightarrow> nat"
  sleep_at :: "nat \<Rightarrow> sleep_outcome"
  recvmsg_result :: "errno + nat \<times> msghdr"
  set_handler_socket :: "int \<Rightarrow> int \<Rightarrow> bool"
  strerror :: "errno \<Rightarrow> string"
  resolved_assert_fail :: nat
  own_assert_fail :: nat

definition show_int :: "int \<Rightarrow> string" where
  "show_int i = (if i < 0 then CHR ''-'' # show_dec (nat (- i)) else show_dec (nat i))"

definition put_stderr :: "string \<Rightarrow> 'd client \<Rightarrow> 'd client" where
  "put_stderr msg s = s\<lparr>stderr := stderr s @ msg\<rparr>"

definition close_socket :: "int \<Rightarrow> 'd client \<Rightarrow> 'd client" where
  "close_socket fd s = s\<lparr>open_sockets := remove1 fd (open_sockets s)\<rparr>"

definition wait_message :: "ResolvedConfig \<Rightarrow> string" where
  "wait_message cfg = ''crashomon: waiting for watcherd at '' @ resolved_socket_path cfg @
     truncate_to 32 ('' (up to '' @ show_int (connect_timeout_sec cfg) @ ''s)...'' @ [CHR 0x0A])"

definition failure_message :: "(errno \<Rightarrow> string) \<Rightarrow> ResolvedConfig \<Rightarrow> errno \<Rightarrow> string" where
  "failure_message strerr cfg e = ''crashomon: could not connect to watcherd at '' @ resolved_socket_path cfg @
     (if transient e
      then truncate_to 64 ('': not available after '' @ show_int (connect_timeout_sec cfg) @
        ''s, running without crash monitoring'' @ [CHR 0x0A])
      else '': '' @ strerr e @ [CHR 0x0A])"

definition interposition_warning :: string where
  "interposition_warning =
     ''crashomon: warning: __assert_fail interposition failed '' @ map char_of [0xE2 :: nat, 0x80, 0x94] @
     '' assert() failures will not include message text. Use LD_PRELOAD or link libcrashomon.a instead.'' @
     [CHR 0x0A]"

text \<open>What follows a successful connection.\<close>

definition finish_init :: "client_kernel \<Rightarrow> int \<Rightarrow> 'd client \<Rightarrow> int \<times> 'd client" where
  "finish_init ker sock s =
     (let s1 = close_socket sock s in
      case ReceiveSharedSocket (recvmsg_result ker) of
        None \<Rightarrow> (-1, s1)
      | Some (shared_fd, handler_pid) \<Rightarrow>
          if shared_fd < 0 then (-1, s1)
          else if \<not> set_handler_socket ker shared_fd handler_pid then (-1, s1)
          else
            (let s2 = s1\<lparr>simple_annotations := Some Library_Annotations, terminate_hook := True\<rparr> in
             (0, if resolved_assert_fail ker \<noteq> 0 \<and> resolved_assert_fail ker \<noteq> own_assert_fail ker
                 then put_stderr interposition_warning s2 else s2)))"

definition DoInit :: "client_kernel \<Rightarrow> ResolvedConfig \<Rightarrow> 'd client \<Rightarrow> (int \<times> 'd client) option" where
  "DoInit ker cfg s =
     (let s1 = s\<lparr>log_filter_installed := True\<rparr>; sock = socket_result ker in
      if sock < 0 then Some (-1, s1)
      else
        let s2 = s1\<lparr>open_sockets := sock # open_sockets s1\<rparr>;
            start = clock_gettime (clock_start ker);
            deadline = Timespec (tv_sec start + connect_timeout_sec cfg) (tv_nsec start) in
        case connect_loop (connect_at ker (sun_path (resolved_socket_path cfg))) (connect_takes ker) (sleep_at ker)
               deadline (clock_start ker) 0 False of
          None \<Rightarrow> None
        | Some (attempts, waiting_printed, outcome) \<Rightarrow>
            (let s3 = (if waiting_printed then put_stderr (wait_message cfg) s2 else s2) in
             case outcome of
               Some e \<Rightarrow> Some (-1, close_socket sock (put_stderr (failure_message (strerror ker) cfg e) s3))
             | None \<Rightarrow> Some (finish_init ker sock s3)))"

definition AutoInit :: "client_kernel \<Rightarrow> environment \<Rightarrow> 'd client \<Rightarrow> (int \<times> 'd client) option" where
  "AutoInit ker env s = DoInit ker (Resolve env) s"

definition assert_fail ::
  "('d \<Rightarrow> string \<Rightarrow> string \<Rightarrow> 'd) \<Rightarrow> string option \<Rightarrow> string option \<Rightarrow> u32 \<Rightarrow> string option \<Rightarrow>
    'd client \<Rightarrow> 'd client"
where
  "assert_fail set_key_value assertion file line func s =
     WriteAssertAnnotation set_key_value assertion file line func s"

section \<open>The retry loop ends\<close>

lemma deadline_reached_le: "deadline_reached now deadline \<longleftrightarrow> deadline \<le> now"
  by (auto simp: deadline_reached_def less_eq_timespec_def)

text \<open>Readings of the clock are normalised, and their order is the order of the nanoseconds.\<close>

lemma in_ns_clock [simp]: "in_ns (clock_gettime now) = now"
  by (simp add: in_ns_def clock_gettime_def)

definition deadline_after :: "timespec \<Rightarrow> int \<Rightarrow> timespec" where
  "deadline_after start t = Timespec (tv_sec start + t) (tv_nsec start)"

lemma deadline_passed:
  "deadline_reached (clock_gettime now) (deadline_after (clock_gettime start) t) \<longleftrightarrow> start + 10 ^ 9 * t \<le> now"
proof -
  define a where "a = now div 10 ^ 9"
  define b where "b = now mod 10 ^ 9"
  define c where "c = start div 10 ^ 9"
  define d where "d = start mod 10 ^ 9"
  have n: "now = 10 ^ 9 * a + b" "0 \<le> b" "b < 10 ^ 9" "start = 10 ^ 9 * c + d" "0 \<le> d" "d < 10 ^ 9"
    unfolding a_def b_def c_def d_def by simp_all
  have r: "clock_gettime now = Timespec a b" "clock_gettime start = Timespec c d"
    by (simp_all add: clock_gettime_def a_def b_def c_def d_def)
  show ?thesis
    unfolding deadline_reached_le less_eq_timespec_def deadline_after_def r using n by auto
qed

text \<open>The clock at the \<open>k\<close>-th attempt, and when it is read after it.\<close>

primrec attempt_time :: "(nat \<Rightarrow> nat) \<Rightarrow> (nat \<Rightarrow> sleep_outcome) \<Rightarrow> int \<Rightarrow> nat \<Rightarrow> int" where
  "attempt_time takes sleeps start 0 = start"
| "attempt_time takes sleeps start (Suc k) =
     snd (nanosleep retry_interval (sleeps k) (attempt_time takes sleeps start k + int (takes k)))"

definition reading :: "(nat \<Rightarrow> nat) \<Rightarrow> (nat \<Rightarrow> sleep_outcome) \<Rightarrow> int \<Rightarrow> nat \<Rightarrow> int" where
  "reading takes sleeps start k = attempt_time takes sleeps start k + int (takes k)"

definition gives_up ::
  "(nat \<Rightarrow> errno option) \<Rightarrow> (nat \<Rightarrow> nat) \<Rightarrow> (nat \<Rightarrow> sleep_outcome) \<Rightarrow> timespec \<Rightarrow> int \<Rightarrow> nat \<Rightarrow> bool"
where
  "gives_up conn takes sleeps deadline start k =
     (case conn k of None \<Rightarrow> True
      | Some e \<Rightarrow> \<not> transient e \<or> deadline_reached (clock_gettime (reading takes sleeps start k)) deadline)"

lemma connect_loop_until:
  assumes "\<forall>i<m. \<not> gives_up conn takes sleeps deadline start (k + i)"
    and "gives_up conn takes sleeps deadline start (k + m)"
  shows "connect_loop conn takes sleeps deadline (attempt_time takes sleeps start k) k p =
    Some (Suc (k + m), p \<or> 0 < m, conn (k + m))"
  using assms
proof (induction m arbitrary: k p)
  case 0
  then show ?case
    by (subst connect_loop.simps) (auto simp: gives_up_def reading_def Let_def split: option.splits)
next
  case (Suc m)
  have "\<not> gives_up conn takes sleeps deadline start k" using Suc.prems(1) by fastforce
  moreover have "connect_loop conn takes sleeps deadline (attempt_time takes sleeps start (Suc k)) (Suc k) True =
      Some (Suc (Suc k + m), True, conn (Suc k + m))"
    using Suc.prems by (subst Suc.IH) auto
  ultimately show ?case
    by (subst connect_loop.simps) (auto simp: gives_up_def reading_def Let_def split: option.splits)
qed

definition interrupted :: "(nat \<Rightarrow> sleep_outcome) \<Rightarrow> nat \<Rightarrow> bool" where
  "interrupted sleeps k = (case sleeps k of Slept n \<Rightarrow> False | Interrupted n \<Rightarrow> True)"

text \<open>Every sleep that is not interrupted moves the clock on by the interval.\<close>

lemma attempt_time_bound:
  "start + kRetryIntervalNs * (int k - int (card {i. i < k \<and> interrupted sleeps i})) \<le> attempt_time takes sleeps start k"
proof (induction k)
  case (Suc k)
  let ?I = "\<lambda>k. {i. i < k \<and> interrupted sleeps i}"
  have "?I (Suc k) = (if interrupted sleeps k then insert k (?I k) else ?I k)" by (auto simp: less_Suc_eq)
  then have "card (?I (Suc k)) = card (?I k) + (if interrupted sleeps k then 1 else 0)" by simp
  then show ?case using Suc
    by (cases "sleeps k") (simp_all add: interrupted_def nanosleep_def retry_interval_def in_ns_def kRetryIntervalNs_def algebra_simps)
qed simp

lemma reading_bound:
  "start + kRetryIntervalNs * (int k - int (card {i. i < k \<and> interrupted sleeps i})) \<le> reading takes sleeps start k"
  using attempt_time_bound [of start k sleeps takes] by (simp add: reading_def)

lemma before_deadline_bound:
  assumes "\<not> deadline_reached (clock_gettime (reading takes sleeps start k)) (deadline_after (clock_gettime start) t)"
  shows "int k < 10 * t + int (card {i. i < k \<and> interrupted sleeps i})"
proof -
  define c where "c = card {i. i < k \<and> interrupted sleeps i}"
  have "reading takes sleeps start k < start + 10 ^ 9 * t" using assms by (simp add: deadline_passed)
  then have "kRetryIntervalNs * (int k - int c) < 10 ^ 9 * t"
    using reading_bound [of start k sleeps takes] by (simp add: c_def)
  then show ?thesis by (simp add: kRetryIntervalNs_def flip: c_def)
qed

lemma connect_loop_ends:
  assumes "finite {k. interrupted sleeps k}"
  obtains m where "gives_up conn takes sleeps (deadline_after (clock_gettime start) t) start m"
    and "\<forall>i<m. \<not> gives_up conn takes sleeps (deadline_after (clock_gettime start) t) start i"
    and "connect_loop conn takes sleeps (deadline_after (clock_gettime start) t) start 0 False = Some (Suc m, 0 < m, conn m)"
    and "m \<le> nat (10 * t) + card {i. i < m \<and> interrupted sleeps i}"
proof -
  let ?P = "gives_up conn takes sleeps (deadline_after (clock_gettime start) t) start"
  define big where "big = nat (10 * t) + card {k. interrupted sleeps k}"
  have "?P big"
  proof (rule ccontr)
    assume "\<not> ?P big"
    then have "int big < 10 * t + int (card {i. i < big \<and> interrupted sleeps i})"
      by (intro before_deadline_bound) (auto simp: gives_up_def split: option.splits)
    moreover have "card {i. i < big \<and> interrupted sleeps i} \<le> card {k. interrupted sleeps k}"
      using assms by (intro card_mono) auto
    moreover have "10 * t \<le> int (nat (10 * t))" "int big = int (nat (10 * t)) + int (card {k. interrupted sleeps k})"
      by (simp_all add: big_def)
    ultimately show False by linarith
  qed
  define m where "m = (LEAST k. ?P k)"
  have "?P m" unfolding m_def using \<open>?P big\<close> by (rule LeastI)
  moreover have least: "\<forall>i<m. \<not> ?P i" unfolding m_def using not_less_Least by blast
  moreover have "m \<le> nat (10 * t) + card {i. i < m \<and> interrupted sleeps i}"
  proof (cases m)
    case (Suc j)
    then have "int j < 10 * t + int (card {i. i < j \<and> interrupted sleeps i})"
      using least by (intro before_deadline_bound) (auto simp: gives_up_def split: option.splits)
    moreover have "card {i. i < j \<and> interrupted sleeps i} \<le> card {i. i < m \<and> interrupted sleeps i}"
      using Suc by (intro card_mono) auto
    ultimately show ?thesis using Suc by simp
  qed simp
  ultimately show ?thesis using that connect_loop_until [of m conn takes sleeps _ start 0 False] by simp
qed

text \<open>
  C12. When only finitely many of the sleeps are interrupted, the connection loop ends. It makes at most ten
  attempts per second of the timeout, one more, and one for each sleep that a signal has
  cut short; with a timeout of 0 or less and no signal, a single one. Before the last attempt it met only
  transient errors, each before the timeout had passed, and if the last one is transient as
  well, it has. The times of connecting and sleeping are arbitrary.
\<close>

theorem connect_loop_terminates:
  assumes "finite {k. interrupted sleeps k}"
  shows "\<exists>n waited outcome.
    connect_loop conn takes sleeps (deadline_after (clock_gettime start) t) start 0 False = Some (n, waited, outcome) \<and>
    0 < n \<and> n \<le> nat (10 * t) + 1 + card {i. i < n - 1 \<and> interrupted sleeps i} \<and>
    waited = (1 < n) \<and> outcome = conn (n - 1) \<and>
    (\<forall>k < n - 1. (\<exists>e. conn k = Some e \<and> transient e) \<and> reading takes sleeps start k < start + 10 ^ 9 * t) \<and>
    (\<forall>e. outcome = Some e \<and> transient e \<longrightarrow> start + 10 ^ 9 * t \<le> reading takes sleeps start (n - 1))"
proof -
  obtain m where m: "gives_up conn takes sleeps (deadline_after (clock_gettime start) t) start m"
    "\<forall>i<m. \<not> gives_up conn takes sleeps (deadline_after (clock_gettime start) t) start i"
    "connect_loop conn takes sleeps (deadline_after (clock_gettime start) t) start 0 False = Some (Suc m, 0 < m, conn m)"
    "m \<le> nat (10 * t) + card {i. i < m \<and> interrupted sleeps i}"
    using connect_loop_ends [OF assms] by blast
  moreover have "\<forall>k<m. (\<exists>e. conn k = Some e \<and> transient e) \<and> reading takes sleeps start k < start + 10 ^ 9 * t"
    using m(2) by (fastforce simp: gives_up_def deadline_passed split: option.splits)
  moreover have "\<forall>e. conn m = Some e \<and> transient e \<longrightarrow> start + 10 ^ 9 * t \<le> reading takes sleeps start m"
    using m(1) by (auto simp: gives_up_def deadline_passed)
  ultimately show ?thesis
    by (intro exI [of _ "Suc m"] exI [of _ "0 < m"] exI [of _ "conn m"]) simp
qed

theorem connect_loop_terminates_witness:
  "\<exists>n waited. connect_loop (\<lambda>k. Some 2) (\<lambda>k. 1000) (\<lambda>k. if k = 1 then Interrupted 5 else Slept 10)
     (deadline_after (clock_gettime 5000000000) 3) 5000000000 0 False = Some (n, waited, Some 2) \<and> 1 < n \<and> n \<le> 32"
proof -
  let ?conn = "\<lambda>k. Some 2 :: errno option" and ?s = "\<lambda>k :: nat. if k = 1 then Interrupted 5 else Slept 10"
  have i: "interrupted ?s k \<longleftrightarrow> k = Suc 0" for k by (simp add: interrupted_def)
  then have "finite {k. interrupted ?s k}" by simp
  from connect_loop_terminates [OF this, of ?conn "\<lambda>k. 1000" 5000000000 3] obtain n waited outcome where
    r: "connect_loop ?conn (\<lambda>k. 1000) ?s (deadline_after (clock_gettime 5000000000) 3) 5000000000 0 False =
        Some (n, waited, outcome)"
    "0 < n" "n \<le> nat (10 * 3) + 1 + card {i. i < n - 1 \<and> interrupted ?s i}" "outcome = Some 2"
    "\<forall>e. outcome = Some e \<and> transient e \<longrightarrow> 5000000000 + 10 ^ 9 * 3 \<le> reading (\<lambda>k. 1000) ?s 5000000000 (n - 1)"
    by auto
  have "{i. i < n - 1 \<and> interrupted ?s i} \<subseteq> {Suc 0}" using i by blast
  then have "card {i. i < n - 1 \<and> interrupted ?s i} \<le> card {Suc 0}" by (rule card_mono [rotated]) simp
  then have "n \<le> 32" using r(3) by simp
  moreover have "1 < n" using r(2,4,5) by (cases "n = 1") (auto simp: transient_def ENOENT_def reading_def)
  ultimately show ?thesis using r by auto
qed

section \<open>Registration\<close>

text \<open>
  The interface between the daemon and the library: what is sent for a descriptor and a
  process is received as such, with the descriptor number that the kernel has put in.
\<close>

definition delivered :: "(int \<Rightarrow> int) \<Rightarrow> msghdr \<Rightarrow> msghdr" where
  "delivered dup_fd m =
     m\<lparr>msg_control := map_option (\<lambda>c. c\<lparr>cmsg_data := int_bytes (dup_fd (bytes_int (cmsg_data c)))\<rparr>) (msg_control m)\<rparr>"

locale handshake =
  fixes share :: "int \<Rightarrow> int \<Rightarrow> msghdr"
    and receive :: "errno + nat \<times> msghdr \<Rightarrow> (int \<times> int) option"
  assumes receive_share:
    "int_range fd \<Longrightarrow> int_range hpid \<Longrightarrow> int_range (dup_fd fd) \<Longrightarrow>
     receive (Inr (length (msg_iov (share fd hpid)), delivered dup_fd (share fd hpid))) = Some (dup_fd fd, hpid)"
    and receive_error: "receive (Inl e) = None"
begin

text \<open>Two daemons that share different descriptors or names of themselves are told apart.\<close>

lemma share_inject:
  assumes "int_range a" "int_range b" "int_range p" "int_range q" and "share a p = share b q"
  shows "a = b \<and> p = q"
proof -
  have *: "receive (Inr (length (msg_iov (share x y)), delivered (\<lambda>i. i) (share x y))) = Some (x, y)"
    if "int_range x" "int_range y" for x y using that by (intro receive_share)
  have "Some (a, p) = Some (b, q)"
    using * [OF assms(1,3)] * [OF assms(2,4)] unfolding assms(5) by (rule trans [OF sym])
  then show ?thesis by simp
qed

end

interpretation registration: handshake share_message ReceiveSharedSocket
  by unfold_locales
    (simp_all add: ReceiveSharedSocket_def share_message_def delivered_def bytes_int_bytes)

section \<open>What initialisation leaves behind\<close>

lemma close_put_open [simp]:
  "open_sockets (put_stderr m s) = open_sockets s" "simple_annotations (put_stderr m s) = simple_annotations s"
  "dictionaries (put_stderr m s) = dictionaries s" "terminate_hook (put_stderr m s) = terminate_hook s"
  "open_sockets (close_socket fd s) = remove1 fd (open_sockets s)"
  "simple_annotations (close_socket fd s) = simple_annotations s"
  "dictionaries (close_socket fd s) = dictionaries s" "terminate_hook (close_socket fd s) = terminate_hook s"
  by (simp_all add: put_stderr_def close_socket_def)

definition registered :: "client_kernel \<Rightarrow> bool" where
  "registered ker =
     (case ReceiveSharedSocket (recvmsg_result ker) of
        None \<Rightarrow> False | Some (fd, hpid) \<Rightarrow> 0 \<le> fd \<and> set_handler_socket ker fd hpid)"

lemma finish_init_result:
  assumes "finish_init ker sock s = (r, s')"
  shows "r = (if registered ker then 0 else -1)" and "open_sockets s' = remove1 sock (open_sockets s)"
    and "dictionaries s' = dictionaries s"
    and "simple_annotations s' = (if r = 0 then Some Library_Annotations else simple_annotations s)"
    and "terminate_hook s' = (r = 0 \<or> terminate_hook s)"
  using assms by (auto simp: finish_init_def registered_def Let_def split: option.splits prod.splits if_splits)

lemma finish_init_pair: "\<exists>s'. finish_init ker sock s = (if registered ker then 0 else -1, s')"
  using finish_init_result(1) by (metis surj_pair)

lemma DoInit_connected:
  assumes "0 \<le> socket_result ker"
    and "connect_loop (connect_at ker (sun_path (resolved_socket_path cfg))) (connect_takes ker) (sleep_at ker)
      (deadline_after (clock_gettime (clock_start ker)) (connect_timeout_sec cfg)) (clock_start ker) 0 False = Some (n, waited, None)"
  shows "\<exists>s'. DoInit ker cfg s = Some (if registered ker then 0 else -1, s')"
proof -
  have "\<exists>s2. DoInit ker cfg s = Some (finish_init ker (socket_result ker) s2)"
    using assms by (auto simp: DoInit_def Let_def deadline_after_def)
  then show ?thesis using finish_init_pair [of ker] by metis
qed

lemma DoInit_result:
  assumes "DoInit ker cfg s = Some (r, s')"
  shows "(r = 0 \<or> r = -1) \<and> open_sockets s' = open_sockets s \<and> dictionaries s' = dictionaries s \<and>
    simple_annotations s' = (if r = 0 then Some Library_Annotations else simple_annotations s) \<and>
    terminate_hook s' = (r = 0 \<or> terminate_hook s) \<and> (r = 0 \<longrightarrow> registered ker)"
  using assms finish_init_result [of ker "socket_result ker" _ r s']
  by (fastforce simp: DoInit_def Let_def split: if_splits option.splits prod.splits)

text \<open>
  C19. \<^verbatim>\<open>DoInit\<close> returns 0 or -1 and closes its registration socket on every path. It attaches
  the library's annotations and the terminate hook exactly when it returns 0, which it does
  only after a complete exchange with the daemon; after -1 tags go where they went before.
\<close>

theorem DoInit_all_or_nothing:
  assumes "DoInit ker cfg s = Some (r, s')"
  shows "(r = 0 \<or> r = -1) \<and> open_sockets s' = open_sockets s \<and>
    (r = 0 \<longrightarrow> registered ker \<and> simple_annotations s' = Some Library_Annotations \<and> terminate_hook s') \<and>
    (r = -1 \<longrightarrow> (terminate_hook s' = terminate_hook s) \<and> simple_annotations s' = simple_annotations s \<and>
       dictionaries (crashomon_set_tag set_key_value key val s') = dictionaries (crashomon_set_tag set_key_value key val s))"
  using DoInit_result [OF assms] by (auto simp: crashomon_set_tag_def split: option.split)

definition client_example :: "(string \<times> string) list client" where
  "client_example = \<lparr>log_filter_installed = False, simple_annotations = None, dictionaries = (\<lambda>_. []),
     terminate_hook = False, open_sockets = [3], stderr = []\<rparr>"

definition kernel_example :: client_kernel where
  "kernel_example = \<lparr>socket_result = 7, connect_at = (\<lambda>p k. if k = 0 then Some 2 else None),
     clock_start = 5000000000, connect_takes = (\<lambda>k. 1000), sleep_at = (\<lambda>k. Slept 0),
     recvmsg_result = Inr (4, delivered (\<lambda>_. 9) (share_message 5 77)),
     set_handler_socket = (\<lambda>fd hpid. fd = 9 \<and> hpid = 77), strerror = (\<lambda>_. ''e''),
     resolved_assert_fail = 1, own_assert_fail = 1\<rparr>"

definition config_example :: ResolvedConfig where
  "config_example = \<lparr>resolved_db_path = ''/db'', resolved_socket_path = ''/run/h.sock'', connect_timeout_sec = 3\<rparr>"

lemma example_clock:
  "clock_start kernel_example = 5000000000" "socket_result kernel_example = 7"
  "connect_timeout_sec config_example = 3"
  by (simp_all add: kernel_example_def config_example_def)

lemma example_connects:
  "connect_loop (connect_at kernel_example p) (connect_takes kernel_example) (sleep_at kernel_example)
     (deadline_after (clock_gettime 5000000000) 3) 5000000000 0 False = Some (2, True, None)"
proof -
  let ?g = "gives_up (connect_at kernel_example p) (connect_takes kernel_example) (sleep_at kernel_example)
    (deadline_after (clock_gettime 5000000000) 3) 5000000000"
  have "\<not> ?g 0" "?g 1"
    by (simp_all add: gives_up_def deadline_passed reading_def kernel_example_def transient_def ENOENT_def)
  then show ?thesis
    using connect_loop_until [of 1 "connect_at kernel_example p" "connect_takes kernel_example" "sleep_at kernel_example"
        "deadline_after (clock_gettime 5000000000) 3" 5000000000 0 False]
    by (simp add: kernel_example_def)
qed

lemma example_initialised: "\<exists>s'. DoInit kernel_example config_example client_example = Some (0, s')"
proof -
  have "registered kernel_example"
    using registration.receive_share [of 5 77 "\<lambda>_. 9"]
    by (simp add: registered_def kernel_example_def int_range_def share_message_def delivered_def)
  moreover have "\<exists>s'. DoInit kernel_example config_example client_example =
      Some (if registered kernel_example then 0 else -1, s')"
    by (rule DoInit_connected [of _ _ 2 True])
      (simp_all add: example_connects example_clock)
  ultimately show ?thesis by auto
qed

theorem DoInit_all_or_nothing_witness:
  "\<exists>s'. DoInit kernel_example config_example client_example = Some (0, s') \<and> open_sockets s' = [3] \<and>
     simple_annotations s' = Some Library_Annotations"
proof -
  obtain s' where r: "DoInit kernel_example config_example client_example = Some (0, s')"
    using example_initialised by blast
  show ?thesis using DoInit_all_or_nothing [OF r] r by (auto simp: client_example_def)
qed

text \<open>
  The registration exchange: a client whose connection the daemon accepts gets the
  daemon's process id and its own copy of the shared descriptor, and \<^verbatim>\<open>DoInit\<close> returns 0 if
  and only if Crashpad accepts exactly these two.
\<close>

lemma registration_exchange:
  assumes "Sendmsg conn m \<in> set (AcceptAndShareSocket (Inr conn) send_result shared_fd hpid)"
    and "recvmsg_result ker = Inr (length (msg_iov m), delivered dup_fd m)"
    and "int_range shared_fd" and "int_range hpid" and "int_range (dup_fd shared_fd)" and "0 \<le> dup_fd shared_fd"
    and "0 \<le> socket_result ker"
    and "connect_loop (connect_at ker (sun_path (resolved_socket_path cfg))) (connect_takes ker) (sleep_at ker)
      (deadline_after (clock_gettime (clock_start ker)) (connect_timeout_sec cfg)) (clock_start ker) 0 False = Some (n, waited, None)"
  shows "\<exists>s'. DoInit ker cfg s = Some (if set_handler_socket ker (dup_fd shared_fd) hpid then 0 else -1, s')"
proof -
  have m: "m = share_message shared_fd hpid"
    using assms(1) by (auto simp: AcceptAndShareSocket_def split: option.splits if_splits)
  have "registered ker \<longleftrightarrow> set_handler_socket ker (dup_fd shared_fd) hpid"
    using registration.receive_share [where fd = shared_fd and hpid = hpid and dup_fd = dup_fd] assms(2-6)
    by (simp add: registered_def m)
  then show ?thesis using DoInit_connected [OF assms(7,8), of s] by simp
qed

theorem registration_exchange_witness:
  "\<exists>s'. DoInit kernel_example config_example client_example = Some (0, s')"
proof -
  have "Sendmsg 4 (share_message 5 77) \<in> set (AcceptAndShareSocket (Inr 4) (\<lambda>_. None) 5 77)"
    by (simp add: AcceptAndShareSocket_def)
  from registration_exchange [OF this, of kernel_example "\<lambda>_. 9" config_example 2 True client_example]
  show ?thesis
    using example_connects [of "sun_path (resolved_socket_path config_example)"]
    by (simp add: kernel_example_def config_example_def int_range_def share_message_def deadline_after_def)
qed

text \<open>
  C38. \<^verbatim>\<open>Resolve\<close> takes the timeout from the environment when it is a plain decimal number:
  below \<open>2^31\<close> as it is, above reduced to a signed 32-bit number, so that \<open>2^32\<close> stands for a
  single attempt. A negative number counts as no setting.
\<close>

theorem Resolve_timeout:
  assumes "n < 2 ^ 63"
  shows "connect_timeout_sec (Resolve (env(''CRASHOMON_CONNECT_TIMEOUT_SEC'' \<mapsto> show_dec n))) =
      (int n + 2 ^ 31) mod 2 ^ 32 - 2 ^ 31 \<and>
    (n < 2 ^ 31 \<longrightarrow> connect_timeout_sec (Resolve (env(''CRASHOMON_CONNECT_TIMEOUT_SEC'' \<mapsto> show_dec n))) = int n) \<and>
    (0 < n \<longrightarrow> connect_timeout_sec (Resolve (env(''CRASHOMON_CONNECT_TIMEOUT_SEC'' \<mapsto> CHR ''-'' # show_dec n))) =
      kDefaultConnectTimeoutSec)"
proof -
  have pos: "resolve_timeout (Some (show_dec n)) = (int n + 2 ^ 31) mod 2 ^ 32 - 2 ^ 31"
    using strtol_show_dec [of n "[]"] assms
    by (simp add: resolve_timeout_def long_to_int_def signed_take_bit_eq_take_bit_shift take_bit_eq_mod)
  have "n < 2 ^ 31 \<longrightarrow> (int n + 2 ^ 31) mod 2 ^ 32 = int n + 2 ^ 31" by (auto intro!: mod_pos_pos_trivial)
  moreover have "strtol (CHR ''-'' # show_dec n) = Some (- int n, [])"
  proof -
    have "takeWhile isdigit (show_dec n) = show_dec n" "dropWhile isdigit (show_dec n) = []"
      using split_digits(2,3) [of "show_dec n" "[]"] show_dec_isdigit by auto
    moreover have "\<not> isspace CHR ''-''" by (simp add: isspace_def)
    ultimately show ?thesis using assms
      by (simp only: strtol_def dropWhile.simps if_False split_sign.simps refl if_True prod.case Let_def
          show_dec_nonempty number_of_show_dec) simp
  qed
  then have "0 < n \<longrightarrow> resolve_timeout (Some (CHR ''-'' # show_dec n)) = kDefaultConnectTimeoutSec"
    by (simp add: resolve_timeout_def)
  ultimately show ?thesis using pos by (simp add: Resolve_def GetEnv_def)
qed

theorem Resolve_timeout_witness:
  "connect_timeout_sec (Resolve ((\<lambda>_. None)(''CRASHOMON_CONNECT_TIMEOUT_SEC'' \<mapsto> show_dec 4294967296))) = 0"
  using Resolve_timeout [of 4294967296 "\<lambda>_. None"] by simp

end
