(* ===== verification/Client_Sessions.thy ===== *)
theory Client_Sessions
  imports Daemon Client
begin

text \<open>
  The registration of clients over the life of the daemon: what \<^verbatim>\<open>RunWatcher\<close> sends in any
  interleaving is what the client library of every process expects.
\<close>

section \<open>What the daemon sends\<close>

text \<open>
  Every message carries the shared descriptor and the process id of this daemon, and every
  connection is closed as often as it was sent to.
\<close>

definition sends_to :: "nat \<Rightarrow> socket_call list \<Rightarrow> nat" where
  "sends_to conn calls = length (filter (\<lambda>c. \<exists>m. c = Sendmsg conn m) calls)"

definition faithful_calls :: "int \<Rightarrow> int \<Rightarrow> socket_call list \<Rightarrow> bool" where
  "faithful_calls fd hpid calls =
     ((\<forall>conn m. Sendmsg conn m \<in> set calls \<longrightarrow> m = share_message fd hpid) \<and>
      (\<forall>conn. count_list calls (CloseFd conn) = sends_to conn calls))"

lemma faithful_Nil [simp]: "faithful_calls fd hpid []"
  by (simp add: faithful_calls_def sends_to_def)

lemma faithful_append: "faithful_calls fd hpid a \<Longrightarrow> faithful_calls fd hpid b \<Longrightarrow> faithful_calls fd hpid (a @ b)"
  by (auto simp: faithful_calls_def sends_to_def)

lemma faithful_Perror [simp]: "faithful_calls fd hpid [Perror call e]"
  by (simp add: faithful_calls_def sends_to_def)

lemma faithful_accept: "faithful_calls fd hpid (AcceptAndShareSocket acc send fd hpid)"
  by (auto simp: AcceptAndShareSocket_def faithful_calls_def sends_to_def split: sum.split option.split)

lemma loop_body_faithful:
  assumes "loop_body fs hpid dir st t = Some res" and "res = Continue st' calls \<or> res = Break st' calls"
  shows "faithful_calls (client_fd fs) hpid calls"
  using assms faithful_accept [of "client_fd fs" hpid] faithful_append
  by (auto simp: loop_body_def Let_def split: sum.splits prod.splits if_splits)

lemma step_faithful:
  assumes "daemon_step cfg s t" and "faithful_calls (client_fd (fds s)) (handler_pid s) (sent s)"
  shows "faithful_calls (client_fd (fds t)) (handler_pid t) (sent t)"
  using assms
proof (induction rule: daemon_step.induct)
  case (poll_step s t rest st' calls)
  then show ?case using faithful_append loop_body_faithful by fastforce
next
  case (break_step s t rest st' calls)
  then show ?case using faithful_append loop_body_faithful by fastforce
qed (simp_all add: HandleSignal_def)

lemma reachable_faithful: "reachable cfg s \<Longrightarrow> faithful_calls (client_fd (fds s)) (handler_pid s) (sent s)"
proof (induction rule: reachable.induct)
  case (start initialize ker w n s)
  then show ?case
    by (auto simp: RunWatcher_setup_def Let_def split: prod.splits bool.splits option.splits)
qed (rule step_faithful)

section \<open>Daemon and client\<close>

text \<open>
  C13. In every reachable state of the daemon, a process that receives what the daemon has sent
  on its connection gets its own copy of the one shared descriptor and the process id of the
  handler, so \<^verbatim>\<open>DoInit\<close> returns 0 if and only if Crashpad accepts these two; and the daemon has
  closed its end of each connection as often as it has sent on it.
\<close>

theorem clients_share_one_handler:
  assumes "reachable dcfg d" and "Sendmsg conn m \<in> set (sent d)"
    and "int_range (client_fd (fds d))" and "int_range (handler_pid d)"
    and "recvmsg_result ker = Inr (length (msg_iov m), delivered dup_fd m)"
    and "int_range (dup_fd (client_fd (fds d)))" and "0 \<le> dup_fd (client_fd (fds d))"
    and "0 \<le> socket_result ker"
    and "connect_loop (connect_at ker (sun_path (resolved_socket_path cfg))) (connect_takes ker) (sleep_at ker)
      (deadline_after (clock_gettime (clock_start ker)) (connect_timeout_sec cfg)) (clock_start ker) 0 False = Some (n, waited, None)"
  shows "(\<exists>s'. DoInit ker cfg s =
      Some (if set_handler_socket ker (dup_fd (client_fd (fds d))) (handler_pid d) then 0 else -1, s')) \<and>
    count_list (sent d) (CloseFd conn) = length (filter (\<lambda>c. \<exists>m'. c = Sendmsg conn m') (sent d))"
proof -
  have f: "faithful_calls (client_fd (fds d)) (handler_pid d) (sent d)"
    using reachable_faithful [OF assms(1)] .
  then have "m = share_message (client_fd (fds d)) (handler_pid d)"
    using assms(2) by (simp add: faithful_calls_def)
  then have "Sendmsg conn m \<in> set (AcceptAndShareSocket (Inr conn) (\<lambda>_. None) (client_fd (fds d)) (handler_pid d))"
    by (simp add: AcceptAndShareSocket_def)
  from registration_exchange [OF this assms(5,3,4,6,7,8,9), of s] show ?thesis
    using f by (simp only: faithful_calls_def sends_to_def)
qed

theorem clients_share_one_handler_witness:
  "\<exists>d s'. reachable example_config d \<and> count_list (sent d) (CloseFd 9) = 1 \<and>
     DoInit kernel_example config_example client_example = Some (0, s')"
proof -
  obtain s where setup': "RunWatcher_setup (\<lambda>p w. Some w) example_kernel example_config disk_world example_net = Some s"
    and s: "at s = Polling" "\<not> stop_flag s" "unread s = []"
    using example_starts by metis
  then have ids: "client_fd (fds s) = 5" "handler_pid s = 77" "sent s = []"
    by (auto simp: RunWatcher_setup_def example_kernel_def InitWatcherFds_def Let_def
        split: prod.splits bool.splits option.splits)
  let ?tick = "\<lparr>g_stop = False, tick_now = 0, poll_result = Inr (False, True), accept_result = Inr 9,
    send_result = (\<lambda>_. None), read_result = Inl 0\<rparr>"
  let ?d = "s\<lparr>worker := worker s, unread := [], sent := sent s @ AcceptAndShareSocket (Inr 9) (\<lambda>_. None) 5 77,
    clients := clients s + new_clients ?tick\<rparr>"
  have "daemon_step example_config s ?d"
    using s ids by (intro daemon_step.poll_step) (simp_all add: kernel_read_def does_read_def loop_body_def)
  with reachable.start [OF setup'] have r: "reachable example_config ?d" by (rule reachable.step)
  have "Sendmsg 9 (share_message 5 77) \<in> set (sent ?d)" by (simp add: AcceptAndShareSocket_def)
  from clients_share_one_handler [OF r this, of kernel_example "\<lambda>_. 9" config_example 2 True client_example]
  have "\<exists>s'. DoInit kernel_example config_example client_example = Some (0, s')"
    and "count_list (sent ?d) (CloseFd 9) = 1"
    using example_connects [of "sun_path (resolved_socket_path config_example)"] ids
    by (simp_all add: kernel_example_def config_example_def int_range_def share_message_def deadline_after_def
        AcceptAndShareSocket_def)
  then show ?thesis using r by blast
qed

end
