(* ===== verification/Shutdown.thy ===== *)
theory Shutdown
  imports Daemon
begin

text \<open>
  The shutdown as something that must happen: once a signal has been seen, no step of the
  program leads away from the end of \<^verbatim>\<open>RunWatcher\<close>, and it is never stuck before it, so every
  fair run in which the clients end gets there.
\<close>

section \<open>Work left\<close>

text \<open>
  What the program itself has: where the main thread is, whether the other threads run, and
  the worker with its queue. The rest of the state belongs to the kernel and other processes.
\<close>

definition program :: "daemon \<Rightarrow> phase \<times> bool \<times> WorkerState \<times> string option \<times> bool" where
  "program s = (at s, handler_running s, worker s, busy s, worker_returned s)"

fun phases_left :: "phase \<Rightarrow> nat" where
  "phases_left Polling = 3"
| "phases_left Joining_Handler = 2"
| "phases_left Joining_Worker = 1"
| "phases_left Exited = 0"

definition work_left :: "daemon \<Rightarrow> nat" where
  "work_left s = phases_left (at s) + of_bool (handler_running s) + 2 * length (pending (worker s)) +
     of_bool (busy s \<noteq> None) + of_bool (\<not> worker_returned s)"

lemma same_work: "program t = program s \<Longrightarrow> work_left t = work_left s"
  by (simp add: program_def work_left_def)

lemma stop_flag_stays: "daemon_step cfg s t \<Longrightarrow> stop_flag s \<Longrightarrow> stop_flag t"
  by (induction rule: daemon_step.induct) (auto simp: HandleSignal_def)

text \<open>After the signal a step leaves the program alone or brings it nearer to its end.\<close>

lemma step_progress:
  assumes "daemon_step cfg s t" and "stop_flag s"
  shows "program t = program s \<or> work_left t < work_left s"
  using assms
proof (induction rule: daemon_step.induct)
  case (take_step s p st')
  then show ?case using worker_wait_Take [OF take_step(3)] by (simp add: work_left_def)
next
  case (process_step s p st' w')
  then have "pending st' = pending (worker s)"
    using process_keeps_queue(1) by (simp add: process_def)
  then show ?case using process_step by (simp add: work_left_def)
qed (auto simp: program_def work_left_def HandleSignal_def)

lemma work_left_step: "daemon_step cfg s t \<Longrightarrow> stop_flag s \<Longrightarrow> work_left t \<le> work_left s"
  using step_progress [of cfg s t] same_work [of t s] by linarith

text \<open>The dump in work does not make the patcher leave its buffer.\<close>

definition work_safe :: "watcher_config \<Rightarrow> daemon \<Rightarrow> bool" where
  "work_safe cfg s =
     (case busy s of None \<Rightarrow> True | Some p \<Rightarrow> process cfg p (worker s) (os s) \<noteq> None)"

lemma work_safe_unpatched: "\<not> patch_build_ids cfg \<Longrightarrow> work_safe cfg s"
  using process_total [of cfg] by (fastforce simp: work_safe_def split: option.split)

text \<open>Before its end the program can always do something, when no client holds the socket.\<close>

lemma never_stuck:
  assumes "reachable cfg s" and "stop_flag s" and "at s \<noteq> Exited" and "clients s = 0" and "work_safe cfg s"
  shows "\<exists>t. daemon_step cfg s t \<and> program t \<noteq> program s"
proof (cases "at s")
  case Polling
  then show ?thesis using assms(2) daemon_step.stop_step [of s cfg]
    by (intro exI [of _ "s\<lparr>at := Joining_Handler\<rparr>"]) (simp add: program_def)
next
  case Joining_Handler
  show ?thesis
  proof (cases "handler_running s")
    case True
    then show ?thesis using Joining_Handler assms(4) daemon_step.handler_step [of s cfg]
      by (intro exI [of _ "s\<lparr>handler_running := False\<rparr>"]) (simp add: program_def)
  next
    case False
    then show ?thesis using Joining_Handler daemon_step.joined_step [of s cfg]
      by (intro exI [of _ "s\<lparr>at := Joining_Worker, worker := (worker s)\<lparr>stop := True\<rparr>\<rparr>"]) (simp add: program_def)
  qed
next
  case Joining_Worker
  have stop: "stop (worker s)" using reachable_inv [OF assms(1)] Joining_Worker by (simp add: daemon_inv_def)
  show ?thesis
  proof (cases "worker_returned s")
    case True
    then show ?thesis using Joining_Worker daemon_step.exit_step [of s cfg]
      by (intro exI [of _ "s\<lparr>at := Exited, sockets := close_listener (listen_fd (fds s)) (unlink (socket_path cfg) (sockets s))\<rparr>"])
        (simp add: program_def)
  next
    case running: False
    show ?thesis
    proof (cases "busy s")
      case (Some p)
      obtain st' w' where r: "process cfg p (worker s) (os s) = Some (st', w')"
        using assms(5) Some by (auto simp: work_safe_def)
      then show ?thesis using Some daemon_step.process_step [OF Some r]
        by (intro exI [of _ "s\<lparr>worker := st', os := w', busy := None, processed := processed s @ [p]\<rparr>"])
          (simp add: program_def)
    next
      case None
      show ?thesis
      proof (cases "pending (worker s)")
        case Nil
        then have "worker_wait (worker s) = Return" using stop by (simp add: worker_wait_Return)
        then show ?thesis using running None daemon_step.return_step [of s cfg]
          by (intro exI [of _ "s\<lparr>worker_returned := True\<rparr>"]) (simp add: program_def)
      next
        case (Cons p ps)
        then have "worker_wait (worker s) = Take p ((worker s)\<lparr>pending := ps\<rparr>)" by (simp add: worker_wait_def)
        from daemon_step.take_step [OF running None this] None show ?thesis
          by (intro exI [of _ "s\<lparr>worker := (worker s)\<lparr>pending := ps\<rparr>, busy := Some p\<rparr>"]) (simp add: program_def)
      qed
    qed
  qed
qed (use assms in simp)

section \<open>Runs\<close>

text \<open>
  An infinite run, and weak fairness towards the program as a whole: it is not kept for ever
  from a step that it could take.
\<close>

definition daemon_run :: "watcher_config \<Rightarrow> (nat \<Rightarrow> daemon) \<Rightarrow> bool" where
  "daemon_run cfg f = (reachable cfg (f 0) \<and> (\<forall>n. daemon_step cfg (f n) (f (Suc n))))"

definition can_move :: "watcher_config \<Rightarrow> daemon \<Rightarrow> bool" where
  "can_move cfg s = (\<exists>t. daemon_step cfg s t \<and> program t \<noteq> program s)"

definition fair :: "watcher_config \<Rightarrow> (nat \<Rightarrow> daemon) \<Rightarrow> bool" where
  "fair cfg f = (\<forall>n. \<exists>m\<ge>n. program (f (Suc m)) \<noteq> program (f m) \<or> \<not> can_move cfg (f m))"

lemma fair_after: "fair cfg f \<Longrightarrow> \<exists>m\<ge>n. program (f (Suc m)) \<noteq> program (f m) \<or> \<not> can_move cfg (f m)"
  by (simp only: fair_def)

lemma run_reachable: "daemon_run cfg f \<Longrightarrow> reachable cfg (f n)"
  by (induction n) (auto simp: daemon_run_def intro: reachable.step)

lemma run_stopped:
  assumes "daemon_run cfg f" and "stop_flag (f k)" and "k \<le> n"
  shows "stop_flag (f n)"
  using assms(3)
proof (induction n rule: dec_induct)
  case (step n)
  then show ?case using assms(1) stop_flag_stays by (auto simp: daemon_run_def)
qed (rule assms(2))

lemma work_left_mono:
  assumes "daemon_run cfg f" and "stop_flag (f k)" and "k \<le> m" and "m \<le> n"
  shows "work_left (f n) \<le> work_left (f m)"
  using assms(4)
proof (induction n rule: dec_induct)
  case (step n)
  have "daemon_step cfg (f n) (f (Suc n))" using assms(1) by (simp add: daemon_run_def)
  moreover have "stop_flag (f n)" using run_stopped [OF assms(1,2)] assms(3) step.hyps(1) by simp
  ultimately have "work_left (f (Suc n)) \<le> work_left (f n)" by (rule work_left_step)
  then show ?case using step.IH by (rule order_trans)
qed simp

text \<open>
  C6. In every fair run of the daemon in which a signal arrives and from some time on no client
  holds the shared descriptor, \<^verbatim>\<open>RunWatcher\<close> returns, whatever else arrives meanwhile, and then
  every dump that was queued has been processed. Assumed is that no dump in work makes the
  patcher leave its buffer; with patching off none does.
\<close>

theorem shutdown_happens:
  assumes "daemon_run cfg f" and "fair cfg f" and "\<forall>n. work_safe cfg (f n)"
    and "stop_flag (f k)" and "\<forall>n\<ge>l. clients (f n) = 0"
  shows "\<exists>n. at (f n) = Exited \<and> processed (f n) = accepted (f n)"
proof -
  have "\<exists>n. at (f n) = Exited" if "k \<le> m" "l \<le> m" for m
    using that
  proof (induction "work_left (f m)" arbitrary: m rule: less_induct)
    case less
    obtain i where i: "m \<le> i" "program (f (Suc i)) \<noteq> program (f i) \<or> \<not> can_move cfg (f i)"
      using fair_after [OF assms(2)] by blast
    show ?case
    proof (cases "can_move cfg (f i)")
      case True
      have "stop_flag (f i)" using run_stopped [OF assms(1,4)] less.prems(1) i(1) by simp
      moreover have "daemon_step cfg (f i) (f (Suc i))" using assms(1) by (simp add: daemon_run_def)
      ultimately have "work_left (f (Suc i)) < work_left (f i)" using step_progress i(2) True by blast
      then have "work_left (f (Suc i)) < work_left (f m)"
        using work_left_mono [OF assms(1,4) less.prems(1) i(1)] by simp
      then show ?thesis using less.hyps [of "Suc i"] less.prems i(1) by simp
    next
      case False
      have "stop_flag (f i)" "clients (f i) = 0"
        using run_stopped [OF assms(1,4)] assms(5) less.prems i(1) by auto
      then have "at (f i) = Exited"
        using never_stuck [OF run_reachable [OF assms(1)] _ _ _ assms(3) [rule_format]] False unfolding can_move_def by blast
      then show ?thesis by blast
    qed
  qed
  from this [of "max k l"] obtain n where n: "at (f n) = Exited" by auto
  then have "processed (f n) = accepted (f n)"
    using reachable_inv [OF run_reachable [OF assms(1)], of n] by (simp add: daemon_inv_def accepted_def)
  then show ?thesis using n by blast
qed

section \<open>A fair run\<close>

text \<open>Any finite run to the end is the start of a fair one, in which nothing happens afterwards.\<close>

lemma exited_is_final:
  assumes "reachable cfg s" and "at s = Exited"
  shows "\<not> can_move cfg s"
proof -
  have "\<not> handler_running s" using handler_joined assms by simp
  moreover have "worker_returned s" "busy s = None"
    using reachable_inv [OF assms(1)] assms(2) by (simp_all add: daemon_inv_def)
  ultimately have "program t = program s" if "daemon_step cfg s t" for t
    using that assms(2) by (cases rule: daemon_stepE) (auto simp: program_def HandleSignal_def)
  then show ?thesis by (simp add: can_move_def)
qed

lemma fair_run_to:
  assumes "reachable cfg s" and "(daemon_step cfg)\<^sup>*\<^sup>* s e" and "at e = Exited" and "clients e = 0"
  shows "\<exists>f l. daemon_run cfg f \<and> fair cfg f \<and> f 0 = s \<and> (\<forall>n\<ge>l. clients (f n) = 0)"
proof -
  obtain n g where g: "g 0 = s" "g n = e" "\<forall>i<n. daemon_step cfg (g i) (g (Suc i))"
    using assms(2) by (auto simp: rtranclp_power relpowp_fun_conv)
  define f where "f i = g (min i n)" for i
  have stutter: "daemon_step cfg e e" using daemon_step.world_step [of cfg e "os e"] by simp
  have "daemon_step cfg (f i) (f (Suc i))" for i
    using g(2,3) stutter by (cases "i < n") (simp_all add: f_def min_def)
  then have run: "daemon_run cfg f" using assms(1) g(1) by (simp add: daemon_run_def f_def)
  have last: "f i = e" if "n \<le> i" for i using that g(2) by (simp add: f_def min_def)
  have "\<not> can_move cfg e"
    using exited_is_final [OF reachable_steps [OF assms(2,1)] assms(3)] .
  then have "fair cfg f" unfolding fair_def using last [of "max _ n"] by (metis max.cobounded1 max.cobounded2)
  then show ?thesis using run last assms(4) g(1) by (intro exI [of _ f] exI [of _ n]) (simp add: f_def)
qed

theorem shutdown_happens_witness:
  "\<exists>f. daemon_run example_config f \<and> at (f 0) = Polling \<and> (\<exists>n. at (f n) = Exited \<and> processed (f n) = accepted (f n))"
proof -
  obtain s where s: "reachable example_config s" "at s = Polling" using example_starts reachable.start by metis
  have off: "\<not> patch_build_ids example_config" by (simp add: example_config_def)
  let ?s = "HandleSignal SIGTERM s"
  have "daemon_step example_config s ?s" by (intro daemon_step.signal_step) (simp add: SetupSignalHandlers_def)
  with s(1) have r: "reachable example_config ?s" by (rule reachable.step)
  obtain t where t: "(daemon_step example_config)\<^sup>*\<^sup>* ?s t" "at t = Exited" using exit_reachable [OF r off] by blast
  obtain e where e: "(daemon_step example_config)\<^sup>*\<^sup>* t e" "clients e = 0" "at e = at t"
    using clients_leave [of example_config t] by blast
  obtain f l where f: "daemon_run example_config f" "fair example_config f" "f 0 = ?s" "\<forall>n\<ge>l. clients (f n) = 0"
    using fair_run_to [OF r rtranclp_trans [OF t(1) e(1)]] t(2) e(2,3) by auto
  have stop: "stop_flag (f 0)" by (simp add: f(3) HandleSignal_def)
  have "\<forall>n. work_safe example_config (f n)" using work_safe_unpatched [OF off] by blast
  from shutdown_happens [OF f(1,2) this stop f(4)] show ?thesis
    using f(1,3) s(2) by (intro exI [of _ f]) (simp add: HandleSignal_def)
qed

end
