(* ===== verification/Rate_Limit.thy ===== *)
theory Rate_Limit
  imports Worker
begin

text \<open>
  The rate limiter over a whole run of the worker. A visit is the path of a dump with the
  world in which its processing starts; between two visits the world may change in any way.
\<close>

section \<open>A run of the worker\<close>

fun process_visits ::
  "(world \<Rightarrow> string \<Rightarrow> MinidumpInfo status_or) \<Rightarrow> (MinidumpInfo \<Rightarrow> string) \<Rightarrow> WorkerState \<Rightarrow>
    DiskManagerConfig \<Rightarrow> string \<Rightarrow> bool \<Rightarrow> (string \<times> world) list \<Rightarrow> world list option"
where
  "process_visits rd fmt state cfg dir patch [] = Some []"
| "process_visits rd fmt state cfg dir patch ((p, w) # vs) =
     (case ProcessNewMinidump rd fmt p state cfg dir patch w of
        None \<Rightarrow> None
      | Some (state', w') \<Rightarrow> map_option ((#) w') (process_visits rd fmt state' cfg dir patch vs))"

text \<open>What a visit reads, after the patch of the build ids.\<close>

definition visit_info ::
  "(world \<Rightarrow> string \<Rightarrow> breakpad option) \<Rightarrow> bool \<Rightarrow> string \<times> world \<Rightarrow> MinidumpInfo option"
where
  "visit_info breakpad_read patch v =
     (case patch_step patch (fst v) (snd v) of
        None \<Rightarrow> None
      | Some w1 \<Rightarrow> (case ReadMinidump breakpad_read (fst v) w1 of Inl e \<Rightarrow> None | Inr info \<Rightarrow> Some info))"

abbreviation visit_time :: "string \<times> world \<Rightarrow> int" where
  "visit_time v \<equiv> steady_clock (snd v)"

text \<open>A visit is silent when it prints nothing.\<close>

abbreviation silent :: "string \<times> world \<Rightarrow> world \<Rightarrow> bool" where
  "silent v w' \<equiv> out w' = out (snd v)"

lemma FormatTombstone_nonempty [simp]: "FormatTombstone info \<noteq> []"
  by (simp add: FormatTombstone_def Let_def)

lemma visit_step:
  assumes "ProcessNewMinidump (\<lambda>w p. ReadMinidump br p w) FormatTombstone p state cfg dir patch w = Some (state', w')"
  shows "case visit_info br patch (p, w) of
      None \<Rightarrow> out w' = out w \<and> rate_limit_map state' = rate_limit_map state
    | Some info \<Rightarrow>
        if suppressed state (crash_key info) (steady_clock w)
        then out w' = out w \<and> rate_limit_map state' = rate_limit_map state
        else out w' = out w @ FormatTombstone info \<and>
          rate_limit_map state' = (rate_limit_map state)(crash_key info \<mapsto> steady_clock w)"
proof -
  obtain w1 where w1: "patch_step patch p w = Some w1"
    using assms by (auto simp: ProcessNewMinidump_def split: option.splits)
  obtain s2 w2 where r: "report_step (\<lambda>w p. ReadMinidump br p w) FormatTombstone p state dir w1 = (s2, w2)"
    by fastforce
  have "same_env w w1" "same_env w2 w'" "s2 = state'"
    using assms w1 r patch_step_env [OF w1] prune_step_env [of w2 cfg] by (simp_all add: ProcessNewMinidump_def)
  then show ?thesis
    using r by (auto simp: visit_info_def w1 report_step_def Let_def LogTombstone_def same_env_def
        split: sum.splits if_splits)
qed

lemma readable_no_colon: "visit_info br patch v = Some info \<Longrightarrow> CHR '':'' \<notin> set (signal_info info)"
  by (auto simp: visit_info_def dest!: reader.rd_no_colon split: option.splits sum.splits)

lemma visit_key:
  "visit_info br patch v = Some a \<Longrightarrow> visit_info br patch v' = Some b \<Longrightarrow>
    crash_key a = crash_key b \<longleftrightarrow> signature_of a = signature_of b"
  by (intro crash_key_inject readable_no_colon)

lemma process_visits_Cons:
  assumes "process_visits rd fmt state cfg dir patch (v # vs) = Some ws"
  obtains state' w' ws' where "ProcessNewMinidump rd fmt (fst v) state cfg dir patch (snd v) = Some (state', w')"
    and "process_visits rd fmt state' cfg dir patch vs = Some ws'" and "ws = w' # ws'"
  using assms by (cases v) (auto split: option.splits prod.splits)

text \<open>An entry of the map silences its key for the length of the window.\<close>

lemma printed_after_window:
  assumes "process_visits (\<lambda>w p. ReadMinidump br p w) FormatTombstone state cfg dir patch vs = Some ws"
    and "sorted (map visit_time vs)" and "rate_limit_map state (crash_key info) = Some t"
    and "\<forall>v\<in>set vs. t \<le> visit_time v"
    and "j < length vs" and "visit_info br patch (vs ! j) = Some info'" and "crash_key info' = crash_key info"
    and "\<not> silent (vs ! j) (ws ! j)"
  shows "kRateLimitWindow \<le> visit_time (vs ! j) - t"
  using assms
proof (induction vs arbitrary: state ws t j)
  case (Cons v vs)
  obtain state' w' ws' where step: "ProcessNewMinidump (\<lambda>w p. ReadMinidump br p w) FormatTombstone
      (fst v) state cfg dir patch (snd v) = Some (state', w')"
    and rest: "process_visits (\<lambda>w p. ReadMinidump br p w) FormatTombstone state' cfg dir patch vs = Some ws'"
    and ws: "ws = w' # ws'" by (rule process_visits_Cons [OF Cons.prems(1)])
  note v = visit_step [OF step, unfolded prod.collapse]
  show ?case
  proof (cases j)
    case 0
    then show ?thesis using Cons.prems(3,6-8) v ws
      by (auto simp: suppressed_def split: if_splits)
  next
    case (Suc i)
    obtain t' where t': "rate_limit_map state' (crash_key info) = Some t'" "t \<le> t'" "\<forall>u\<in>set vs. t' \<le> visit_time u"
    proof -
      have "rate_limit_map state' (crash_key info) = Some t \<or> rate_limit_map state' (crash_key info) = Some (visit_time v)"
        using v Cons.prems(3) by (auto split: option.splits if_splits)
      then show thesis using that Cons.prems(2,4) by auto
    qed
    have "kRateLimitWindow \<le> visit_time (vs ! i) - t'"
      using Cons.prems(2,5-8) Suc ws by (intro Cons.IH [OF rest _ t'(1,3)]) auto
    then show ?thesis using t'(2) Suc by simp
  qed
qed simp

lemma printed_twice:
  assumes "process_visits (\<lambda>w p. ReadMinidump br p w) FormatTombstone state cfg dir patch vs = Some ws"
    and "sorted (map visit_time vs)" and "k < j" and "j < length vs"
    and "visit_info br patch (vs ! k) = Some info" and "visit_info br patch (vs ! j) = Some info'"
    and "crash_key info' = crash_key info" and "\<not> silent (vs ! k) (ws ! k)" and "\<not> silent (vs ! j) (ws ! j)"
  shows "kRateLimitWindow \<le> visit_time (vs ! j) - visit_time (vs ! k)"
  using assms
proof (induction vs arbitrary: state ws j k)
  case (Cons v vs)
  obtain state' w' ws' where step: "ProcessNewMinidump (\<lambda>w p. ReadMinidump br p w) FormatTombstone
      (fst v) state cfg dir patch (snd v) = Some (state', w')"
    and rest: "process_visits (\<lambda>w p. ReadMinidump br p w) FormatTombstone state' cfg dir patch vs = Some ws'"
    and ws: "ws = w' # ws'" by (rule process_visits_Cons [OF Cons.prems(1)])
  note v = visit_step [OF step, unfolded prod.collapse]
  obtain i where j: "j = Suc i" using Cons.prems(3) by (cases j) auto
  show ?case
  proof (cases k)
    case 0
    then have "rate_limit_map state' (crash_key info) = Some (visit_time v)"
      using v Cons.prems(5,8) ws by (auto split: if_splits)
    then show ?thesis
      using printed_after_window [OF rest, of info "visit_time v" i info'] Cons.prems 0 j ws by simp
  next
    case (Suc l)
    then show ?thesis using Cons.IH [OF rest, of l i] Cons.prems j ws by simp
  qed
qed simp

text \<open>A visit is silenced by an earlier report of its key, or by an entry from before the run.\<close>

lemma silenced_by:
  assumes "process_visits (\<lambda>w p. ReadMinidump br p w) FormatTombstone state cfg dir patch vs = Some ws"
    and "j < length vs" and "visit_info br patch (vs ! j) = Some info" and "silent (vs ! j) (ws ! j)"
  shows "(\<exists>k<j. \<exists>info'. visit_info br patch (vs ! k) = Some info' \<and> crash_key info' = crash_key info \<and>
      \<not> silent (vs ! k) (ws ! k) \<and> visit_time (vs ! j) - visit_time (vs ! k) < kRateLimitWindow) \<or>
    (\<exists>t. rate_limit_map state (crash_key info) = Some t \<and> visit_time (vs ! j) - t < kRateLimitWindow)"
  using assms
proof (induction vs arbitrary: state ws j)
  case (Cons v vs)
  obtain state' w' ws' where step: "ProcessNewMinidump (\<lambda>w p. ReadMinidump br p w) FormatTombstone
      (fst v) state cfg dir patch (snd v) = Some (state', w')"
    and rest: "process_visits (\<lambda>w p. ReadMinidump br p w) FormatTombstone state' cfg dir patch vs = Some ws'"
    and ws: "ws = w' # ws'" by (rule process_visits_Cons [OF Cons.prems(1)])
  note v = visit_step [OF step, unfolded prod.collapse]
  show ?case
  proof (cases j)
    case 0
    then show ?thesis using v Cons.prems(3,4) ws
      by (auto simp: suppressed_def split: if_splits option.splits)
  next
    case (Suc i)
    have "i < length vs" "visit_info br patch (vs ! i) = Some info" "silent (vs ! i) (ws' ! i)"
      using Cons.prems Suc ws by simp_all
    from Cons.IH [OF rest this] show ?thesis
    proof (elim disjE exE conjE)
      fix k info'
      assume "k < i" "visit_info br patch (vs ! k) = Some info'" "crash_key info' = crash_key info"
        "\<not> silent (vs ! k) (ws' ! k)" "visit_time (vs ! i) - visit_time (vs ! k) < kRateLimitWindow"
      then show ?thesis using Suc ws by (intro disjI1 exI [of _ "Suc k"]) simp
    next
      fix t
      assume t: "rate_limit_map state' (crash_key info) = Some t" "visit_time (vs ! i) - t < kRateLimitWindow"
      show ?thesis
      proof (cases "rate_limit_map state (crash_key info) = Some t")
        case False
        then have "visit_info br patch v \<noteq> None \<and> \<not> silent v w' \<and> t = visit_time v \<and>
            crash_key (the (visit_info br patch v)) = crash_key info"
          using v t(1) by (auto split: option.splits if_splits)
        then show ?thesis using Suc ws t(2) by (intro disjI1 exI [of _ 0]) auto
      qed (use t(2) Suc in auto)
    qed
  qed
qed simp

lemma visit_prints:
  assumes "process_visits (\<lambda>w p. ReadMinidump br p w) FormatTombstone state cfg dir patch vs = Some ws"
    and "i < length vs"
  shows "silent (vs ! i) (ws ! i) \<or>
    (\<exists>info. visit_info br patch (vs ! i) = Some info \<and> out (ws ! i) = out (snd (vs ! i)) @ FormatTombstone info)"
  using assms
proof (induction vs arbitrary: state ws i)
  case (Cons v vs)
  obtain state' w' ws' where step: "ProcessNewMinidump (\<lambda>w p. ReadMinidump br p w) FormatTombstone
      (fst v) state cfg dir patch (snd v) = Some (state', w')"
    and rest: "process_visits (\<lambda>w p. ReadMinidump br p w) FormatTombstone state' cfg dir patch vs = Some ws'"
    and ws: "ws = w' # ws'" by (rule process_visits_Cons [OF Cons.prems(1)])
  then show ?case
    using visit_step [OF step, unfolded prod.collapse] Cons.IH [OF rest] Cons.prems(2)
    by (cases i) (auto split: option.splits if_splits)
qed simp

lemma run_rate_limited:
  assumes "process_visits (\<lambda>w p. ReadMinidump br p w) FormatTombstone state cfg dir patch vs = Some ws"
    and "rate_limit_map state = Map.empty" and "sorted (map visit_time vs)"
    and "i < length vs" and "visit_info br patch (vs ! i) = Some info"
  shows "out (ws ! i) = out (snd (vs ! i)) @
    (if \<exists>k<i. \<exists>info'. visit_info br patch (vs ! k) = Some info' \<and> signature_of info' = signature_of info \<and>
          \<not> silent (vs ! k) (ws ! k) \<and> visit_time (vs ! i) - visit_time (vs ! k) < kRateLimitWindow
     then [] else FormatTombstone info)"
proof (cases "silent (vs ! i) (ws ! i)")
  case True
  then have "\<exists>k<i. \<exists>info'. visit_info br patch (vs ! k) = Some info' \<and> signature_of info' = signature_of info \<and>
      \<not> silent (vs ! k) (ws ! k) \<and> visit_time (vs ! i) - visit_time (vs ! k) < kRateLimitWindow"
    using silenced_by [OF assms(1,4,5)] visit_key [OF _ assms(5)] assms(2) by (metis option.distinct(1))
  with True show ?thesis by simp
next
  case False
  have "\<not> (\<exists>k<i. \<exists>info'. visit_info br patch (vs ! k) = Some info' \<and> signature_of info' = signature_of info \<and>
      \<not> silent (vs ! k) (ws ! k) \<and> visit_time (vs ! i) - visit_time (vs ! k) < kRateLimitWindow)"
    using printed_twice [OF assms(1,3) _ assms(4) _ assms(5) _ _ False] visit_key [OF _ assms(5)] by fastforce
  then show ?thesis using visit_prints [OF assms(1,4)] False assms(5) by (auto simp only: if_False option.inject)
qed

text \<open>
  Over any run of the worker that starts with an empty map, on a clock that does not go
  back, a readable dump is silent exactly when a tombstone of the same signature (process
  name, signal text and fault address) was printed less than 30 seconds before it, whatever
  was patched, exported or pruned in between. Otherwise its own tombstone is printed, once.
\<close>

theorem tombstones_rate_limited:
  assumes "process_visits (\<lambda>w p. ReadMinidump br p w) FormatTombstone state cfg dir patch vs = Some ws"
    and "rate_limit_map state = Map.empty" and "sorted (map visit_time vs)"
    and "i < length vs" and "visit_info br patch (vs ! i) = Some info"
  shows "out (ws ! i) = out (snd (vs ! i)) @
    (if \<exists>k<i. \<exists>info'. visit_info br patch (vs ! k) = Some info' \<and> signature_of info' = signature_of info \<and>
          \<not> silent (vs ! k) (ws ! k) \<and> visit_time (vs ! i) - visit_time (vs ! k) < kRateLimitWindow
     then [] else FormatTombstone info)"
  by (rule run_rate_limited [OF assms])

definition bare_dump :: breakpad where
  "bare_dump = \<lparr>header_time_date_stamp = None, misc_info = None, exception_of = None,
     module_list = None, thread_list = None, thread_name_list = None\<rparr>"

theorem tombstones_rate_limited_witness:
  "\<exists>w1 w2. process_visits (\<lambda>w p. ReadMinidump (\<lambda>_ _. Some bare_dump) p w) FormatTombstone
       \<lparr>pending = [], stop = False, rate_limit_map = Map.empty\<rparr> disk_config [] False
       [(''/d'', disk_world), (''/d'', disk_world)] = Some [w1, w2] \<and>
     out w1 \<noteq> [] \<and> out w2 = []"
proof -
  let ?br = "\<lambda>_ _. Some bare_dump" and ?st = "\<lparr>pending = [], stop = False, rate_limit_map = Map.empty\<rparr> :: WorkerState"
  let ?v = "(''/d'', disk_world)"
  have P: "\<exists>s' w'. ProcessNewMinidump (\<lambda>w p. ReadMinidump ?br p w) FormatTombstone ''/d'' s disk_config [] False w
      = Some (s', w')" for s w
    by (simp add: ProcessNewMinidump_def patch_step_def split: prod.split)
  obtain s1 w1 where first: "ProcessNewMinidump (\<lambda>w p. ReadMinidump ?br p w) FormatTombstone ''/d'' ?st disk_config
      [] False disk_world = Some (s1, w1)" using P by blast
  obtain s2 w2 where second: "ProcessNewMinidump (\<lambda>w p. ReadMinidump ?br p w) FormatTombstone ''/d'' s1 disk_config
      [] False disk_world = Some (s2, w2)" using P by blast
  have run: "process_visits (\<lambda>w p. ReadMinidump ?br p w) FormatTombstone ?st disk_config [] False [?v, ?v] = Some [w1, w2]"
    by (simp add: first second)
  obtain info where i: "visit_info ?br False ?v = Some info"
    by (simp add: visit_info_def patch_step_def ReadMinidump_def Let_def bare_dump_def)
  have "out w1 = FormatTombstone info"
    using tombstones_rate_limited [OF run, of 0 info] i by (simp add: disk_world_def)
  moreover from this have "\<not> silent ?v w1" by (simp add: disk_world_def)
  then have "out w2 = []"
    using tombstones_rate_limited [OF run, of 1 info] i
    by (simp add: kRateLimitWindow_def disk_world_def)
  ultimately show ?thesis using run by auto
qed

end
