(* ===== verification/Sequential_Work.thy ===== *)
theory Sequential_Work
  imports Daemon Rate_Limit
begin

text \<open>
  The daemon's output over a run of its threads: the steps in which the worker finishes a
  dump are a sequential run of visits, to which the theory \<open>Rate_Limit\<close> applies.
\<close>

fun visits_end ::
  "(world \<Rightarrow> string \<Rightarrow> MinidumpInfo status_or) \<Rightarrow> (MinidumpInfo \<Rightarrow> string) \<Rightarrow> WorkerState \<Rightarrow>
    DiskManagerConfig \<Rightarrow> string \<Rightarrow> bool \<Rightarrow> (string \<times> world) list \<Rightarrow> WorkerState option"
where
  "visits_end rd fmt state cfg dir patch [] = Some state"
| "visits_end rd fmt state cfg dir patch ((p, w) # vs) =
     (case ProcessNewMinidump rd fmt p state cfg dir patch w of
        None \<Rightarrow> None
      | Some (state', w') \<Rightarrow> visits_end rd fmt state' cfg dir patch vs)"

lemma process_visits_snoc:
  assumes "process_visits rd fmt state cfg dir patch vs = Some ws"
    and "visits_end rd fmt state cfg dir patch vs = Some e"
    and "ProcessNewMinidump rd fmt p e cfg dir patch w = Some (e', w')"
  shows "process_visits rd fmt state cfg dir patch (vs @ [(p, w)]) = Some (ws @ [w']) \<and>
    visits_end rd fmt state cfg dir patch (vs @ [(p, w)]) = Some e'"
  using assms
proof (induction vs arbitrary: state ws)
  case (Cons v vs)
  obtain q u where v: "v = (q, u)" by (cases v)
  obtain s1 u1 ws1 where "ProcessNewMinidump rd fmt q state cfg dir patch u = Some (s1, u1)"
    "process_visits rd fmt s1 cfg dir patch vs = Some ws1" "ws = u1 # ws1"
    using Cons.prems(1) v by (auto split: option.splits)
  then show ?case using Cons v by simp
qed simp

text \<open>Processing looks at the rate limit map only, not at the queue or the shutdown flag.\<close>

lemma process_by_map:
  assumes "rate_limit_map a = rate_limit_map b" and "ProcessNewMinidump rd fmt p a cfg dir patch w = Some (a', w')"
  shows "\<exists>b'. ProcessNewMinidump rd fmt p b cfg dir patch w = Some (b', w') \<and> rate_limit_map b' = rate_limit_map a'"
proof -
  obtain w1 where w1: "patch_step patch p w = Some w1"
    using assms(2) by (auto simp: ProcessNewMinidump_def split: option.splits)
  obtain s2 w2 where r: "report_step rd fmt p a dir w1 = (s2, w2)" by fastforce
  have "suppressed b key now = suppressed a key now" for key now
    by (simp add: suppressed_def assms(1))
  then have "\<exists>t2. report_step rd fmt p b dir w1 = (t2, w2) \<and> rate_limit_map t2 = rate_limit_map s2"
    using r assms(1) by (auto simp: report_step_def Let_def split: sum.splits if_splits)
  then show ?thesis using assms(2) w1 r by (auto simp: ProcessNewMinidump_def)
qed

lemma daemon_step_work:
  assumes "daemon_step cfg s t" and "daemon_inv cfg s"
  shows "(processed t = processed s \<and> rate_limit_map (worker t) = rate_limit_map (worker s)) \<or>
    (\<exists>p st' w'. busy s = Some p \<and> process cfg p (worker s) (os s) = Some (st', w') \<and>
      processed t = processed s @ [p] \<and> worker t = st' \<and> os t = w')"
  using assms
proof (induction rule: daemon_step.induct)
  case (poll_step s t rest st' calls)
  then have "\<exists>ps. st' = fold push_pending ps (worker s)"
    using loop_body_queue [of t "unread s" rest] by (fastforce simp: daemon_inv_def)
  then show ?case by (auto simp: rate_limit_map_push)
next
  case (break_step s t rest st' calls)
  then have "\<exists>ps. st' = fold push_pending ps (worker s)"
    using loop_body_queue [of t "unread s" rest] by (fastforce simp: daemon_inv_def)
  then show ?case by (auto simp: rate_limit_map_push)
qed (auto simp: HandleSignal_def worker_wait_def split: if_splits)

lemma process_clock: "process cfg p st w = Some (st', w') \<Longrightarrow> steady_clock w' = steady_clock w"
proof -
  assume "process cfg p st w = Some (st', w')"
  then obtain w1 s2 w2 where w1: "patch_step (patch_build_ids cfg) p w = Some w1"
    and r: "report_step (RealTombstone_ReadMinidump (breakpad_read cfg)) RealTombstone_FormatTombstone p st
      (export_path cfg) w1 = (s2, w2)" and w': "w' = prune_step (prune_cfg cfg) w2"
    by (auto simp: process_def ProcessNewMinidump_def split: option.splits prod.splits)
  have "steady_clock w2 = steady_clock w1"
    using r export_env by (auto simp: report_step_def LogTombstone_def same_env_def Let_def split: sum.splits if_splits)
  then show ?thesis
    using patch_step_env [OF w1] prune_step_env [of w2 "prune_cfg cfg"] w' by (simp add: same_env_def)
qed

text \<open>The daemon on a clock that does not go back.\<close>

definition clocked_step :: "watcher_config \<Rightarrow> daemon \<Rightarrow> daemon \<Rightarrow> bool" where
  "clocked_step cfg s t = (daemon_step cfg s t \<and> steady_clock (os s) \<le> steady_clock (os t))"

abbreviation fresh_worker :: WorkerState where
  "fresh_worker \<equiv> \<lparr>pending = [], stop = False, rate_limit_map = Map.empty\<rparr>"

abbreviation visits_of :: "watcher_config \<Rightarrow> (string \<times> world) list \<Rightarrow> world list option" where
  "visits_of cfg \<equiv> process_visits (RealTombstone_ReadMinidump (breakpad_read cfg)) RealTombstone_FormatTombstone
     fresh_worker (prune_cfg cfg) (export_path cfg) (patch_build_ids cfg)"

abbreviation state_after :: "watcher_config \<Rightarrow> (string \<times> world) list \<Rightarrow> WorkerState option" where
  "state_after cfg \<equiv> visits_end (RealTombstone_ReadMinidump (breakpad_read cfg)) RealTombstone_FormatTombstone
     fresh_worker (prune_cfg cfg) (export_path cfg) (patch_build_ids cfg)"

text \<open>
  A run of the daemon up to its \<open>n\<close>-th state, and the steps in which the worker finishes a
  dump, with what it was busy with and the world before and after it.
\<close>

definition clocked_run :: "watcher_config \<Rightarrow> (nat \<Rightarrow> daemon) \<Rightarrow> nat \<Rightarrow> bool" where
  "clocked_run cfg f n =
     ((\<exists>initialize ker w m. RunWatcher_setup initialize ker cfg w m = Some (f 0)) \<and>
      (\<forall>i<n. clocked_step cfg (f i) (f (Suc i))))"

definition finishes :: "(nat \<Rightarrow> daemon) \<Rightarrow> nat \<Rightarrow> bool" where
  "finishes f i = (processed (f (Suc i)) \<noteq> processed (f i))"

abbreviation visit_at :: "(nat \<Rightarrow> daemon) \<Rightarrow> nat \<Rightarrow> string \<times> world" where
  "visit_at f i \<equiv> (last (processed (f (Suc i))), os (f i))"

abbreviation finishing :: "(nat \<Rightarrow> daemon) \<Rightarrow> nat \<Rightarrow> nat list" where
  "finishing f n \<equiv> filter (finishes f) [0..<n]"

lemma run_reaches: "clocked_run cfg f n \<Longrightarrow> i \<le> n \<Longrightarrow> reachable cfg (f i)"
  by (induction i) (auto simp: clocked_run_def clocked_step_def intro: reachable.intros)

lemma run_work:
  assumes "clocked_run cfg f n" and "i < n"
  shows "\<not> finishes f i \<and> processed (f (Suc i)) = processed (f i) \<and>
      rate_limit_map (worker (f (Suc i))) = rate_limit_map (worker (f i)) \<or>
    finishes f i \<and> (\<exists>p. busy (f i) = Some p \<and> processed (f (Suc i)) = processed (f i) @ [p] \<and>
      process cfg p (worker (f i)) (os (f i)) = Some (worker (f (Suc i)), os (f (Suc i))))"
proof -
  have "daemon_step cfg (f i) (f (Suc i))" using assms by (simp add: clocked_run_def clocked_step_def)
  then show ?thesis
    using daemon_step_work reachable_inv [OF run_reaches [OF assms(1)], of i] assms(2) by (fastforce simp: finishes_def)
qed

lemma run_clock: "clocked_run cfg f n \<Longrightarrow> i \<le> j \<Longrightarrow> j \<le> n \<Longrightarrow> steady_clock (os (f i)) \<le> steady_clock (os (f j))"
proof (induction j)
  case (Suc j)
  then have "steady_clock (os (f j)) \<le> steady_clock (os (f (Suc j)))" by (simp add: clocked_run_def clocked_step_def)
  then show ?case using Suc by (cases "i = Suc j") auto
qed simp

lemma setup_fresh:
  "RunWatcher_setup initialize ker cfg w n = Some s \<Longrightarrow> processed s = [] \<and> rate_limit_map (worker s) = Map.empty"
  by (auto simp: RunWatcher_setup_def Let_def split: prod.splits bool.splits option.splits)

text \<open>The finishing steps are a sequential run of the worker from an empty map.\<close>

lemma finishing_visits:
  assumes "clocked_run cfg f n" and "m \<le> n"
  shows "\<exists>e. map fst (map (visit_at f) (finishing f m)) = processed (f m) \<and>
    visits_of cfg (map (visit_at f) (finishing f m)) = Some (map (\<lambda>i. os (f (Suc i))) (finishing f m)) \<and>
    state_after cfg (map (visit_at f) (finishing f m)) = Some e \<and> rate_limit_map e = rate_limit_map (worker (f m))"
  using assms(2)
proof (induction m)
  case 0
  have "processed (f 0) = [] \<and> rate_limit_map (worker (f 0)) = Map.empty"
    using assms(1) setup_fresh by (auto simp: clocked_run_def)
  then show ?case by simp
next
  case (Suc m)
  then obtain e where e: "map fst (map (visit_at f) (finishing f m)) = processed (f m)"
    "visits_of cfg (map (visit_at f) (finishing f m)) = Some (map (\<lambda>i. os (f (Suc i))) (finishing f m))"
    "state_after cfg (map (visit_at f) (finishing f m)) = Some e" "rate_limit_map e = rate_limit_map (worker (f m))"
    by auto
  have "m < n" using Suc.prems by simp
  from run_work [OF assms(1) this] show ?case
  proof (elim disjE exE conjE)
    assume "\<not> finishes f m" "processed (f (Suc m)) = processed (f m)"
      "rate_limit_map (worker (f (Suc m))) = rate_limit_map (worker (f m))"
    then show ?thesis using e by (intro exI [of _ e]) simp
  next
    fix p
    assume fin: "finishes f m" and p: "processed (f (Suc m)) = processed (f m) @ [p]"
      "process cfg p (worker (f m)) (os (f m)) = Some (worker (f (Suc m)), os (f (Suc m)))"
    obtain e' where e': "ProcessNewMinidump (RealTombstone_ReadMinidump (breakpad_read cfg)) RealTombstone_FormatTombstone
        p e (prune_cfg cfg) (export_path cfg) (patch_build_ids cfg) (os (f m)) = Some (e', os (f (Suc m)))"
      "rate_limit_map e' = rate_limit_map (worker (f (Suc m)))"
      using process_by_map [OF e(4) [symmetric] p(2) [unfolded process_def]] by blast
    show ?thesis
      using process_visits_snoc [OF e(2,3) e'(1)] e'(2) e(1) fin p(1) by (intro exI [of _ e']) simp
  qed
qed

lemma RealTombstone_eq:
  "RealTombstone_ReadMinidump br = (\<lambda>w p. ReadMinidump br p w)" "RealTombstone_FormatTombstone = FormatTombstone"
  by (simp_all add: fun_eq_iff RealTombstone_ReadMinidump_def RealTombstone_FormatTombstone_def)

lemma finishing_sorted:
  assumes "clocked_run cfg f n" and "m \<le> n"
  shows "sorted (map visit_time (map (visit_at f) (finishing f m)))"
proof -
  have "sorted (map (\<lambda>i. steady_clock (os (f i))) [0..<m])"
    using run_clock [OF assms(1)] assms(2) by (auto simp: sorted_iff_nth_mono)
  then have "sorted (map (\<lambda>i. steady_clock (os (f i))) (finishing f m))" by (rule sorted_filter)
  then show ?thesis by (simp add: comp_def)
qed

lemma ex_before:
  "(\<exists>l<length xs. Q (map g (xs @ ys) ! l) (map h (xs @ ys) ! l)) \<longleftrightarrow> (\<exists>x\<in>set xs. Q (g x) (h x))"
proof -
  have "(\<exists>l<length xs. Q (map g (xs @ ys) ! l) (map h (xs @ ys) ! l)) \<longleftrightarrow> (\<exists>l<length xs. Q (g (xs ! l)) (h (xs ! l)))"
    by (rule ex_cong) (simp add: nth_append cong: conj_cong)
  then show ?thesis by (simp add: Bex_def in_set_conv_nth) blast
qed

text \<open>
  C5. Whatever the interleaving of the threads, signals and clients, on a steady clock that does not
  go back: in every step of a run of the daemon in which the worker finishes with a dump, the daemon's
  output grows by the tombstone of this dump if it can be read, unless an earlier step of the same run printed
  one of the same signature (process name, signal text and fault address) less than 30 seconds
  before; in this case, and for a dump that cannot be read, the output stays as it was. The dump is the one that
  the worker was busy with, and what the finishing steps finish are the processed dumps in order.
\<close>

theorem daemon_rate_limited:
  assumes "clocked_run cfg f n" and "i < n" and "finishes f i"
  shows "busy (f i) = Some (last (processed (f (Suc i)))) \<and>
    processed (f i) = map (\<lambda>k. last (processed (f (Suc k)))) (filter (finishes f) [0..<i]) \<and>
    out (os (f (Suc i))) = out (os (f i)) @
      (case visit_info (breakpad_read cfg) (patch_build_ids cfg) (visit_at f i) of
         None \<Rightarrow> []
       | Some info \<Rightarrow>
           if \<exists>k<i. finishes f k \<and> out (os (f (Suc k))) \<noteq> out (os (f k)) \<and>
                steady_clock (os (f i)) - steady_clock (os (f k)) < kRateLimitWindow \<and>
                (\<exists>info'. visit_info (breakpad_read cfg) (patch_build_ids cfg) (visit_at f k) = Some info' \<and>
                   signature_of info' = signature_of info)
           then [] else FormatTombstone info)"
proof -
  let ?vs = "map (visit_at f) (finishing f (Suc i))" and ?ws = "map (\<lambda>i. os (f (Suc i))) (finishing f (Suc i))"
  let ?info = "\<lambda>k. visit_info (breakpad_read cfg) (patch_build_ids cfg) (visit_at f k)"
  define k where "k = length (finishing f i)"
  have all: "finishing f (Suc i) = finishing f i @ [i]" using assms(3) by simp
  have k: "k < length ?vs" "?vs ! k = visit_at f i" "?ws ! k = os (f (Suc i))"
    by (simp_all add: all k_def nth_append assms(3))
  have before: "(\<exists>l<k. \<exists>info'. visit_info (breakpad_read cfg) (patch_build_ids cfg) (?vs ! l) = Some info' \<and>
        signature_of info' = signature_of info \<and> \<not> silent (?vs ! l) (?ws ! l) \<and>
        visit_time (?vs ! k) - visit_time (?vs ! l) < kRateLimitWindow) \<longleftrightarrow>
      (\<exists>l<i. finishes f l \<and> out (os (f (Suc l))) \<noteq> out (os (f l)) \<and>
        steady_clock (os (f i)) - steady_clock (os (f l)) < kRateLimitWindow \<and>
        (\<exists>info'. ?info l = Some info' \<and> signature_of info' = signature_of info))" (is "?L = ?R") for info
  proof -
    define P where "P v w' = (\<exists>info'. visit_info (breakpad_read cfg) (patch_build_ids cfg) v = Some info' \<and>
      signature_of info' = signature_of info \<and> \<not> silent v w' \<and> visit_time (visit_at f i) - visit_time v < kRateLimitWindow)"
      for v w'
    have "?L \<longleftrightarrow> (\<exists>l<k. P (?vs ! l) (?ws ! l))" by (simp only: P_def k(2))
    also have "\<dots> \<longleftrightarrow> (\<exists>x\<in>set (finishing f i). P (visit_at f x) (os (f (Suc x))))"
      unfolding all k_def by (rule ex_before)
    also have "\<dots> \<longleftrightarrow> (\<exists>l<i. finishes f l \<and> P (visit_at f l) (os (f (Suc l))))" by auto
    also have "\<dots> \<longleftrightarrow> ?R" unfolding P_def fst_conv snd_conv by blast
    finally show ?thesis .
  qed
  have run: "visits_of cfg ?vs = Some ?ws"
    using finishing_visits [OF assms(1), of "Suc i"] assms(2) by auto
  have visits: "process_visits (\<lambda>w p. ReadMinidump (breakpad_read cfg) p w) FormatTombstone fresh_worker
      (prune_cfg cfg) (export_path cfg) (patch_build_ids cfg) ?vs = Some ?ws"
    using run unfolding RealTombstone_eq .
  have "out (?ws ! k) = out (snd (?vs ! k)) @ (case ?info i of None \<Rightarrow> [] | Some info \<Rightarrow>
      if \<exists>l<k. \<exists>info'. visit_info (breakpad_read cfg) (patch_build_ids cfg) (?vs ! l) = Some info' \<and>
          signature_of info' = signature_of info \<and> \<not> silent (?vs ! l) (?ws ! l) \<and>
          visit_time (?vs ! k) - visit_time (?vs ! l) < kRateLimitWindow then [] else FormatTombstone info)"
  proof (cases "?info i")
    case None
    then show ?thesis using visit_prints [OF visits k(1)] k(2) by auto
  next
    case (Some info)
    then show ?thesis
      using run_rate_limited [OF visits _ finishing_sorted [OF assms(1)] k(1), of info] assms(2) k(2) by simp
  qed
  then have "out (os (f (Suc i))) = out (os (f i)) @
      (case ?info i of None \<Rightarrow> [] | Some info \<Rightarrow>
        if \<exists>k<i. finishes f k \<and> out (os (f (Suc k))) \<noteq> out (os (f k)) \<and>
             steady_clock (os (f i)) - steady_clock (os (f k)) < kRateLimitWindow \<and>
             (\<exists>info'. ?info k = Some info' \<and> signature_of info' = signature_of info)
        then [] else FormatTombstone info)"
    unfolding before unfolding k(2,3) snd_conv .
  moreover have "busy (f i) = Some (last (processed (f (Suc i))))"
    using run_work [OF assms(1,2)] assms(3) by auto
  moreover have "processed (f i) = map (\<lambda>k. last (processed (f (Suc k)))) (finishing f i)"
    using finishing_visits [OF assms(1), of i] assms(2) by (auto simp: comp_def)
  ultimately show ?thesis by blast
qed

text \<open>A run of the daemon in which a dump arrives, is queued, taken and reported.\<close>

lemma all_less_4: "(\<forall>i<4. P i) \<longleftrightarrow> P 0 \<and> P (Suc 0) \<and> P (Suc (Suc 0)) \<and> P (Suc (Suc (Suc 0)))"
  by (auto simp: numeral_eq_Suc less_Suc_eq)

definition reading_config :: watcher_config where
  "reading_config = example_config\<lparr>breakpad_read := \<lambda>w p. Some bare_dump\<rparr>"

lemma reading_run:
  "\<exists>f. clocked_run reading_config f 4 \<and> finishes f 3 \<and> processed (f 3) = [] \<and>
     processed (f 4) = [''/db/pending/z.dmp'']"
proof -
  let ?c = reading_config
  have same: "watcher_config.db_path ?c = watcher_config.db_path example_config" "socket_path ?c = socket_path example_config"
    by (simp_all add: reading_config_def)
  have eq: "RunWatcher_setup (\<lambda>p w. Some w) example_kernel ?c disk_world example_net =
      RunWatcher_setup (\<lambda>p w. Some w) example_kernel example_config disk_world example_net"
    by (simp only: RunWatcher_setup_def watched_dir_def same)
  obtain s where s0: "RunWatcher_setup (\<lambda>p w. Some w) example_kernel ?c disk_world example_net = Some s"
    and s: "at s = Polling" "\<not> stop_flag s" "handler_running s" "unread s = []" "processed s = []" "busy s = None"
      "worker s = fresh_worker" "\<not> worker_returned s"
    using example_starts unfolding eq by blast
  let ?t = "s\<lparr>unread := unread s @ [example_event], arrived := arrived s @ [example_event], os := os s\<rparr>"
  have e: "event_well_formed example_event"
    by (simp add: example_event_def event_well_formed_def byte_of_char_def)
  have 1: "daemon_step ?c s ?t" using s(3) e by (rule daemon_step.dump_step)
  let ?tick = "\<lparr>g_stop = False, tick_now = 0, poll_result = Inr (True, False), accept_result = Inl 0,
    send_result = (\<lambda>_. None), read_result = Inr (concat (map encode_event [example_event]))\<rparr>"
  have paths: "dump_paths (watched_dir ?c) example_event = [''/db/pending/z.dmp'']"
    by (simp add: dump_paths_def is_new_dump_def example_event_def IN_MOVED_TO_def suffix_def watched_dir_def
        reading_config_def example_config_def)
  have enq: "EnqueueInotifyEvents (watched_dir ?c) fresh_worker (concat (map encode_event [example_event])) 0 =
      Some (fresh_worker\<lparr>pending := [''/db/pending/z.dmp'']\<rparr>)"
    using enqueue_events_from [of "[example_event]" "watched_dir ?c" fresh_worker "[]"] e paths
    by (simp add: push_pending_def)
  have len: "length (concat (map encode_event [example_event])) \<le> kInotifyEventBufferCount * (inotify_header + 256)"
    by (simp add: length_encode_event example_event_def kInotifyEventBufferCount_def inotify_header_def)
  let ?u = "?t\<lparr>worker := fresh_worker\<lparr>pending := [''/db/pending/z.dmp'']\<rparr>, unread := [], sent := sent ?t @ [],
    clients := clients ?t + new_clients ?tick\<rparr>"
  have 2: "daemon_step ?c ?t ?u"
    using s enq len by (intro daemon_step.poll_step) (simp_all add: kernel_read_def does_read_def loop_body_def)
  let ?v = "?u\<lparr>worker := fresh_worker, busy := Some ''/db/pending/z.dmp''\<rparr>"
  have 3: "daemon_step ?c ?u ?v"
    using s(6,8) by (intro daemon_step.take_step) (simp_all add: worker_wait_def)
  have "\<exists>r. process ?c ''/db/pending/z.dmp'' fresh_worker (os s) = Some r"
    by (simp add: process_def ProcessNewMinidump_def patch_step_def reading_config_def example_config_def
        split: prod.split)
  then obtain st' w' where pr: "process ?c ''/db/pending/z.dmp'' fresh_worker (os s) = Some (st', w')"
    by (metis prod.collapse)
  let ?x = "?v\<lparr>worker := st', os := w', busy := None, processed := processed ?v @ [''/db/pending/z.dmp'']\<rparr>"
  have 4: "daemon_step ?c ?v ?x" using pr by (intro daemon_step.process_step) simp_all
  have "clocked_step ?c s ?t" "clocked_step ?c ?t ?u" "clocked_step ?c ?u ?v" "clocked_step ?c ?v ?x"
    using 1 2 3 4 process_clock [OF pr] by (simp_all add: clocked_step_def)
  moreover define f where "f i = [s, ?t, ?u, ?v, ?x] ! i" for i
  ultimately have "\<forall>i<4. clocked_step ?c (f i) (f (Suc i))" by (simp add: f_def all_less_4)
  moreover have "f 0 = s" "processed (f 3) = []" "processed (f 4) = [''/db/pending/z.dmp'']" using s(5) by (simp_all add: f_def)
  ultimately show ?thesis using s0 by (intro exI [of _ f]) (auto simp: clocked_run_def finishes_def numeral_eq_Suc)
qed

theorem daemon_rate_limited_witness:
  "\<exists>f info. clocked_run reading_config f 4 \<and> visit_info (\<lambda>_ _. Some bare_dump) False (''/db/pending/z.dmp'', os (f 3)) = Some info \<and>
     busy (f 3) = Some ''/db/pending/z.dmp'' \<and> out (os (f 4)) = out (os (f 3)) @ FormatTombstone info"
proof -
  obtain f where f: "clocked_run reading_config f 4" "finishes f 3" "processed (f 3) = []"
    "processed (f 4) = [''/db/pending/z.dmp'']"
    using reading_run by blast
  have four: "Suc 3 = (4 :: nat)" by simp
  have c: "breakpad_read reading_config = (\<lambda>_ _. Some bare_dump)" "\<not> patch_build_ids reading_config"
    by (simp_all add: reading_config_def example_config_def)
  obtain info where i: "visit_info (\<lambda>_ _. Some bare_dump) False (''/db/pending/z.dmp'', os (f 3)) = Some info"
    by (simp add: visit_info_def patch_step_def ReadMinidump_def Let_def bare_dump_def)
  note r = daemon_rate_limited [OF f(1) _ f(2), unfolded four f(3,4)]
  have "filter (finishes f) [0..<3] = []" using r by simp
  then have "\<not> (\<exists>k<3. finishes f k)" by (auto simp: filter_empty_conv)
  then have "busy (f 3) = Some ''/db/pending/z.dmp'' \<and> out (os (f 4)) = out (os (f 3)) @ FormatTombstone info"
    using r i c by auto
  then show ?thesis using f(1) i by blast
qed

end
