(* ===== verification/Patch_Idempotent.thy ===== *)
theory Patch_Idempotent
  imports Minidump_Patcher
begin

text \<open>
  Patching is idempotent: a dump that has been patched is left alone by the next call. The
  patched dump is the same outside the CodeView records and the size words, so the second
  call finds the same module list and makes the decisions of \<^verbatim>\<open>patch_module\<close> again.
\<close>

section \<open>The second decision for a module\<close>

lemma touched_apart_all:
  assumes "well_laid_out buf first n" and "k < n"
  shows "touched buf first n \<inter> name_span buf (mod_at first k) = {}"
    and "touched buf first n \<inter> span (mod_at first k + kModCvRvaOff) 4 = {}"
proof -
  have i: "cv_span buf (mod_at first i) \<inter> span first (n * kModuleSize) = {}"
    "cv_span buf (mod_at first i) \<inter> name_span buf (mod_at first k) = {}"
    "span first (n * kModuleSize) \<inter> name_span buf (mod_at first k) = {}" if "i < n" for i
    using assms that unfolding well_laid_out_def by auto
  have cell: "span (mod_at first i + kModCvDataSizeOff) 4 \<subseteq> span first (n * kModuleSize)" if "i < n" for i
    using mod_region [of i n first] that by (auto simp: span_def layout_defs)
  have own: "span (mod_at first k + kModCvRvaOff) 4 \<subseteq> span (mod_at first k) kModuleSize"
    by (auto simp: span_def layout_defs)
  show "touched buf first n \<inter> name_span buf (mod_at first k) = {}"
    unfolding touched_def by (intro UN_apart) (use i(2,3) cell in blast)
  show "touched buf first n \<inter> span (mod_at first k + kModCvRvaOff) 4 = {}"
    unfolding touched_def
  proof (intro UN_apart conjI)
    fix i assume "i < n"
    then show "cv_span buf (mod_at first i) \<inter> span (mod_at first k + kModCvRvaOff) 4 = {}"
      using i(1) own mod_region [OF assms(2), of first] by blast
    show "span (mod_at first i + kModCvDataSizeOff) 4 \<inter> span (mod_at first k + kModCvRvaOff) 4 = {}"
    proof (cases "i = k")
      case True
      then show ?thesis by (auto simp: span_def layout_defs)
    next
      case False
      then show ?thesis using size_cells_apart own by blast
    qed
  qed
qed

lemma name_unchanged:
  assumes "well_laid_out buf first n" and "k < n" and "same_off (touched buf first n) buf b"
  defines "r \<equiv> ReadU32 buf (mod_at first k + kModNameRvaOff)"
  shows "ReadModuleName b r = ReadModuleName buf r"
proof (cases "r = 0")
  case False
  have "length buf < 2 ^ 32" using assms(1) by (simp add: well_laid_out_def)
  moreover have "span (unat r) (name_len buf r) \<inter> touched buf first n = {}"
    using touched_apart_all(1) [OF assms(1,2)] by (simp add: name_span_def Int_commute flip: r_def)
  moreover have "unat r + name_len buf r \<le> length buf"
    using name_inside [OF assms(1,2)] False by (simp add: r_def)
  ultimately show ?thesis using ReadModuleName_same [OF assms(3)] by simp
qed (simp add: ReadModuleName_def)

lemma outcome_is_final:
  assumes "well_laid_out buf first n" and "k < n" and "elf_files_ok w"
    and "same_off (touched buf first n) buf b" and "module_outcome w buf b (mod_at first k)"
    and "\<And>p. ComputeElfBuildId p w' = ComputeElfBuildId p w"
  shows "module_plan w' b (mod_at first k) = Some None"
proof -
  let ?m = "mod_at first k"
  let ?rva = "ReadU32 buf (?m + kModCvRvaOff)" and ?sz = "ReadU32 buf (?m + kModCvDataSizeOff)"
  have len: "length b = length buf" using same_off_length [OF assms(4)] by simp
  obtain q where q: "module_plan w buf ?m = Some q" using plan_exists [OF assms(1-3)] by blast
  show ?thesis
  proof (cases q)
    case (Some t)
    obtain rva bid path where t: "t = (rva, bid, path)" by (cases t)
    have plan: "module_plan w buf ?m = Some (Some (rva, bid, path))" using q Some t by simp
    have "span (?m + kModCvRvaOff) 4 \<inter> touched buf first n = {}"
      using touched_apart_all(2) [OF assms(1,2)] by (simp only: Int_commute)
    then have "ReadU32 b (?m + kModCvRvaOff) = rva"
      using cells.rd_same_off [OF assms(4)] mod_inside [OF assms(1,2)] plan_facts(1) [OF assms(1-3) plan]
      by (simp add: layout_defs)
    moreover have "ReadU32 b (unat rva) = kBpElSignature"
      using assms(5) plan by (simp add: module_outcome_def)
    ultimately show ?thesis by (simp add: module_plan_def Let_def)
  next
    case None
    define T where "T = - (span ?m kModuleSize \<union> cv_span buf ?m)"
    have same: "same_off T buf b" using assms(5) q None by (simp add: module_outcome_def T_def)
    have f: "ReadU32 b (?m + off) = ReadU32 buf (?m + off)" if "off + 4 \<le> kModuleSize" for off
    proof (rule sym, rule cells.rd_same_off [OF same])
      show "span (?m + off) 4 \<inter> T = {}" using that by (auto simp: T_def span_def)
      show "?m + off + 4 \<le> length buf" using mod_inside [OF assms(1,2)] that by simp
    qed
    have fields: "ReadU32 b (?m + kModNameRvaOff) = ReadU32 buf (?m + kModNameRvaOff)"
      "ReadU32 b (?m + kModCvDataSizeOff) = ?sz" "ReadU32 b (?m + kModCvRvaOff) = ?rva"
      by (intro f; simp add: layout_defs)+
    have sig: "ReadU32 b (unat ?rva) = ReadU32 buf (unat ?rva)"
      if "?rva \<noteq> 0" and "\<not> ?sz < 4 + word_of_nat kXorHashSize"
    proof (rule sym, rule cells.rd_same_off [OF same])
      have four: "20 \<le> unat ?sz" using that(2) by (simp add: layout_defs word_less_nat_alt)
      then show "unat ?rva + 4 \<le> length buf" using cv_inside [OF assms(1,2) that(1)] by linarith
      show "span (unat ?rva) 4 \<inter> T = {}"
        using four that(1) by (auto simp: T_def cv_span_def span_def Let_def)
    qed
    have "module_plan w' b ?m = module_plan w buf ?m"
      unfolding module_plan_def Let_def fields len name_unchanged [OF assms(1,2,4)] assms(6)
      by (intro if_cong disj_cong refl) (simp only: sig not_False_eq_True)
    then show ?thesis using q None by simp
  qed
qed

lemma patch_modules_settled:
  "\<forall>i\<in>set is. module_plan w b (mod_at first i) = Some None \<Longrightarrow> patch_modules w first is b = Some (b, [])"
  by (induction "is") (simp_all add: patch_module_plan mod_at_def Let_def)

section \<open>The second walk\<close>

text \<open>
  The header and the stream directory lie in the dump, apart from the module list and the
  CodeView records, as they do in the files Crashpad writes.
\<close>

definition directory_span :: "bytes \<Rightarrow> nat set" where
  "directory_span buf =
     {..<32} \<union> span (unat (ReadU32 buf 12)) (unat (ReadU32 buf 8) * kDirEntrySize)"

definition directory_apart :: "bytes \<Rightarrow> nat \<Rightarrow> nat \<Rightarrow> bool" where
  "directory_apart buf list_off n =
     (directory_span buf \<subseteq> {..<length buf} \<and>
      directory_span buf \<inter> span list_off (4 + n * kModuleSize) = {} \<and>
      (\<forall>i<n. cv_span buf (mod_at (list_off + 4) i) \<inter> (directory_span buf \<union> span list_off 4) = {}))"

lemma find_module_stream_same:
  assumes "same_off T a b" and "span (unat dir) (n * kDirEntrySize) \<inter> T = {}"
    and "span (unat dir) (n * kDirEntrySize) \<subseteq> {..<length a}"
  shows "find_module_stream b dir n i = find_module_stream a dir n i"
proof (induction "n - i" arbitrary: i)
  case 0
  then show ?case by (simp add: find_module_stream.simps)
next
  case (Suc d)
  then have i: "i < n" by simp
  let ?e = "unat dir + i * kDirEntrySize"
  have e: "?e + kDirEntrySize \<le> unat dir + n * kDirEntrySize"
    using mult_le_mono1 [of "Suc i" n kDirEntrySize] i by simp
  then have "?e + kDirEntrySize - 1 \<in> span (unat dir) (n * kDirEntrySize)"
    by (simp add: span_def kDirEntrySize_def)
  then have in_buf: "?e + kDirEntrySize \<le> length a" using assms(3) by (auto simp: kDirEntrySize_def)
  have rd: "ReadU32 b (?e + k) = ReadU32 a (?e + k)" if "k + 4 \<le> kDirEntrySize" for k
  proof (rule sym, rule cells.rd_same_off [OF assms(1)])
    show "span (?e + k) 4 \<inter> T = {}" by (rule span_disjoint_mono [OF assms(2)]) (use e that in simp_all)
    show "?e + k + 4 \<le> length a" using in_buf that by simp
  qed
  have "d = n - Suc i" using Suc.hyps(2) by simp
  from Suc.hyps(1) [OF this] show ?case
    using rd [of 0] rd [of 8] same_off_length [OF assms(1)]
    by (simp add: find_module_stream.simps [of _ _ _ i] Let_def kDirEntrySize_def)
qed

lemma disjoint_subset: "A \<subseteq> B \<Longrightarrow> B \<inter> C = {} \<Longrightarrow> A \<inter> C = {}"
  by blast

lemma touched_off_directory:
  assumes "well_laid_out buf (list_off + 4) n" and "directory_apart buf list_off n"
  shows "(directory_span buf \<union> span list_off 4) \<inter> touched buf (list_off + 4) n = {}"
proof -
  have sub: "span (mod_at (list_off + 4) i + kModCvDataSizeOff) 4 \<subseteq> span (list_off + 4) (n * kModuleSize)" if "i < n" for i
    using mod_region [of i n "list_off + 4"] that by (auto simp: span_def layout_defs)
  moreover have "span list_off 4 \<inter> span (list_off + 4) (n * kModuleSize) = {}"
    "span (list_off + 4) (n * kModuleSize) \<subseteq> span list_off (4 + n * kModuleSize)"
    by (auto simp: span_def)
  ultimately have "touched buf (list_off + 4) n \<inter> (directory_span buf \<union> span list_off 4) = {}"
    using assms(2) unfolding touched_def directory_apart_def by (intro UN_apart conjI) blast+
  then show ?thesis by (simp only: Int_commute)
qed

lemma minidump_is_no_elf: "ReadU32 b 0 = kMdmpSignature \<Longrightarrow> elf_build_id b = Some []"
proof -
  assume sig: "ReadU32 b 0 = kMdmpSignature"
  have "take 4 b \<noteq> [0x7f, 0x45, 0x4c, 0x46]"
  proof
    assume "take 4 b = [0x7f, 0x45, 0x4c, 0x46]"
    then have "sub_bytes 0 4 b = [0x7f, 0x45, 0x4c, 0x46]" by (simp add: sub_bytes_def)
    then show False using sig by (simp add: ReadU32_def kMdmpSignature_def split: if_splits)
  qed
  then show ?thesis by (simp add: elf_build_id_def)
qed

text \<open>
  C16. Patching is idempotent: under the conditions of the first patch, with the stream
  directory apart from what a patch writes, a second call on the patched dump returns OK
  and changes nothing, neither the dump nor the log.
\<close>

theorem PatchMissingBuildIds_idempotent:
  assumes "read_file path w = Some buf" and "32 \<le> length buf" and "ReadU32 buf 0 = kMdmpSignature"
    and "rva = find_module_stream buf (ReadU32 buf 12) (unat (ReadU32 buf 8)) 0" and "rva \<noteq> 0"
    and "n = unat (ReadU32 buf (unat rva))" and "n \<le> 4096"
    and "well_laid_out buf (unat rva + 4) n" and "directory_apart buf (unat rva) n"
    and "elf_files_ok w" and "unwritable w path = None"
  shows "\<exists>w'. PatchMissingBuildIds path w = Some (OkStatus, w') \<and>
    PatchMissingBuildIds path w' = Some (OkStatus, w')"
proof -
  let ?first = "unat rva + 4"
  obtain b w' where w': "PatchMissingBuildIds path w = Some (OkStatus, w')" "read_file path w' = Some b"
      "unreadable w' = unreadable w" "read_fails w' = read_fails w" "\<And>p. p \<noteq> path \<Longrightarrow> lookup w' p = lookup w p"
    and off: "same_off (touched buf ?first n) buf b"
    and out: "\<forall>i<n. module_outcome w buf b (mod_at ?first i)"
    using patched_dump [OF assms(1-8,10,11)] by blast
  have len: "length b = length buf" using same_off_length [OF off] by simp
  have apart: "(directory_span buf \<union> span (unat rva) 4) \<inter> touched buf ?first n = {}"
    using touched_off_directory [OF assms(8,9)] .
  have dir: "directory_span buf \<subseteq> {..<length buf}" using assms(9) by (simp add: directory_apart_def)
  have fit: "unat rva + 4 + n * kModuleSize \<le> length buf" "length buf < 2 ^ 32"
    using assms(8) by (simp_all add: well_laid_out_def)
  have head: "ReadU32 b k = ReadU32 buf k" if "k + 4 \<le> 32" for k
  proof (rule sym, rule cells.rd_same_off [OF off])
    show "span k 4 \<inter> touched buf ?first n = {}"
      using that by (intro disjoint_subset [OF _ apart]) (auto simp: directory_span_def span_def)
  qed (use that assms(2) in simp)
  have count: "ReadU32 b (unat rva) = ReadU32 buf (unat rva)"
    using apart fit by (intro cells.rd_same_off [OF off, symmetric]) auto
  have rva: "find_module_stream b (ReadU32 b 12) (unat (ReadU32 b 8)) 0 = rva"
  proof -
    have "span (unat (ReadU32 buf 12)) (unat (ReadU32 buf 8) * kDirEntrySize) \<inter> touched buf ?first n = {}"
      by (intro disjoint_subset [OF _ apart]) (auto simp: directory_span_def)
    moreover have "span (unat (ReadU32 buf 12)) (unat (ReadU32 buf 8) * kDirEntrySize) \<subseteq> {..<length buf}"
      using dir by (auto simp: directory_span_def)
    ultimately show ?thesis
      using find_module_stream_same [OF off] head [of 8] head [of 12] by (simp flip: assms(4))
  qed
  have same_file: "read_file p w' = read_file p w" if "p \<noteq> path" for p
    by (simp only: read_file_def w'(3,4) w'(5) [OF that])
  have ids: "ComputeElfBuildId p w' = ComputeElfBuildId p w" for p
  proof (cases "p = path")
    case True
    have "elf_build_id b = Some []" "elf_build_id buf = Some []"
      using minidump_is_no_elf assms(3) head [of 0] by simp_all
    then show ?thesis using True assms(1) w'(2) len by (simp add: ComputeElfBuildId_def)
  qed (simp add: ComputeElfBuildId_def same_file)
  have "\<forall>i\<in>set [0..<n]. module_plan w' b (mod_at ?first i) = Some None"
    using outcome_is_final [OF assms(8) _ assms(10) off _ ids] out by simp
  then have "patch_modules w' ?first [0..<n] b = Some (b, [])" by (rule patch_modules_settled)
  moreover have "unat (rva + 4) = ?first" using fit unat_u32_add [of rva 4 "length buf"] by simp
  moreover have "\<not> ReadU32 buf (unat rva) > 4096" using assms(6,7) by (simp add: word_less_nat_alt)
  ultimately have "patch_buffer w' b = Some (b, [])"
    using fit len assms(5,6) by (simp add: patch_buffer_def Let_def rva count)
  then have "PatchMissingBuildIds path w' = Some (OkStatus, w')"
    using w'(2) can_open_read [OF w'(2)] len assms(2,3) head [of 0] by (simp add: PatchMissingBuildIds_def)
  then show ?thesis using w'(1) by blast
qed

theorem PatchMissingBuildIds_idempotent_witness:
  "\<exists>w'. PatchMissingBuildIds ''/d'' demo_world = Some (OkStatus, w') \<and>
    PatchMissingBuildIds ''/d'' w' = Some (OkStatus, w')"
proof -
  have rva: "44 = find_module_stream demo_dump (ReadU32 demo_dump 12) (unat (ReadU32 demo_dump 8)) 0"
    by (simp add: demo_cells, subst find_module_stream.simps) (simp add: layout_defs demo_cells)
  have n: "1 = unat (ReadU32 demo_dump (unat (44::u32)))" by (simp add: demo_cells)
  have lay: "well_laid_out demo_dump (unat (44::u32) + 4) 1" using demo_layout by simp
  have apart: "directory_apart demo_dump (unat (44::u32)) 1"
    by (simp add: directory_apart_def directory_span_def demo_cells mod_at_def demo_spans)
      (auto simp: span_def layout_defs)
  show ?thesis
    by (rule PatchMissingBuildIds_idempotent [OF demo_read(1) _ demo_cells(1) rva _ n _ lay apart demo_build_ids])
      (simp_all add: demo_world_def)
qed

end
