(* ===== verification/Crashpad_Layout.thy ===== *)
theory Crashpad_Layout
  imports Minidump_Reader
begin

text \<open>
  Minidumps as Crashpad lays them out, as far as annotations are concerned: where the
  process annotations are, wherever the streams, the dictionary and its strings lie. The
  annotations of such a dump are what \<^verbatim>\<open>daemon/tombstone/minidump_reader.cpp\<close> reads.
\<close>

section \<open>The layout\<close>

definition cell :: "bytes \<Rightarrow> nat \<Rightarrow> nat" where
  "cell buf off = le_nat (sub_bytes off 4 buf)"

definition holds :: "bytes \<Rightarrow> nat \<Rightarrow> bytes \<Rightarrow> bool" where
  "holds buf off xs = (off + length xs \<le> length buf \<and> sub_bytes off (length xs) buf = xs)"

text \<open>A string is its length, its bytes and a NUL; an entry is two offsets of strings.\<close>

definition str_cell :: "string \<Rightarrow> bytes" where
  "str_cell s = le_bytes 4 (length s) @ bytes_of s @ [0]"

definition string_at :: "bytes \<Rightarrow> nat \<Rightarrow> string \<Rightarrow> bool" where
  "string_at buf off s = (0 < off \<and> holds buf off (str_cell s))"

definition entry_at :: "bytes \<Rightarrow> nat \<Rightarrow> string \<times> string \<Rightarrow> bool" where
  "entry_at buf off e =
     (off + 8 \<le> length buf \<and> string_at buf (cell buf off) (fst e) \<and> string_at buf (cell buf (off + 4)) (snd e))"

text \<open>
  \<^verbatim>\<open>MinidumpSimpleStringDictionary\<close>: size and offset come from the \<^verbatim>\<open>simple_annotations\<close> of the info
  structure; both are 0 when there are no annotations.
\<close>

definition dictionary_at :: "bytes \<Rightarrow> nat \<Rightarrow> nat \<Rightarrow> (string \<times> string) list \<Rightarrow> bool" where
  "dictionary_at buf dict_size dict es =
     (if dict = 0 then es = []
      else dict + dict_size \<le> length buf \<and> 4 + 8 * length es \<le> dict_size \<and> cell buf dict = length es \<and>
        (\<forall>i<length es. entry_at buf (dict + 4 + 8 * i) (es ! i)))"

text \<open>\<^verbatim>\<open>MinidumpCrashpadInfo\<close>, version 1, with its process annotations.\<close>

definition info_at :: "bytes \<Rightarrow> nat \<Rightarrow> (string \<times> string) list \<Rightarrow> bool" where
  "info_at buf info es =
     (0 < info \<and> info + 44 \<le> length buf \<and> cell buf info = 1 \<and>
      dictionary_at buf (cell buf (info + 36)) (cell buf (info + 40)) es)"

text \<open>The header, the stream directory, and in it the first stream of Crashpad's type.\<close>

definition crashpad_dump :: "bytes \<Rightarrow> (string \<times> string) list \<Rightarrow> bool" where
  "crashpad_dump buf es =
     (32 \<le> length buf \<and> length buf < 2 ^ 32 \<and> cell buf 0 = 0x504d444d \<and>
      (let n = cell buf 8; dir = cell buf 12 in
       dir + 12 * n \<le> length buf \<and>
       (\<exists>k<n. (\<forall>j<k. cell buf (dir + 12 * j) \<noteq> 0x43500007) \<and> cell buf (dir + 12 * k) = 0x43500007 \<and>
          info_at buf (cell buf (dir + 12 * k + 8)) es)))"

section \<open>Cells as the reader sees them\<close>

lemma cell_bound: "off + 4 \<le> length buf \<Longrightarrow> cell buf off < 2 ^ 32"
  using le_nat_bound [of "sub_bytes off 4 buf"] by (simp add: cell_def sub_bytes_def)

lemma ReadU32Le_cell:
  assumes "off + 4 \<le> length buf"
  shows "ReadU32Le buf off = word_of_nat (cell buf off)" and "unat (ReadU32Le buf off) = cell buf off"
proof -
  show r: "ReadU32Le buf off = word_of_nat (cell buf off)"
    using assms by (simp add: ReadU32Le_def cell_def)
  show "unat (ReadU32Le buf off) = cell buf off"
    unfolding r using cell_bound [OF assms] by (intro unat_of_nat_small) simp
qed

lemma ReadU32Le_eq_iff:
  assumes "off + 4 \<le> length buf"
  shows "ReadU32Le buf off = v \<longleftrightarrow> cell buf off = unat v"
  using ReadU32Le_cell(2) [OF assms] by (simp add: word_unat_eq_iff)

lemma holds_split: "holds buf off xs \<Longrightarrow> buf = take off buf @ xs @ drop (off + length xs) buf"
  unfolding holds_def sub_bytes_def by (metis append_take_drop_id drop_drop add.commute)

lemma holds_append: "buf = a @ xs @ b \<Longrightarrow> off = length a \<Longrightarrow> holds buf off xs"
  by (simp add: holds_def sub_bytes_def)

lemma holds_cell: "holds buf off (le_bytes 4 v) \<Longrightarrow> v < 2 ^ 32 \<Longrightarrow> cell buf off = v"
  by (simp add: holds_def cell_def le_nat_le_bytes)

lemma ReadUtf8Str_at:
  assumes "string_at buf (unat rva) s" and "length buf < 2 ^ 32"
  shows "ReadUtf8Str buf rva = s"
proof -
  have len: "unat rva + 4 + length s + 1 \<le> length buf" and pos: "0 < unat rva"
    and sub: "sub_bytes (unat rva) (4 + length s + 1) buf = str_cell s"
    using assms(1) by (simp_all add: string_at_def holds_def str_cell_def)
  have r4: "unat (rva + 4) = unat rva + 4" using unat_u32_add [of rva 4 "length buf"] len assms(2) by simp
  have "sub_bytes (unat rva) 4 buf = take 4 (str_cell s)"
    unfolding sub [symmetric] by (simp add: sub_bytes_def)
  then have "cell buf (unat rva) = length s"
    using len assms(2) by (simp add: cell_def str_cell_def le_nat_le_bytes)
  then have rd: "ReadU32Le buf (unat rva) = word_of_nat (length s)"
    using ReadU32Le_cell(1) [of "unat rva" buf] len by simp
  have us: "unat (word_of_nat (length s) :: u32) = length s"
    using len assms(2) by (intro unat_of_nat_small) simp
  have sum: "unat (rva + 4 + word_of_nat (length s)) = unat rva + 4 + length s"
    using unat_u32_add [of "rva + 4" "length s" "length buf"] r4 len assms(2) by simp
  have "sub_bytes (unat rva + 4) (length s) buf = take (length s) (drop 4 (str_cell s))"
    unfolding sub [symmetric] by (simp add: sub_bytes_def take_drop add.commute)
  then have chars: "sub_bytes (unat rva + 4) (length s) buf = bytes_of s" by (simp add: str_cell_def)
  show ?thesis
  proof (cases "s = []")
    case True
    then show ?thesis using rd by (simp add: ReadUtf8Str_def)
  next
    case False
    then have "(word_of_nat (length s) :: u32) \<noteq> 0" using us by (metis length_0_conv unat_0)
    moreover have "rva \<noteq> 0" using pos by auto
    ultimately show ?thesis using len r4 rd us sum chars by (simp add: ReadUtf8Str_def Let_def)
  qed
qed

section \<open>The search for the stream\<close>

lemma stride_offset:
  assumes "unat (p :: u32) + k * i + m \<le> n" and "n < 2 ^ 32"
  shows "unat (p + word_of_nat i * word_of_nat k + word_of_nat m) = unat p + k * i + m"
proof -
  have "p + word_of_nat i * word_of_nat k + word_of_nat m = p + word_of_nat (k * i + m)"
    by (simp add: algebra_simps)
  moreover have "unat (p + word_of_nat (k * i + m)) = unat p + (k * i + m)"
    using assms by (intro unat_u32_add [of _ _ n]) simp_all
  ultimately show ?thesis by (simp only: add.assoc)
qed

lemma find_crashpad_stream_at:
  assumes "length buf < 2 ^ 32" and "unat dir + 12 * n \<le> length buf" and "k < n" and "i \<le> k"
    and "\<forall>j<k. cell buf (unat dir + 12 * j) \<noteq> 0x43500007" and "cell buf (unat dir + 12 * k) = 0x43500007"
  shows "find_crashpad_stream buf dir n i = ReadU32Le buf (unat dir + 12 * k + 8)"
  using assms(4)
proof (induction "k - i" arbitrary: i)
  case (0 i)
  then have i: "i = k" by simp
  have o: "unat (dir + word_of_nat k * 12 + word_of_nat m) = unat dir + 12 * k + m" if "m \<le> 12" for m
    using that assms(1-3) stride_offset [of dir 12 k m "length buf"] by simp
  note o' = o [of 0, simplified] o [of 8, simplified] o [of 12, simplified]
  have "ReadU32Le buf (unat dir + 12 * k) = kCrashpadInfoType"
    using assms(2,3,6) by (subst ReadU32Le_eq_iff) (simp_all add: kCrashpadInfoType_def)
  then show ?case using i assms(2,3) by (subst find_crashpad_stream.simps) (simp add: Let_def o')
next
  case (Suc d i)
  then have i: "i < k" by simp
  have o: "unat (dir + word_of_nat i * 12 + word_of_nat m) = unat dir + 12 * i + m" if "m \<le> 12" for m
    using that assms(1-3) i stride_offset [of dir 12 i m "length buf"] by simp
  note o' = o [of 0, simplified] o [of 12, simplified]
  have "ReadU32Le buf (unat dir + 12 * i) \<noteq> kCrashpadInfoType"
    using assms(2,3,5) i by (subst ReadU32Le_eq_iff) (simp_all add: kCrashpadInfoType_def)
  moreover have "find_crashpad_stream buf dir n (Suc i) = ReadU32Le buf (unat dir + 12 * k + 8)"
    using Suc.hyps i by simp
  ultimately show ?case using i assms(2,3) by (subst find_crashpad_stream.simps) (simp add: Let_def o')
qed

section \<open>The dictionary\<close>

lemma entry_read:
  fixes dict :: u32
  assumes "length buf < 2 ^ 32" and "unat dict + 4 + 8 * i + 8 \<le> length buf"
    and "entry_at buf (unat dict + 4 + 8 * i) e"
  defines "off \<equiv> dict + 4 + word_of_nat i * 8"
  shows "unat (off + 8) \<le> length buf" and "ReadUtf8Str buf (ReadU32Le buf (unat off)) = fst e"
    and "ReadUtf8Str buf (ReadU32Le buf (unat (off + 4))) = snd e"
proof -
  have o: "unat (off + word_of_nat m) = unat dict + 4 + 8 * i + m" if "m \<le> 8" for m
  proof -
    have eq: "off + word_of_nat m = dict + word_of_nat i * word_of_nat 8 + word_of_nat (4 + m)"
      by (simp add: off_def algebra_simps)
    have "unat (dict + word_of_nat i * word_of_nat 8 + word_of_nat (4 + m)) = unat dict + 8 * i + (4 + m)"
      using that assms(1,2) by (intro stride_offset [of dict 8 i "4 + m" "length buf"]) simp_all
    then show ?thesis unfolding eq by (rule trans) simp
  qed
  note o' = o [of 0, simplified] o [of 4, simplified] o [of 8, simplified]
  show "unat (off + 8) \<le> length buf" using o'(3) assms(2) by simp
  have "unat (ReadU32Le buf (unat off)) = cell buf (unat dict + 4 + 8 * i)"
    "unat (ReadU32Le buf (unat (off + 4))) = cell buf (unat dict + 4 + 8 * i + 4)"
    using assms(2) by (simp_all add: o'(1,2) ReadU32Le_cell(2))
  then show "ReadUtf8Str buf (ReadU32Le buf (unat off)) = fst e"
    "ReadUtf8Str buf (ReadU32Le buf (unat (off + 4))) = snd e"
    using assms(1,3) by (auto simp: entry_at_def intro!: ReadUtf8Str_at)
qed

lemma read_annotations_at:
  assumes "length buf < 2 ^ 32" and "unat dict + 4 + 8 * length es \<le> length buf" and "i \<le> length es"
    and "\<forall>i<length es. entry_at buf (unat dict + 4 + 8 * i) (es ! i)"
  shows "read_annotations buf dict (length es) i info = fold (\<lambda>(k, v). store_annotation k v) (drop i es) info"
  using assms(3)
proof (induction "length es - i" arbitrary: i info)
  case 0
  then show ?case by (subst read_annotations.simps) simp
next
  case (Suc d)
  then have i: "i < length es" by simp
  then have "unat dict + 4 + 8 * i + 8 \<le> length buf" using assms(2) by linarith
  note e = entry_read [OF assms(1) this assms(4) [rule_format, OF i]]
  have "drop i es = es ! i # drop (Suc i) es" using i by (simp add: Cons_nth_drop_Suc)
  moreover have "d = length es - Suc i" using Suc.hyps(2) by simp
  ultimately show ?case
    using Suc.hyps(1) [of "Suc i"] i e by (subst read_annotations.simps) (simp add: Let_def case_prod_beta)
qed

text \<open>What the stored entries come to: for each of the two keys the last value, if there is one.\<close>

definition last_value :: "string \<Rightarrow> (string \<times> string) list \<Rightarrow> string \<Rightarrow> string" where
  "last_value k es d = (case map_of (rev es) k of Some v \<Rightarrow> v | None \<Rightarrow> d)"

lemma last_value_simps [simp]:
  "last_value k [] d = d"
  "last_value k (e # es) d = last_value k es (if fst e = k then snd e else d)"
  by (simp_all add: last_value_def map_add_def split: option.split)

lemma last_value_other: "k \<notin> fst ` set es \<Longrightarrow> last_value k es d = d"
  by (induction es arbitrary: d) auto

lemma last_value_map_of: "distinct (map fst es) \<Longrightarrow> last_value k es d = (case map_of es k of Some v \<Rightarrow> v | None \<Rightarrow> d)"
proof (induction es arbitrary: d)
  case (Cons e es)
  then show ?case by (cases e) (auto simp: last_value_other)
qed simp

lemma fold_store_annotation:
  "fold (\<lambda>(k, v). store_annotation k v) es info =
    info\<lparr>abort_message := last_value ''abort_message'' es (abort_message info),
      terminate_type := last_value ''terminate_type'' es (terminate_type info)\<rparr>"
  by (induction es arbitrary: info) (auto simp: store_annotation_def)

lemma annotations_read_back:
  assumes "read_file p w = Some buf" and "crashpad_dump buf es"
  shows "ExtractCrashpadAnnotations p w info =
    info\<lparr>abort_message := last_value ''abort_message'' es (abort_message info),
      terminate_type := last_value ''terminate_type'' es (terminate_type info)\<rparr>"
proof -
  define n where "n = cell buf 8"
  define dir where "dir = cell buf 12"
  obtain k where len: "32 \<le> length buf" "length buf < 2 ^ 32" "dir + 12 * n \<le> length buf"
    and sig: "cell buf 0 = 0x504d444d" and k: "k < n" "\<forall>j<k. cell buf (dir + 12 * j) \<noteq> 0x43500007"
      "cell buf (dir + 12 * k) = 0x43500007"
    and info_at: "info_at buf (cell buf (dir + 12 * k + 8)) es"
    using assms(2) by (auto simp: crashpad_dump_def Let_def n_def dir_def)
  define i where "i = cell buf (dir + 12 * k + 8)"
  have head: "ReadU32Le buf 0 = 0x504d444d" "unat (ReadU32Le buf 8) = n" "unat (ReadU32Le buf 12) = dir"
    using len sig by (simp_all add: ReadU32Le_eq_iff ReadU32Le_cell(2) n_def dir_def)
  have "dir + 12 * k + 12 \<le> length buf" using k(1) len(3) by linarith
  then have i: "unat (ReadU32Le buf (dir + 12 * k + 8)) = i" by (simp add: ReadU32Le_cell(2) i_def)
  define st where "st = find_crashpad_stream buf (ReadU32Le buf 12) n 0"
  have st: "unat st = i"
    using find_crashpad_stream_at [of buf "ReadU32Le buf 12" n k 0] len k head(3) i by (simp add: st_def)
  have info: "0 < i" "i + 44 \<le> length buf" "cell buf i = 1"
    "dictionary_at buf (cell buf (i + 36)) (cell buf (i + 40)) es"
    using info_at by (simp_all add: info_at_def i_def)
  have st_off: "unat (st + 44) = i + 44" "unat (st + 36) = i + 36" "unat (st + 40) = i + 40"
    using st info(2) len(2) unat_u32_add [of st 44 "length buf"] unat_u32_add [of st 36 "length buf"]
      unat_u32_add [of st 40 "length buf"] by simp_all
  define sz where "sz = ReadU32Le buf (i + 36)"
  define dict where "dict = ReadU32Le buf (i + 40)"
  have cells: "unat sz = cell buf (i + 36)" "unat dict = cell buf (i + 40)" "ReadU32Le buf i = 1"
    using info by (simp_all add: sz_def dict_def ReadU32Le_cell(2) ReadU32Le_eq_iff)
  have reads: "ExtractCrashpadAnnotations p w info =
      (if dict = 0 \<or> sz < 4 \<or> unat (dict + sz) > length buf then info
       else read_annotations buf dict (unat (ReadU32Le buf (unat dict))) 0 info)"
  proof -
    have "st \<noteq> 0" using st info(1) by auto
    then show ?thesis
      using assms(1) len(1) info(2) cells(3)
      by (simp add: ExtractCrashpadAnnotations_def Let_def head(1,2) st st_off
          flip: st_def sz_def dict_def)
  qed
  show ?thesis
  proof (cases "dict = 0")
    case True
    then have "es = []" using info(4) cells(2) by (simp add: dictionary_at_def flip: cells(2))
    then show ?thesis using reads True by simp
  next
    case False
    then have "unat dict \<noteq> 0" by (simp add: unat_eq_zero)
    then have d: "unat dict + unat sz \<le> length buf" "4 + 8 * length es \<le> unat sz"
      "cell buf (unat dict) = length es" "\<forall>i<length es. entry_at buf (unat dict + 4 + 8 * i) (es ! i)"
      using info(4) by (simp_all add: dictionary_at_def flip: cells(1,2))
    have "unat (dict + sz) = unat dict + unat sz"
      using d(1) len(2) by (subst unat_add_no_wrap) simp_all
    moreover have "\<not> sz < 4" using d(2) by (simp add: word_less_nat_alt)
    moreover have "unat (ReadU32Le buf (unat dict)) = length es" using d by (simp add: ReadU32Le_cell(2))
    ultimately have "ExtractCrashpadAnnotations p w info = read_annotations buf dict (length es) 0 info"
      using reads False d(1) by simp
    also have "\<dots> = fold (\<lambda>(k, v). store_annotation k v) es info"
      using read_annotations_at [OF len(2) _ _ d(4), of 0 info] d(1,2) by simp
    finally show ?thesis by (simp add: fold_store_annotation)
  qed
qed

text \<open>
  C10. From a minidump in Crashpad's layout the reader takes exactly the process annotations of the
  keys \<^verbatim>\<open>abort_message\<close> and \<^verbatim>\<open>terminate_type\<close>, the last value of each key, wherever in the dump
  the streams, the dictionary and the strings lie; no other field changes, and with neither
  key nothing does.
\<close>

theorem annotations_round_trip:
  assumes "read_file p w = Some buf" and "crashpad_dump buf es"
  shows "ExtractCrashpadAnnotations p w info =
    info\<lparr>abort_message := (case map_of (rev es) ''abort_message'' of Some v \<Rightarrow> v | None \<Rightarrow> abort_message info),
      terminate_type := (case map_of (rev es) ''terminate_type'' of Some v \<Rightarrow> v | None \<Rightarrow> terminate_type info)\<rparr>"
  using annotations_read_back [OF assms] by (simp add: last_value_def)

section \<open>Example dumps\<close>

text \<open>
  Dumps with two streams, the second one Crashpad's, the dictionary behind the info structure
  and the strings behind the dictionary; \<open>base\<close> is the offset of the first string.
\<close>

definition dict_strings :: "(string \<times> string) list \<Rightarrow> bytes" where
  "dict_strings es = concat (map (\<lambda>(k, v). str_cell k @ str_cell v) es)"

definition dict_entry :: "nat \<Rightarrow> (string \<times> string) list \<Rightarrow> nat \<Rightarrow> bytes" where
  "dict_entry base es i =
     (let r = base + length (dict_strings (take i es)) in
      le_bytes 4 r @ le_bytes 4 (r + length (str_cell (fst (es ! i)))))"

definition example_head :: "nat \<Rightarrow> bytes" where
  "example_head n =
     le_bytes 4 0x504d444d @ le_bytes 4 0xa793 @ le_bytes 4 2 @ le_bytes 4 32 @ replicate 16 0 @
     le_bytes 4 15 @ le_bytes 4 8 @ le_bytes 4 56 @ le_bytes 4 0x43500007 @ le_bytes 4 44 @ le_bytes 4 64 @
     replicate 8 7 @ le_bytes 4 1 @ replicate 32 0 @ le_bytes 4 (4 + 8 * n) @ le_bytes 4 108"

definition example_dump :: "(string \<times> string) list \<Rightarrow> bytes" where
  "example_dump es =
     example_head (length es) @ le_bytes 4 (length es) @
     concat (map (dict_entry (112 + 8 * length es) es) [0..<length es]) @ dict_strings es"

lemma length_head [simp]: "length (example_head n) = 108"
  by (simp add: example_head_def)

lemma length_entry [simp]: "length (dict_entry base es i) = 8"
  by (simp add: dict_entry_def Let_def)

lemma length_entries [simp]: "length (concat (map (dict_entry base es) is)) = 8 * length is"
  by (induction "is") (simp_all add: dict_entry_def Let_def)

lemma dict_strings_split:
  assumes "i < length es"
  shows "dict_strings es = dict_strings (take i es) @ str_cell (fst (es ! i)) @ str_cell (snd (es ! i)) @
    dict_strings (drop (Suc i) es)"
proof -
  have "es = take i es @ (fst (es ! i), snd (es ! i)) # drop (Suc i) es"
    using assms by (simp add: id_take_nth_drop)
  then have "dict_strings es = dict_strings (take i es @ (fst (es ! i), snd (es ! i)) # drop (Suc i) es)"
    by (rule arg_cong)
  then show ?thesis by (simp add: dict_strings_def case_prod_beta)
qed

lemma entries_split:
  assumes "i < n"
  shows "concat (map f [0..<n]) = concat (map f [0..<i]) @ f i @ concat (map f [Suc i..<n])"
proof -
  have "[0..<n] = [0..<i] @ i # [Suc i..<n]"
    using assms by (metis le0 less_imp_le_nat upt_add_eq_append upt_conv_Cons le_add_diff_inverse)
  then show ?thesis by simp
qed

lemma cell_at: "buf = a @ le_bytes 4 v @ b \<Longrightarrow> off = length a \<Longrightarrow> v < 2 ^ 32 \<Longrightarrow> cell buf off = v"
  using holds_cell [OF holds_append] by blast

lemma example_entry:
  assumes "length (example_dump es) < 2 ^ 32" and "i < length es"
  shows "entry_at (example_dump es) (112 + 8 * i) (es ! i)"
proof -
  let ?n = "length es" and ?e = "dict_entry (112 + 8 * length es) es" and ?buf = "example_dump es"
  define pre where "pre = example_head ?n @ le_bytes 4 ?n @ concat (map ?e [0..<i])"
  define post where "post = concat (map ?e [Suc i..<?n])"
  define r where "r = 112 + 8 * ?n + length (dict_strings (take i es))"
  define r' where "r' = r + length (str_cell (fst (es ! i)))"
  define a where "a = pre @ ?e i @ post @ dict_strings (take i es)"
  define z where "z = dict_strings (drop (Suc i) es)"
  have buf: "?buf = pre @ ?e i @ post @ dict_strings es"
    using entries_split [OF assms(2), of ?e] by (simp add: example_dump_def pre_def post_def)
  have lpre: "length pre = 112 + 8 * i" by (simp add: pre_def)
  have entry: "?e i = le_bytes 4 r @ le_bytes 4 r'" by (simp add: dict_entry_def r_def r'_def Let_def)
  have strs: "?buf = a @ str_cell (fst (es ! i)) @ str_cell (snd (es ! i)) @ z"
    using buf dict_strings_split [OF assms(2)] by (simp add: a_def z_def)
  have la: "length a = r" using assms(2) by (simp add: a_def r_def lpre entry post_def)
  have "r \<le> length ?buf" "r' \<le> length ?buf" using strs la by (simp_all add: r'_def)
  then have small: "r < 2 ^ 32" "r' < 2 ^ 32" using assms(1) by simp_all
  have cells: "cell ?buf (112 + 8 * i) = r" "cell ?buf (112 + 8 * i + 4) = r'"
    using small
    by (intro cell_at [of _ pre _ "le_bytes 4 r' @ post @ dict_strings es"]
          cell_at [of _ "pre @ le_bytes 4 r" _ "post @ dict_strings es"]; simp add: buf entry lpre)+
  have "holds ?buf r (str_cell (fst (es ! i)))" using strs by (rule holds_append) (simp add: la)
  moreover have "?buf = (a @ str_cell (fst (es ! i))) @ str_cell (snd (es ! i)) @ z" using strs by simp
  then have "holds ?buf r' (str_cell (snd (es ! i)))" by (rule holds_append) (simp add: la r'_def)
  moreover have "112 + 8 * i + 8 \<le> length ?buf" by (simp add: buf entry lpre)
  moreover have "0 < r" "0 < r'" by (simp_all add: r_def r'_def)
  ultimately show ?thesis unfolding entry_at_def string_at_def cells by simp
qed

lemma example_layout:
  assumes "length (example_dump es) < 2 ^ 32"
  shows "crashpad_dump (example_dump es) es"
proof -
  let ?buf = "example_dump es" and ?n = "length es"
  define rest where "rest = concat (map (dict_entry (112 + 8 * ?n) es) [0..<?n]) @ dict_strings es"
  have b: "?buf = example_head ?n @ le_bytes 4 ?n @ rest" by (simp add: example_dump_def rest_def)
  have n: "4 + 8 * ?n < 2 ^ 32" using assms by (simp add: example_dump_def)
  note h = b [unfolded example_head_def]
  have at: "cell ?buf k = v" if "take 4 (drop k ?buf) = le_bytes 4 v" "v < 2 ^ 32" for k v
    using that by (simp add: cell_def sub_bytes_def le_nat_le_bytes)
  have c: "cell ?buf 0 = 0x504d444d" "cell ?buf 8 = 2" "cell ?buf 12 = 32" "cell ?buf 32 = 15"
    "cell ?buf 44 = 0x43500007" "cell ?buf 52 = 64" "cell ?buf 64 = 1" "cell ?buf 104 = 108"
    by (rule at, simp add: h, simp)+
  have c': "cell ?buf 100 = 4 + 8 * ?n" "cell ?buf 108 = ?n"
    by (rule at, simp add: h, use n in simp)+
  have len: "112 + 8 * ?n \<le> length ?buf" by (simp add: example_dump_def)
  have "dictionary_at ?buf (4 + 8 * ?n) 108 es"
    using len c' example_entry [OF assms] by (simp add: dictionary_at_def)
  then have "info_at ?buf 64 es" using len c c' by (simp add: info_at_def)
  then show ?thesis
    unfolding crashpad_dump_def Let_def using assms len c by (intro conjI exI [of _ 1]) auto
qed

definition annotated_world :: "(string \<times> string) list \<Rightarrow> world" where
  "annotated_world es = \<lparr>nodes = [(''/d'', Regular (example_dump es) 0)], unreadable = (\<lambda>_. None),
     undeletable = (\<lambda>_. None), read_fails = (\<lambda>_. False), unwritable = (\<lambda>_. None), wall_clock = 0,
     steady_clock = 0, out = [], log = []\<rparr>"

lemma annotated_world_read [simp]: "read_file ''/d'' (annotated_world es) = Some (example_dump es)"
  by (simp add: read_file_def lookup_def annotated_world_def)

theorem annotations_round_trip_witness:
  "ExtractCrashpadAnnotations ''/d''
     (annotated_world [(''abort_message'', ''old''), (''tag'', ''x''), (''abort_message'', ''boom''), (''terminate_type'', ''E'')])
     empty_info
   = empty_info\<lparr>abort_message := ''boom'', terminate_type := ''E''\<rparr>"
proof -
  let ?es = "[(''abort_message'', ''old''), (''tag'', ''x''), (''abort_message'', ''boom''), (''terminate_type'', ''E'')]"
  have "length (example_dump ?es) < 2 ^ 32"
    by (simp add: example_dump_def dict_strings_def str_cell_def)
  from annotations_round_trip [OF annotated_world_read example_layout [OF this], of empty_info]
  show ?thesis by simp
qed

end
