(* ===== verification/Crash_Annotations.thy ===== *)
theory Crash_Annotations
  imports Client "HOL-Library.AList"
begin

text \<open>
  What the client library has recorded when a process crashes: the entries of Crashpad's
  dictionary after an unhandled exception or a failed assertion.
\<close>

section \<open>The dictionary\<close>

text \<open>
  Crashpad's \<^verbatim>\<open>SimpleStringDictionary\<close> as its header documents it: entries with distinct
  keys, at most 64 of them, keys and values cut to 255 characters, a key set again
  overwritten. \<open>entries\<close> lists what ends up in the minidump.
\<close>

definition dictionary_law :: "('d \<Rightarrow> string \<Rightarrow> string \<Rightarrow> 'd) \<Rightarrow> ('d \<Rightarrow> (string \<times> string) list) \<Rightarrow> bool" where
  "dictionary_law set_key_value entries =
     (\<forall>d k v. length (entries d) < 64 \<and> distinct (map fst (entries d)) \<longrightarrow>
        length (entries (set_key_value d k v)) \<le> Suc (length (entries d)) \<and>
        distinct (map fst (entries (set_key_value d k v))) \<and>
        map_of (entries (set_key_value d k v)) = (map_of (entries d))(take 255 k \<mapsto> take 255 v))"

lemma dictionary_lawD:
  assumes "dictionary_law set_key_value entries" and "length (entries d) < 64" and "distinct (map fst (entries d))"
  shows "length (entries (set_key_value d k v)) \<le> Suc (length (entries d))"
    and "distinct (map fst (entries (set_key_value d k v)))"
    and "map_of (entries (set_key_value d k v)) = (map_of (entries d))(take 255 k \<mapsto> take 255 v)"
  using assms by (simp_all add: dictionary_law_def)

text \<open>Several keys set in a row, as long as the dictionary has room for them.\<close>

definition set_all :: "('d \<Rightarrow> string \<Rightarrow> string \<Rightarrow> 'd) \<Rightarrow> (string \<times> string) list \<Rightarrow> 'd \<Rightarrow> 'd" where
  "set_all set_key_value kvs d = fold (\<lambda>(k, v) d. set_key_value d k v) kvs d"

lemma set_all_simps [simp]:
  "set_all set_key_value [] d = d"
  "set_all set_key_value ((k, v) # kvs) d = set_all set_key_value kvs (set_key_value d k v)"
  by (simp_all add: set_all_def)

lemma set_all_entries:
  assumes "dictionary_law set_key_value entries"
    and "length (entries d) + length kvs \<le> 64" and "distinct (map fst (entries d))"
  shows "distinct (map fst (entries (set_all set_key_value kvs d))) \<and>
    map_of (entries (set_all set_key_value kvs d)) =
      fold (\<lambda>(k, v) m. m(take 255 k \<mapsto> take 255 v)) kvs (map_of (entries d))"
  using assms(2,3)
proof (induction kvs arbitrary: d)
  case (Cons kv kvs)
  obtain k v where kv: "kv = (k, v)" by (cases kv)
  have room: "length (entries d) < 64" using Cons.prems(1) by simp
  note one = dictionary_lawD [OF assms(1) room Cons.prems(2), of k v]
  have "length (entries (set_key_value d k v)) + length kvs \<le> 64" using one(1) Cons.prems(1) by simp
  from Cons.IH [OF this one(2)] show ?case by (simp add: kv one(3))
qed simp

definition simple_set :: "(string \<times> string) list \<Rightarrow> string \<Rightarrow> string \<Rightarrow> (string \<times> string) list" where
  "simple_set d k v = AList.update (take 255 k) (take 255 v) d"

lemma simple_set_law: "dictionary_law simple_set (\<lambda>d. d)"
proof -
  have "length (AList.update k v d) \<le> Suc (length d)" for k v and d :: "(string \<times> string) list"
    by (induction d) auto
  then show ?thesis by (simp add: dictionary_law_def simple_set_def update_conv' distinct_update)
qed

section \<open>A process that ends\<close>

lemma tag_recorded:
  assumes "simple_annotations s = Some r"
  shows "crashomon_set_tag set_key_value (Some k) (Some v) s =
    s\<lparr>dictionaries := (dictionaries s)(r := set_key_value (dictionaries s r) k v)\<rparr>"
  using assms by (simp add: crashomon_set_tag_def)

text \<open>How a process can end, and what is to be on record of it.\<close>

datatype fatal_end = Unhandled current_exception |
  Failed_Assertion (failed: "string option") (in_file: "string option") (at_line: u32) (in_function: "string option")

definition last_words :: "('d \<Rightarrow> string \<Rightarrow> string \<Rightarrow> 'd) \<Rightarrow> (string \<Rightarrow> int \<times> string option) \<Rightarrow> fatal_end \<Rightarrow> 'd client \<Rightarrow> 'd client" where
  "last_words set_key_value demangle e s =
     (case e of
        Unhandled cur \<Rightarrow> terminate_handler set_key_value demangle cur s
      | Failed_Assertion a f l fn \<Rightarrow> assert_fail set_key_value a f l fn s)"

definition type_text :: "(string \<Rightarrow> int \<times> string option) \<Rightarrow> string \<Rightarrow> string" where
  "type_text demangle nm =
     (if fst (demangle nm) = 0 \<and> snd (demangle nm) \<noteq> None then the (snd (demangle nm)) else nm)"

definition on_record :: "(string \<Rightarrow> int \<times> string option) \<Rightarrow> fatal_end \<Rightarrow> (string \<times> string) list" where
  "on_record demangle e =
     (case e of
        Unhandled No_Exception \<Rightarrow> [(''abort_message'', ''terminate called without active exception'')]
      | Unhandled (Std_Exception nm w) \<Rightarrow> [(''terminate_type'', take 255 (type_text demangle nm)),
          (''abort_message'', if w = [] then ''unhandled C++ exception'' else take 255 w)]
      | Unhandled (Other_Exception nm) \<Rightarrow> [(''terminate_type'', take 255 (type_text demangle nm)),
          (''abort_message'', ''unhandled C++ exception'')]
      | Failed_Assertion a f l fn \<Rightarrow> [(''abort_message'', take 255 (assert_text a f l fn))])"

text \<open>The entries that are set, before the dictionary cuts them.\<close>

definition entries_set :: "(string \<Rightarrow> int \<times> string option) \<Rightarrow> fatal_end \<Rightarrow> (string \<times> string) list" where
  "entries_set demangle e =
     (case e of
        Unhandled No_Exception \<Rightarrow> [(''abort_message'', ''terminate called without active exception'')]
      | Unhandled (Std_Exception nm w) \<Rightarrow> [(''terminate_type'', type_text demangle nm),
          (''abort_message'', if w = [] then ''unhandled C++ exception'' else take 511 w)]
      | Unhandled (Other_Exception nm) \<Rightarrow> [(''terminate_type'', type_text demangle nm),
          (''abort_message'', ''unhandled C++ exception'')]
      | Failed_Assertion a f l fn \<Rightarrow> [(''abort_message'', take 511 (assert_text a f l fn))])"

lemma demangled_type_text: "demangled_name demangle nm = type_text demangle nm"
  by (cases "demangle nm") (auto simp: demangled_name_def type_text_def split: option.split)

lemma last_words_entries:
  assumes "simple_annotations s = Some r"
  shows "last_words set_key_value demangle e s =
    s\<lparr>dictionaries := (dictionaries s)(r := set_all set_key_value (entries_set demangle e) (dictionaries s r))\<rparr>"
proof (cases e)
  case (Unhandled cur)
  have "(case Some (take 511 w) of Some (c # cs) \<Rightarrow> c # cs | _ \<Rightarrow> ''unhandled C++ exception'') =
      (if w = [] then ''unhandled C++ exception'' else take 511 w)" for w
    by (cases w) simp_all
  then show ?thesis
    using assms Unhandled
    by (cases cur) (simp_all add: last_words_def terminate_handler_def WriteTerminateAnnotation_def
      CaptureCurrentExceptionMessage_def cxa_current_exception_type_def demangled_type_text truncate_to_def
      tag_recorded crashomon_set_abort_message_def entries_set_def)
next
  case (Failed_Assertion a f l fn)
  then show ?thesis
    using assms by (simp add: last_words_def assert_fail_def WriteAssertAnnotation_def truncate_to_def
      tag_recorded crashomon_set_abort_message_def entries_set_def)
qed

lemma entries_cut:
  "fold (\<lambda>(k, v) m. m(take 255 k \<mapsto> take 255 v)) (entries_set demangle e) m = m ++ map_of (on_record demangle e)"
  "length (entries_set demangle e) \<le> 2"
  by (auto simp: entries_set_def on_record_def fun_eq_iff map_add_def min_def split: fatal_end.split current_exception.split)



end
