(* ===== verification/Demo_Crasher.thy ===== *)
theory Demo_Crasher
  imports Crash_Annotations Tombstone_Formatter "HOL-Library.Stream"
begin

text \<open>
  The demonstration program \<^verbatim>\<open>demo/demo_crasher.cpp\<close>: a process with four threads, one of which
  runs into a null pointer while it processes its third record. It uses the client library
  and is what the daemon reports on in the demo.
\<close>

section \<open>Records and the process\<close>

text \<open>A null pointer is \<open>None\<close>; an output buffer is named by its address.\<close>

record Record =
  rec_key :: "string option"
  rec_value :: "string option"
  result_out :: "nat option"

definition kScoreMultiplier :: int where "kScoreMultiplier = 7"

text \<open>
  What ends the process: an access to an unmapped address, or signed arithmetic outside
  \<^verbatim>\<open>int\<close>, on which the language puts no bound.
\<close>

datatype fault = SIGSEGV (si_addr: u64) | Signed_Overflow

datatype blocking_call = Set_Name string | Sleep nat | Usleep nat

record process =
  memory :: "nat \<Rightarrow> int"
  std_out :: string
  std_err :: string
  processor_calls :: "blocking_call list"

definition int_value :: "int \<Rightarrow> fault + int" where
  "int_value v = (if int_range v then Inr v else Inl Signed_Overflow)"

definition print_out :: "string \<Rightarrow> process \<Rightarrow> process" where
  "print_out msg s = s\<lparr>std_out := std_out s @ msg\<rparr>"

section \<open>The stages of the pipeline\<close>

definition store_result :: "int \<Rightarrow> nat option \<Rightarrow> process \<Rightarrow> (fault + int) \<times> process" where
  "store_result score destination s =
     (case destination of
        None \<Rightarrow> (Inl (SIGSEGV 0), s)
      | Some a \<Rightarrow> (Inr score, s\<lparr>memory := (memory s)(a := score)\<rparr>))"

definition compute_score :: "Record \<Rightarrow> process \<Rightarrow> (fault + int) \<times> process" where
  "compute_score r s =
     (case (rec_key r, rec_value r) of
        (Some k, Some v) \<Rightarrow>
          (case int_value (long_to_int (int (length k + length v)) * kScoreMultiplier) of
             Inl e \<Rightarrow> (Inl e, s)
           | Inr score \<Rightarrow>
               (case store_result score (result_out r) s of
                  (Inl e, s1) \<Rightarrow> (Inl e, s1)
                | (Inr stored, s1) \<Rightarrow> (int_value (stored + 1), s1)))
      | _ \<Rightarrow> (Inl (SIGSEGV 0), s))"

definition invalid_record :: string where
  "invalid_record = ''invalid record: missing key or value'' @ newline"

definition validate_and_process :: "Record \<Rightarrow> process \<Rightarrow> (fault + int) \<times> process" where
  "validate_and_process r s =
     (if rec_key r = None \<or> rec_value r = None
      then (Inr (-1), s\<lparr>std_err := std_err s @ invalid_record\<rparr>)
      else (case compute_score r s of
              (Inl e, s1) \<Rightarrow> (Inl e, s1)
            | (Inr result, s1) \<Rightarrow> (int_value (result * 2), s1)))"

text \<open>\<^verbatim>\<open>printf\<close> of the GNU library prints a null string as \<^verbatim>\<open>(null)\<close>.\<close>

definition shown_key :: "Record \<Rightarrow> string" where
  "shown_key r = (case rec_key r of Some k \<Rightarrow> k | None \<Rightarrow> ''(null)'')"

definition progress_line :: "nat \<Rightarrow> Record \<Rightarrow> string" where
  "progress_line i r =
     ''  [processor] processing record '' @ show_dec (i + 1) @ '': key='' @ shown_key r @ newline"

fun run_records :: "nat \<Rightarrow> Record list \<Rightarrow> process \<Rightarrow> (fault + unit) \<times> process" where
  "run_records i [] s = (Inr (), s)"
| "run_records i (r # rs) s =
     (case validate_and_process r (print_out (progress_line i r) s) of
        (Inl e, s1) \<Rightarrow> (Inl e, s1)
      | (Inr _, s1) \<Rightarrow> run_records (Suc i) rs s1)"

text \<open>The array has at least \<open>count\<close> records.\<close>

definition run_pipeline :: "Record list \<Rightarrow> nat \<Rightarrow> process \<Rightarrow> (fault + unit) \<times> process" where
  "run_pipeline records count s = run_records 0 (take count records) s"

section \<open>The threads\<close>

text \<open>The background threads never end; they are the calls that they make.\<close>

definition logger_thread_fn :: "blocking_call stream" where
  "logger_thread_fn = Set_Name ''logger'' ## sconst (Sleep 1)"

definition monitor_thread_fn :: "blocking_call stream" where
  "monitor_thread_fn = Set_Name ''monitor'' ## sconst (Usleep 500000)"

text \<open>The local variables \<^verbatim>\<open>r1\<close> and \<^verbatim>\<open>r2\<close> have the addresses 0 and 1.\<close>

definition demo_records :: "Record list" where
  "demo_records =
    [\<lparr>rec_key = Some ''alpha'', rec_value = Some ''hello-world'', result_out = Some 0\<rparr>,
     \<lparr>rec_key = Some ''beta'', rec_value = Some ''crash-demo'', result_out = Some 1\<rparr>,
     \<lparr>rec_key = Some ''gamma'', rec_value = Some ''sentinel-value'', result_out = None\<rparr>]"

definition processor_thread_fn :: "process \<Rightarrow> (fault + unit) \<times> process" where
  "processor_thread_fn s =
     (let s1 = s\<lparr>processor_calls := processor_calls s @ [Set_Name ''processor'', Usleep 20000],
                 memory := (memory s)(0 := 0, 1 := 0)\<rparr> in
      run_pipeline demo_records (length demo_records) s1)"

definition demo_banner :: string where
  "demo_banner = ''crashomon demo: spawning logger, monitor, and processor threads'' @ newline"

definition demo_abort_message :: string where
  "demo_abort_message =
     ''null result_out in pipeline stage store_result: '' @ ''record 3 missing output buffer''"

text \<open>
  The program: the annotations, the banner, then the join of the processor. The other two
  threads share nothing with it. The result is the exit status, or what ended the process.
\<close>

definition demo_main ::
  "('d \<Rightarrow> string \<Rightarrow> string \<Rightarrow> 'd) \<Rightarrow> 'd client \<Rightarrow> process \<Rightarrow> (fault + int) \<times> 'd client \<times> process"
where
  "demo_main set_key_value c s =
     (let c1 = crashomon_set_tag set_key_value (Some ''component'') (Some ''demo-pipeline'') c;
          c2 = crashomon_set_tag set_key_value (Some ''version'') (Some ''1.0.0-demo'') c1;
          c3 = crashomon_set_tag set_key_value (Some ''threads'') (Some ''3'') c2;
          c4 = crashomon_set_abort_message set_key_value (Some demo_abort_message) c3;
          s1 = print_out demo_banner s in
      case processor_thread_fn s1 of
        (Inl e, s2) \<Rightarrow> (Inl e, c4, s2)
      | (Inr _, s2) \<Rightarrow> (Inr 0, c4, s2))"

section \<open>The first record without an output buffer\<close>

text \<open>The score of a record, and whether the arithmetic on it stays within \<^verbatim>\<open>int\<close>.\<close>

definition score :: "Record \<Rightarrow> int" where
  "score r = (case (rec_key r, rec_value r) of
     (Some k, Some v) \<Rightarrow> 7 * int (length k + length v) | _ \<Rightarrow> 0)"

definition valid :: "Record \<Rightarrow> bool" where
  "valid r = (rec_key r \<noteq> None \<and> rec_value r \<noteq> None)"

definition short :: "Record \<Rightarrow> bool" where
  "short r = (score r < 2 ^ 30 - 1)"

text \<open>What a record that does not stop the pipeline does to the process.\<close>

definition effect :: "Record \<Rightarrow> process \<Rightarrow> process" where
  "effect r s =
     (if \<not> valid r then s\<lparr>std_err := std_err s @ invalid_record\<rparr>
      else (case result_out r of None \<Rightarrow> s | Some a \<Rightarrow> s\<lparr>memory := (memory s)(a := score r)\<rparr>))"

definition completes :: "Record \<Rightarrow> bool" where
  "completes r = (\<not> valid r \<or> short r \<and> result_out r \<noteq> None)"

lemma compute_score_short:
  assumes "valid r" and "short r"
  shows "compute_score r s =
    (case result_out r of None \<Rightarrow> (Inl (SIGSEGV 0), s)
     | Some a \<Rightarrow> (Inr (score r + 1), s\<lparr>memory := (memory s)(a := score r)\<rparr>))"
proof -
  obtain k v where kv: "rec_key r = Some k" "rec_value r = Some v" using assms(1) by (auto simp: valid_def)
  let ?n = "int (length k + length v)"
  have s: "score r = 7 * ?n" using kv by (simp add: score_def)
  have n: "7 * ?n < 2 ^ 30 - 1" "0 \<le> ?n" using assms(2) s by (simp_all add: short_def)
  have "long_to_int ?n = ?n" unfolding long_to_int_def
    using n by (intro signed_take_bit_int_eq_self) simp_all
  moreover have "int_value (?n * 7) = Inr (7 * ?n)" "int_value (7 * ?n + 1) = Inr (7 * ?n + 1)"
    using n by (simp_all add: int_value_def int_range_def)
  ultimately show ?thesis
    by (simp add: compute_score_def kv kScoreMultiplier_def store_result_def s split: option.split)
qed

lemma validate_completes:
  assumes "completes r"
  shows "\<exists>v. validate_and_process r s = (Inr v, effect r s)"
proof (cases "valid r")
  case True
  then obtain a where a: "result_out r = Some a" "short r" using assms by (auto simp: completes_def)
  have "0 \<le> score r" by (simp add: score_def split: option.split)
  then have "int_value ((score r + 1) * 2) = Inr ((score r + 1) * 2)"
    using a(2) by (simp add: short_def int_value_def int_range_def)
  then show ?thesis using True a
    by (auto simp: validate_and_process_def compute_score_short effect_def) (auto simp: valid_def)
next
  case False
  then show ?thesis by (auto simp: validate_and_process_def effect_def valid_def)
qed

lemma validate_crashes:
  assumes "valid r" and "short r" and "result_out r = None"
  shows "validate_and_process r s = (Inl (SIGSEGV 0), s)"
  using assms by (simp add: validate_and_process_def compute_score_short) (simp add: valid_def)

text \<open>The run over the records before the crash, and what has been printed.\<close>

fun run_effects :: "nat \<Rightarrow> Record list \<Rightarrow> process \<Rightarrow> process" where
  "run_effects i [] s = s"
| "run_effects i (r # rs) s = run_effects (Suc i) rs (effect r (print_out (progress_line i r) s))"

lemma run_records_crash:
  assumes "\<forall>r\<in>set good. completes r" and "valid b" "short b" "result_out b = None"
  shows "run_records i (good @ b # rest) s =
    (Inl (SIGSEGV 0), print_out (progress_line (i + length good) b) (run_effects i good s))"
  using assms(1)
proof (induction good arbitrary: i s)
  case Nil
  then show ?case using assms(2-4) by (simp add: validate_crashes)
next
  case (Cons r good)
  then obtain v where "validate_and_process r (print_out (progress_line i r) s) =
      (Inr v, effect r (print_out (progress_line i r) s))"
    using validate_completes by (metis list.set_intros(1))
  with Cons show ?case by simp
qed

lemma run_records_ends:
  assumes "\<forall>r\<in>set rs. completes r"
  shows "run_records i rs s = (Inr (), run_effects i rs s)"
  using assms
proof (induction rs arbitrary: i s)
  case (Cons r rs)
  then obtain v where "validate_and_process r (print_out (progress_line i r) s) =
      (Inr v, effect r (print_out (progress_line i r) s))"
    using validate_completes by (metis list.set_intros(1))
  with Cons show ?case by simp
qed simp

section \<open>The crash of the demo\<close>

lemma set_tag_attached:
  assumes "simple_annotations s = Some r"
  shows "dictionaries (crashomon_set_tag set_key_value (Some k) (Some v) s) r = set_key_value (dictionaries s r) k v"
    and "simple_annotations (crashomon_set_tag set_key_value (Some k) (Some v) s) = Some r"
  using assms by (simp_all add: crashomon_set_tag_def)

definition demo_tags :: "(string \<times> string) list" where
  "demo_tags = [(''component'', ''demo-pipeline''), (''version'', ''1.0.0-demo''), (''threads'', ''3''),
     (''abort_message'', demo_abort_message)]"

definition demo_lines :: string where
  "demo_lines =
     ''  [processor] processing record 1: key=alpha'' @ newline @
     ''  [processor] processing record 2: key=beta'' @ newline @
     ''  [processor] processing record 3: key=gamma'' @ newline"

lemma show_dec_123:
  "show_dec (Suc 0) = ''1''" "show_dec (Suc (Suc 0)) = ''2''" "show_dec (Suc (Suc (Suc 0))) = ''3''"
  by (simp_all add: show_dec_def show_base.simps digit_char_def char_of_def bit_0)

text \<open>The name that a thread has given itself last.\<close>

definition own_name :: "blocking_call list \<Rightarrow> string" where
  "own_name calls = last ([] # [n. Set_Name n \<leftarrow> calls])"

lemma own_name_processor: "own_name (calls @ [Set_Name n, Usleep k]) = n"
  by (simp add: own_name_def)

lemma effects_calls [simp]: "processor_calls (run_effects i rs s) = processor_calls s"
  by (induction i rs s rule: run_effects.induct) (simp_all add: effect_def print_out_def split: option.split)

lemma processor_crashes:
  "\<exists>s'. processor_thread_fn s = (Inl (SIGSEGV 0), s') \<and> memory s' = (memory s)(0 := 112, 1 := 98) \<and>
     std_out s' = std_out s @ demo_lines \<and> own_name (processor_calls s') = ''processor''"
proof -
  let ?s = "s\<lparr>processor_calls := processor_calls s @ [Set_Name ''processor'', Usleep 20000],
      memory := (memory s)(0 := 0, 1 := 0)\<rparr>"
  let ?good = "take 2 demo_records" and ?b = "demo_records ! 2"
  let ?s' = "print_out (progress_line (0 + length ?good) ?b) (run_effects 0 ?good ?s)"
  have split: "?good @ ?b # [] = demo_records" by (simp add: demo_records_def)
  have "\<forall>r\<in>set ?good. completes r"
    by (simp add: demo_records_def completes_def valid_def short_def score_def)
  then have "run_records 0 (?good @ ?b # []) ?s = (Inl (SIGSEGV 0), ?s')"
    by (rule run_records_crash) (simp_all add: demo_records_def valid_def short_def score_def)
  then have "processor_thread_fn s = (Inl (SIGSEGV 0), ?s')"
    unfolding split by (simp add: processor_thread_fn_def run_pipeline_def)
  moreover have "memory ?s' = (memory s)(0 := 112, 1 := 98)"
    by (simp add: demo_records_def effect_def valid_def score_def print_out_def)
  moreover have "own_name (processor_calls ?s') = ''processor''"
    by (simp add: own_name_processor print_out_def)
  moreover have "std_out ?s' = std_out s @ demo_lines"
    by (simp add: demo_records_def effect_def valid_def print_out_def progress_line_def shown_key_def
        demo_lines_def show_dec_123)
  ultimately show ?thesis by blast
qed

lemma demo_crashes:
  assumes "demo_main set_key_value c s = (outcome, c', s')" and "simple_annotations c = Some r"
  shows "outcome = Inl (SIGSEGV 0)" and "memory s' = (memory s)(0 := 112, 1 := 98)"
    and "std_out s' = std_out s @ demo_banner @ demo_lines" and "own_name (processor_calls s') = ''processor''"
    and "dictionaries c' r = set_all set_key_value demo_tags (dictionaries c r)"
proof -
  obtain s1 where s1: "processor_thread_fn (print_out demo_banner s) = (Inl (SIGSEGV 0), s1)"
    "memory s1 = (memory (print_out demo_banner s))(0 := 112, 1 := 98)"
    "std_out s1 = std_out (print_out demo_banner s) @ demo_lines" "own_name (processor_calls s1) = ''processor''"
    using processor_crashes by blast
  have "outcome = Inl (SIGSEGV 0) \<and> s' = s1 \<and> dictionaries c' r = set_all set_key_value demo_tags (dictionaries c r)"
    using assms by (auto simp: demo_main_def Let_def s1(1) crashomon_set_abort_message_def set_tag_attached demo_tags_def)
  then show "outcome = Inl (SIGSEGV 0)" "memory s' = (memory s)(0 := 112, 1 := 98)"
    "std_out s' = std_out s @ demo_banner @ demo_lines" "own_name (processor_calls s') = ''processor''"
    "dictionaries c' r = set_all set_key_value demo_tags (dictionaries c r)"
    using s1 by (simp_all add: print_out_def)
qed

end
