(* ===== verification/Benchmarks.thy ===== *)
theory Benchmarks
  imports Tombstone_Formatter
begin

text \<open>
  The microbenchmarks of the tombstone code, \<^verbatim>\<open>bench/bench_tombstone_formatter.cpp\<close> and
  \<^verbatim>\<open>bench/bench_minidump_reader.cpp\<close>: the reports that they build, the search for the
  fixture, and what the loops compute. The number of iterations is the benchmark library's
  choice, an argument.
\<close>

section \<open>The reports\<close>

definition MakeFrame :: "int \<Rightarrow> FrameInfo" where
  "MakeFrame idx =
     \<lparr>pc = 0x555500000000 + word_of_int idx * 0x100, module_offset = word_of_int idx * 0x100,
      module_path = ''/usr/bin/bench_binary'', frame_build_id = ''aabbccdd00112233''\<rparr>"

definition MakeCrashingThread :: "int \<Rightarrow> ThreadInfo" where
  "MakeCrashingThread num_frames =
     \<lparr>tid = 1, thread_name = [], is_crashing = True,
      registers =
        [(''rax'', 0x0), (''rbx'', 0x1), (''rcx'', 0x2), (''rdx'', 0x3), (''rsi'', 0x4), (''rdi'', 0x5),
         (''rbp'', 0x6), (''rsp'', 0x7), (''r8'', 0x8), (''r9'', 0x9), (''r10'', 0xa), (''r11'', 0xb),
         (''r12'', 0xc), (''r13'', 0xd), (''r14'', 0xe), (''r15'', 0xf), (''rip'', 0x10)],
      frames = map MakeFrame [0..num_frames - 1]\<rparr>"

definition MakeNonCrashingThread :: "u32 \<Rightarrow> ThreadInfo" where
  "MakeNonCrashingThread i =
     \<lparr>tid = i, thread_name = [], is_crashing = False, registers = [], frames = [MakeFrame 0]\<rparr>"

definition MakeInfo :: "int \<Rightarrow> int \<Rightarrow> MinidumpInfo" where
  "MakeInfo num_threads frames_per_crashing_thread =
     empty_info\<lparr>pid := 1234, crashing_tid := 1, process_name := ''bench_binary'',
       signal_info := ''SIGSEGV / SEGV_MAPERR'', signal_number := 11, signal_code := 1,
       fault_addr := 0xdeadbeef00000000, timestamp := ''2025-01-01T00:00:00Z'',
       minidump_path := ''/var/crashomon/bench.dmp'',
       modules := [\<lparr>path = ''/usr/bin/bench_binary'', base_address = 0x555500000000, mod_size = 0x1000,
         build_id = ''AABBCCDD0''\<rparr>],
       threads := MakeCrashingThread frames_per_crashing_thread #
         map (\<lambda>i. MakeNonCrashingThread (word_of_int (i + 1))) [1..num_threads - 1]\<rparr>"

section \<open>The fixture\<close>

text \<open>Appending to a path that is not absolute, and the parent of a path without doubled slashes.\<close>

definition path_append :: "string \<Rightarrow> string \<Rightarrow> string" where
  "path_append a b = (if a = [] \<or> last a = CHR ''/'' then a @ b else a @ ''/'' @ b)"

definition parent_path :: "string \<Rightarrow> string" where
  "parent_path p =
     (if CHR ''/'' \<notin> set p then []
      else let q = rev (tl (dropWhile (\<lambda>c. c \<noteq> CHR ''/'') (rev p))) in if q = [] then ''/'' else q)"

text \<open>\<open>source_file\<close> is \<^verbatim>\<open>__FILE__\<close>; the empty string is ``not found''.\<close>

definition FindFixture :: "(string \<Rightarrow> string option) \<Rightarrow> (string \<Rightarrow> bool) \<Rightarrow> string \<Rightarrow> string" where
  "FindFixture getenv exists source_file =
     (let env_fixture = (case getenv ''CRASHOMON_FIXTURES_DIR'' of
            Some (c # cs) \<Rightarrow> (let p = path_append (c # cs) ''segfault.dmp'' in if exists p then Some p else None)
          | _ \<Rightarrow> None);
          build_fixture = foldl path_append (parent_path (parent_path source_file))
            [''build'', ''test'', ''fixtures'', ''segfault.dmp''];
          repo_fixture = foldl path_append ''test'' [''fixtures'', ''segfault.dmp''] in
      case env_fixture of
        Some p \<Rightarrow> p
      | None \<Rightarrow>
          if exists build_fixture then build_fixture
          else if exists repo_fixture then repo_fixture
          else [])"

section \<open>The loops\<close>

text \<open>What a benchmark reports: that it was skipped, or its items with the values computed.\<close>

datatype 'a bench_run = Skipped string | Items nat "'a list"

definition BM_ReadMinidump :: "(string \<Rightarrow> 'a) \<Rightarrow> string \<Rightarrow> nat \<Rightarrow> 'a bench_run" where
  "BM_ReadMinidump read fixture iterations =
     (if fixture = []
      then Skipped ''segfault.dmp fixture not found; set CRASHOMON_FIXTURES_DIR''
      else Items iterations (replicate iterations (read fixture)))"

definition BM_FormatTombstone_SingleThread :: "nat \<Rightarrow> string bench_run" where
  "BM_FormatTombstone_SingleThread iterations =
     Items iterations (replicate iterations (FormatTombstone (MakeInfo 1 10)))"

definition BM_FormatTombstone_MultiThread :: "int \<Rightarrow> nat \<Rightarrow> string bench_run" where
  "BM_FormatTombstone_MultiThread num_threads iterations =
     Items iterations (replicate iterations (FormatTombstone (MakeInfo num_threads 5)))"

definition BM_FormatTombstone_DeepStack :: "int \<Rightarrow> nat \<Rightarrow> string bench_run" where
  "BM_FormatTombstone_DeepStack num_frames iterations =
     Items iterations (replicate iterations (FormatTombstone (MakeInfo 1 num_frames)))"

section \<open>What the benchmarks measure\<close>

text \<open>
  The benchmarks scale the number of threads and of frames, but the formatter prints the first
  frame of the first thread only, so all of them format the same text.
\<close>

lemma bench_frames:
  "0 < n \<Longrightarrow> frames (MakeCrashingThread n) = MakeFrame 0 # map MakeFrame [1..n - 1]"
  by (simp add: MakeCrashingThread_def upto_rec1)

lemma bench_same_text:
  assumes "0 < n"
  shows "FormatTombstone (MakeInfo m n) = FormatTombstone (MakeInfo 1 1)"
proof -
  have "MakeCrashingThread n =
      (MakeCrashingThread 1)\<lparr>registers := registers (MakeCrashingThread 1), frames := frames (MakeCrashingThread n)\<rparr>"
    by (simp add: MakeCrashingThread_def)
  then obtain ts where "MakeInfo m n = (MakeInfo 1 1)\<lparr>threads :=
      (MakeCrashingThread 1)\<lparr>registers := registers (MakeCrashingThread 1), frames := frames (MakeCrashingThread n)\<rparr> # ts\<rparr>"
    by (simp add: MakeInfo_def)
  moreover have "FormatTombstone ((MakeInfo 1 1)\<lparr>threads :=
      (MakeCrashingThread 1)\<lparr>registers := registers (MakeCrashingThread 1), frames := frames (MakeCrashingThread n)\<rparr> # ts\<rparr>)
    = FormatTombstone (MakeInfo 1 1)"
    by (rule tombstone_of_first_frame [of _ _ "[]"]) (simp_all add: bench_frames assms, simp add: MakeInfo_def)
  ultimately show ?thesis by simp
qed

lemma benchmarks_do_not_scale:
  "BM_FormatTombstone_MultiThread m i = BM_FormatTombstone_SingleThread i"
  "0 < n \<Longrightarrow> BM_FormatTombstone_DeepStack n i = BM_FormatTombstone_SingleThread i"
  using bench_same_text [of 5 m] bench_same_text [of 10 1] bench_same_text [of n 1]
  by (simp_all add: BM_FormatTombstone_MultiThread_def BM_FormatTombstone_SingleThread_def
      BM_FormatTombstone_DeepStack_def)

text \<open>The reader benchmark is skipped only when no fixture is in the places it looks at.\<close>

lemma path_append_nonempty: "b \<noteq> [] \<Longrightarrow> path_append a b \<noteq> []"
  by (simp add: path_append_def)

lemma FindFixture_exists:
  assumes "FindFixture getenv exists source_file = p" and "p \<noteq> []"
  shows "exists p"
  using assms by (auto simp: FindFixture_def Let_def split: option.splits list.splits if_splits)

lemma reader_benchmark_skipped:
  assumes "BM_ReadMinidump read (FindFixture getenv exists source_file) i = Skipped msg"
  shows "\<not> exists ''test/fixtures/segfault.dmp''"
proof -
  have "FindFixture getenv exists source_file = []"
    using assms by (simp add: BM_ReadMinidump_def split: if_splits)
  moreover have "foldl path_append ''test'' [''fixtures'', ''segfault.dmp''] = ''test/fixtures/segfault.dmp''"
    by (simp add: path_append_def)
  moreover have "path_append x y \<noteq> []" if "y \<noteq> []" for x y using that by (rule path_append_nonempty)
  ultimately show ?thesis
    by (auto simp: FindFixture_def Let_def split: option.splits list.splits if_splits)
qed

end
