(* ===== verification/Spec2Isabelle.thy ===== *)
theory Spec2Isabelle
  imports Watcherd Client_Sessions Shutdown Sequential_Work Patch_Idempotent Crashpad_Layout Demo_Crasher Benchmarks
begin

text \<open>
  Crashomon records crashes of monitored processes on one machine. A client library,
  loaded into each process, fetches a socket from the daemon \<^verbatim>\<open>crashomon-watcherd\<close> and hands
  it to Crashpad, which writes a minidump into the daemon's database when the process
  crashes. The daemon notices the new file, patches missing build ids into it, prints a
  tombstone, optionally exports a copy, and prunes the database. This development models the
  C++ code of the daemon (\<^verbatim>\<open>src/daemon\<close>), of the client library (\<^verbatim>\<open>src/lib\<close>), and of the demo
  program and benchmarks (\<^verbatim>\<open>src/demo\<close>, \<^verbatim>\<open>src/bench\<close>).

  \<^bold>\<open>Theories.\<close>

    \<^item> \<^verbatim>\<open>Prelude\<close>: words, \<^verbatim>\<open>absl::Status\<close> as a sum, little-endian integers, slices of buffers.
    \<^item> \<^verbatim>\<open>C_Strings\<close>: the functions of the C library on strings that the sources use
      (\<^verbatim>\<open>strtoull\<close>, \<^verbatim>\<open>strtol\<close>, \<^verbatim>\<open>find\<close>, decimal and hexadecimal output, truncating copies).
    \<^item> \<^verbatim>\<open>File_System\<close>: the world that the operations act on: files and directories with their
      faults, both clocks, standard output and the log. A \<^verbatim>\<open>std::ofstream\<close> writes less than 1024
      bytes to the file only when it is destroyed, as libstdc++ does.
    \<^item> \<^verbatim>\<open>Disk_Manager\<close> (\<^verbatim>\<open>daemon/disk_manager.cpp\<close>): listing and pruning of the two directories,
      refined to the retention policy ``keep the longest conforming suffix''.
    \<^item> \<^verbatim>\<open>Watcherd_Main\<close> (\<^verbatim>\<open>daemon/main.cpp\<close>, \<^verbatim>\<open>daemon/log.h\<close>): the command line and environment of
      the daemon. The locale \<open>unit_parser\<close> is what the parsers of sizes and ages share.
    \<^item> \<^verbatim>\<open>Byte_Cells\<close>: the locales \<open>u32_cells\<close> and \<open>u32_store\<close> of readers and writers of 32-bit
      cells; \<^verbatim>\<open>Minidump_Patcher\<close> and \<^verbatim>\<open>Minidump_Reader\<close> interpret them on their own functions.
    \<^item> \<^verbatim>\<open>Elf_Build_Id\<close> (\<^verbatim>\<open>daemon/minidump_patcher.cpp\<close>, the part on ELF files): the build id of a
      module file from its notes or its text section, against a reference on named sections.
    \<^item> \<^verbatim>\<open>Minidump_Patcher\<close> (\<^verbatim>\<open>daemon/minidump_patcher.cpp\<close>, the rest): these ids patched into a
      minidump in place. \<open>None\<close> is an access outside a buffer. \<^verbatim>\<open>Patch_Idempotent\<close>: a patched
      dump is left alone by the next patch.
    \<^item> \<^verbatim>\<open>Calendar\<close>: \<^verbatim>\<open>gmtime\<close> and the time formats used. \<^verbatim>\<open>Register_Extract\<close>
      (\<^verbatim>\<open>daemon/tombstone/register_extract.cpp\<close>): registers of a thread context.
    \<^item> \<^verbatim>\<open>Minidump_Reader\<close> (\<^verbatim>\<open>daemon/tombstone/minidump_reader.cpp\<close>): the facts of a crash from a
      parsed minidump, the result of the third-party parser being an argument, and the
      annotations, which the source decodes itself. \<^verbatim>\<open>Crashpad_Layout\<close>: what it means that a dump
      stores annotations in Crashpad's layout, wherever its parts lie, and that the reader finds them.
    \<^item> \<^verbatim>\<open>Tombstone_Formatter\<close> (\<^verbatim>\<open>daemon/tombstone/tombstone_formatter.cpp\<close>): the printed report.
    \<^item> \<^verbatim>\<open>Worker\<close> (\<^verbatim>\<open>daemon/worker.cpp\<close>): what happens to one new minidump, and the worker's loop.
      The locale \<open>tombstone_reader\<close> states what rate limiting needs of \<^verbatim>\<open>ITombstone\<close>, \<open>fifo\<close> what
      the two threads need of the queue. \<^verbatim>\<open>Rate_Limit\<close>: the rate limiter over a whole run of
      the worker.
    \<^item> \<^verbatim>\<open>Crash_Socket\<close> (\<^verbatim>\<open>daemon/crash_socket.cpp\<close>): the registration socket and its message.
    \<^item> \<^verbatim>\<open>Watcher\<close> (\<^verbatim>\<open>daemon/watcher.cpp\<close>): decoding of inotify events, set-up, the event loop
      and its watchdog.
    \<^item> \<^verbatim>\<open>Daemon\<close>: \<^verbatim>\<open>RunWatcher\<close> with its threads, the signals and the clients that hold the shared
      descriptor as the step relation \<open>daemon_step\<close>, its reachable states and the invariant that
      no dump is lost before it is processed.
    \<^item> \<^verbatim>\<open>Shutdown\<close>: runs of the daemon as infinite sequences of steps. By a measure of the work that
      is left, every fair run in which a signal has arrived and the clients leave for good ends,
      with all queued dumps processed. Fairness asks only that the program moves again when it can.
    \<^item> \<^verbatim>\<open>Watcherd\<close>: the program as a whole, \<^verbatim>\<open>main\<close> with \<^verbatim>\<open>RunWatcher\<close>: when it starts, and that
      the files it handles are those that the configured limits apply to. \<^verbatim>\<open>Sequential_Work\<close>: in a
      run of the daemon the steps that finish a dump are a sequential run of the worker, so the
      rate limit holds of the daemon's output.
    \<^item> \<^verbatim>\<open>Client\<close> (\<^verbatim>\<open>lib/crashomon.cpp\<close>, \<^verbatim>\<open>lib/crashomon_internal.h\<close>,
      \<^verbatim>\<open>lib/exception_capture.cpp\<close>): configuration, connection with retries, annotations. The
      locale \<open>handshake\<close> is the registration exchange, interpreted on the daemon's message and
      the library's receiver.
    \<^item> \<^verbatim>\<open>Client_Sessions\<close>: the registration over the daemon's life: whatever it has sent in a
      reachable state registers a client with the one handler.
    \<^item> \<^verbatim>\<open>Crash_Annotations\<close>: the law of Crashpad's dictionary, and what is in it after the end of a
      process. \<^verbatim>\<open>Demo_Crasher\<close> (\<^verbatim>\<open>demo/demo_crasher.cpp\<close>): the demo program up to its
      crash. \<^verbatim>\<open>Benchmarks\<close> (\<^verbatim>\<open>bench\<close>): the two microbenchmarks, which all format the same text.
    \<^item> This theory: what the daemon reports of the demo program's crash, across the client library,
      Crashpad's dump, the reader and the formatter.

  \<^bold>\<open>How the code is rendered.\<close> Integers of the sources are words where the source computes with
  them at their width (\<^verbatim>\<open>uint32_t\<close>, \<^verbatim>\<open>uint64_t\<close>), and integers or naturals where they only name
  or count. State is passed explicitly; fallible functions return \<^verbatim>\<open>absl::Status\<close> values or an
  \<open>option\<close>. System calls are read from a record of answers, or act on the world. Loops over
  buffers are total functions by a measure; the connection loop of the client, which need
  not end, is a partial function on a clock that its calls of \<^verbatim>\<open>nanosleep\<close> advance, and it is
  proved to end when only finitely many of these calls are interrupted. No fuel is used anywhere.

  \<^bold>\<open>Third-party code as arguments.\<close> The minidump parser (Breakpad), Crashpad's report database,
  client and annotation dictionary, the demangler and \<^verbatim>\<open>strerror\<close>. A property that needs
  more of them than their type states it as a hypothesis. Crashpad keeps the annotations that a
  process registers with the modules of the dump; the process annotations, the only ones that the
  daemon reads, are those that the handler is given, which here are none.

  \<^bold>\<open>Not modelled.\<close> The threads' locks and condition variable (the steps of \<open>daemon_step\<close> are the
  critical sections and what lies between), the ready notification of systemd, the texts of log
  messages and how spdlog renders them, ownership of descriptors beyond the registration socket of the client, and stale
  bytes in the event buffer behind what \<^verbatim>\<open>read\<close> returned, which decoding never looks at
  for events as the kernel writes them. A stray memory access of the patcher ends the model's
  run, as it may end the daemon's. Processing a dump is one step of the daemon; its queue of events has no
  bound, so an overflow of inotify's queue, which loses events, does not occur; a directory
  iterator reports its errors through the error code and does not throw. Of the demo program, that its background
  threads are scheduled, and of the benchmarks, their timing. The example programs, which only
  crash, the Python tools and the web interface are outside the development.
\<close>

section \<open>From the failing process to the tombstone\<close>

lemma header_info_rest:
  "abort_message (header_info raw p) = []" "terminate_type (header_info raw p) = []"
  "exception_of raw = Some r \<Longrightarrow> signal_info (header_info raw p) =
    (let c = signal_code_name (exception_code r) (exception_flags r) in
     signal_name (exception_code r) @ (if c = [] then [] else '' / '' @ c))"
proof -
  have "abort_message (base_info raw p) = [] \<and> terminate_type (base_info raw p) = []"
    by (simp add: base_info_def empty_info_def Let_def split: option.split)
  then show "abort_message (header_info raw p) = []" "terminate_type (header_info raw p) = []"
    by (simp_all add: header_info_eq ExtractExceptionInfo_def Let_def split: option.split)
  show "exception_of raw = Some r \<Longrightarrow> signal_info (header_info raw p) =
    (let c = signal_code_name (exception_code r) (exception_flags r) in
     signal_name (exception_code r) @ (if c = [] then [] else '' / '' @ c))"
    by (simp add: header_info_eq signal_info_extracted)
qed

text \<open>A dump without process annotations is read as its streams say.\<close>

lemma read_without_annotations:
  assumes "br w p = Some raw" and "read_file p w = Some buf" "crashpad_dump buf []"
    and "\<forall>m\<in>set (loaded_modules raw). unat (base_address m) + unat (mod_size m) < 2 ^ 64"
    and "exception_of raw = Some r" "exception_thread_id r \<noteq> 0"
  shows "ReadMinidump br p w = Inr ((header_info raw p)\<lparr>threads := [thread_of raw (exception_thread_id r)]\<rparr>)"
proof -
  note h = header_info_fields [of raw p]
  have "crashing_tid (header_info raw p) = exception_thread_id r" using h(5) assms(5) by simp
  then have "add_crashing_thread raw (header_info raw p) = (header_info raw p)\<lparr>threads := [thread_of raw (exception_thread_id r)]\<rparr>"
    using add_crashing_thread_eq [OF h(1,2) assms(4)] assms(6) by simp
  moreover have "ExtractCrashpadAnnotations p w info = info" for info
    using annotations_read_back [OF assms(2,3)] by simp
  ultimately show ?thesis using assms(1) by (simp add: ReadMinidump_eq)
qed

text \<open>The report of a null pointer, from a dump without process annotations.\<close>

lemma null_pointer_report:
  assumes "br w p = Some raw" and "read_file p w = Some buf" "crashpad_dump buf []"
    and "\<forall>m\<in>set (loaded_modules raw). unat (base_address m) + unat (mod_size m) < 2 ^ 64"
    and "exception_of raw = Some \<lparr>exception_code = 11, exception_flags = 1, exception_address = 0, exception_thread_id = t\<rparr>"
    and "t \<noteq> 0" "name_of_thread raw t = nm" "nm \<noteq> []"
  shows "\<exists>info. ReadMinidump br p w = Inr info \<and> FormatTombstone info = kTopSeparator @ newline @
      ''process: '' @ process_name info @ '' (pid '' @ show_dec (unat (pid info)) @ '')  thread: '' @ nm @ '' (tid '' @
        show_dec (unat t) @ '')'' @ newline @
      ''signal 11 (SIGSEGV), code 1 (SEGV_MAPERR), fault addr 0x0000000000000000'' @ newline @
      ''probable cause: null pointer dereference'' @ newline @
      ''timestamp: '' @ timestamp info @ newline @ pc_line info @ newline @
      ''minidump saved to: '' @ p @ newline @ kBottomSeparator @ newline"
proof -
  define info where "info = (header_info raw p)\<lparr>threads := [thread_of raw t]\<rparr>"
  have read: "ReadMinidump br p w = Inr info"
    using read_without_annotations [of br w p raw buf, OF assms(1-5)] assms(6) by (simp add: info_def)
  note h = header_info_fields [of raw p] header_info_rest(1,2) [of raw p] header_info_rest(3) [OF assms(5), of p]
  have fields: "signal_number info = 11" "signal_code info = 1" "fault_addr info = 0" "crashing_tid info = t"
    "abort_message info = []" "minidump_path info = p" "signal_info info = ''SIGSEGV / SEGV_MAPERR''"
    "threads info = [thread_of raw t]"
    using h assms(5) by (simp_all add: info_def signal_name_def signal_code_name_def kSigNames_def kSegvCodes_def Let_def)
  have thread: "thread_name (thread_of raw t) = nm" "is_crashing (thread_of raw t)"
    using assms(7) by (simp_all add: thread_of_def)
  have "SplitSignalInfo ''SIGSEGV / SEGV_MAPERR'' = (''SIGSEGV'', ''SEGV_MAPERR'')"
    using SplitSignalInfo_sep [of "''SIGSEGV''" "''SEGV_MAPERR''"] by simp
  moreover have "replicate 15 (CHR ''0'') = ''000000000000000''" by code_simp
  then have "show_dec 11 = ''11''" "show_dec (Suc 0) = ''1''" "show_hex16 0 = ''0000000000000000''"
    by (simp_all add: show_dec_def show_hex16_def show_hex_def show_base.simps digit_char_def char_of_def bit_0)
  ultimately have "signal_line info = ''signal 11 (SIGSEGV), code 1 (SEGV_MAPERR), fault addr 0x0000000000000000'' @ newline"
    by (simp add: signal_line_def fields)
  moreover have "header_line info = ''process: '' @ process_name info @ '' (pid '' @ show_dec (unat (pid info)) @
      '')  thread: '' @ nm @ '' (tid '' @ show_dec (unat t) @ '')'' @ newline"
    by (simp add: header_line_def fields thread assms(8) Let_def)
  moreover have "cause_line info = ''probable cause: null pointer dereference'' @ newline"
    by (simp add: cause_line_def fields thread FormatProbableCause_def Let_def)
  ultimately show ?thesis using read
    by (intro exI [of _ info]) (simp add: FormatTombstone_def abort_line_def fields)
qed

text \<open>
  What Crashpad, its client side and Linux document about the dump of a process that ends
  by a fault: the process annotations are those that the daemon gives to the exception
  handler; the exception record has the signal number, the signal code of an unmapped address, the
  address and the thread, whose name in the dump is the one it had given itself. The
  annotations that a process registers itself are kept with its modules, not here.
\<close>

definition dump_of :: "fault + int \<Rightarrow> process \<Rightarrow> u32 \<Rightarrow> breakpad \<Rightarrow> bytes \<Rightarrow> bool" where
  "dump_of outcome s t raw buf =
     (crashpad_dump buf kNoAnnotations \<and> t \<noteq> 0 \<and>
      (\<forall>a. outcome = Inl (SIGSEGV a) \<longrightarrow> exception_of raw =
         Some \<lparr>exception_code = 11, exception_flags = 1, exception_address = a, exception_thread_id = t\<rparr>) \<and>
      name_of_thread raw t = own_name (processor_calls s))"

text \<open>
  C40. The demo crashes at the third record with a segmentation fault at address 0, after two scores
  have been stored and three lines printed, with its abort message in Crashpad's dictionary. From the
  dump of this crash the daemon prints a tombstone with the thread \<^verbatim>\<open>processor\<close>, the signal,
  its code and address, and the null pointer as the probable cause; but the abort message is
  not in it, for the reader takes only process annotations, and the daemon gives Crashpad none.
  Assumed are the documented behaviour of Crashpad's dictionary, its room, and of the dump (\<^verbatim>\<open>dump_of\<close>),
  and that no module reaches past the end of the address space.
\<close>

theorem demo_report:
  assumes "dictionary_law set_key_value entries"
    and "length (entries (dictionaries c Library_Annotations)) \<le> 60"
      "distinct (map fst (entries (dictionaries c Library_Annotations)))"
    and "DoInit ker cfg c0 = Some (0, c)"
    and "demo_main set_key_value c s = (outcome, c', s')"
    and "dump_of outcome s' t raw buf" "read_file p w = Some buf" "br w p = Some raw"
      "\<forall>m\<in>set (loaded_modules raw). unat (base_address m) + unat (mod_size m) < 2 ^ 64"
  shows "outcome = Inl (SIGSEGV 0) \<and> memory s' = (memory s)(0 := 112, 1 := 98) \<and>
    std_out s' = std_out s @ demo_banner @ demo_lines \<and>
    map_of (entries (dictionaries c' Library_Annotations)) ''abort_message'' = Some demo_abort_message \<and>
    (\<exists>info. ReadMinidump br p w = Inr info \<and> FormatTombstone info =
      kTopSeparator @ newline @
      ''process: '' @ process_name info @ '' (pid '' @ show_dec (unat (pid info)) @ '')  thread: processor (tid '' @
        show_dec (unat t) @ '')'' @ newline @
      ''signal 11 (SIGSEGV), code 1 (SEGV_MAPERR), fault addr 0x0000000000000000'' @ newline @
      ''probable cause: null pointer dereference'' @ newline @
      ''timestamp: '' @ timestamp info @ newline @ pc_line info @ newline @
      ''minidump saved to: '' @ p @ newline @ kBottomSeparator @ newline)"
proof -
  let ?d = "dictionaries c Library_Annotations"
  have attached: "simple_annotations c = Some Library_Annotations" using DoInit_result [OF assms(4)] by simp
  note run = demo_crashes [OF assms(5) attached]
  have "map_of (entries (set_all set_key_value demo_tags ?d)) =
      fold (\<lambda>(k, v) m. m(take 255 k \<mapsto> take 255 v)) demo_tags (map_of (entries ?d))"
    using set_all_entries [OF assms(1) _ assms(3), of demo_tags] assms(2) by (simp add: demo_tags_def)
  then have message: "map_of (entries (dictionaries c' Library_Annotations)) ''abort_message'' = Some demo_abort_message"
    by (simp add: run(5) demo_tags_def demo_abort_message_def)
  have dump: "crashpad_dump buf []" "t \<noteq> 0" "name_of_thread raw t = ''processor''" "exception_of raw =
      Some \<lparr>exception_code = 11, exception_flags = 1, exception_address = 0, exception_thread_id = t\<rparr>"
    using assms(6) run(1,4) by (simp_all add: dump_of_def kNoAnnotations_def)
  from null_pointer_report [of br w p raw buf t "''processor''", OF assms(8,7) dump(1) assms(9) dump(4,2,3)] show ?thesis
    using run(1-3) message by simp
qed

definition demo_dump :: breakpad where
  "demo_dump = read_example\<lparr>thread_name_list := Some [None, Some (Some 6, ''main''), Some (Some 7, ''processor'')]\<rparr>"

theorem demo_report_witness:
  "\<exists>c c' s' info. DoInit kernel_example config_example client_example = Some (0, c) \<and>
     demo_main simple_set c \<lparr>memory = (\<lambda>_. 5), std_out = [], std_err = [], processor_calls = []\<rparr> =
       (Inl (SIGSEGV 0), c', s') \<and>
     memory s' 0 = 112 \<and> memory s' 1 = 98 \<and> memory s' 2 = 5 \<and>
     map_of (dictionaries c' Library_Annotations) ''abort_message'' = Some demo_abort_message \<and>
     ReadMinidump (\<lambda>_ _. Some demo_dump) ''/d'' (annotated_world []) = Inr info \<and>
     has_prefix (kTopSeparator @ newline @ ''process: '') (FormatTombstone info)"
proof -
  obtain c where c: "DoInit kernel_example config_example client_example = Some (0, c)"
    using example_initialised by blast
  have d: "dictionaries c Library_Annotations = []" and a: "simple_annotations c = Some Library_Annotations"
    using DoInit_result [OF c] by (simp_all add: client_example_def)
  let ?s = "\<lparr>memory = (\<lambda>_. 5), std_out = [], std_err = [], processor_calls = []\<rparr> :: process"
  obtain r c' s' where run: "demo_main simple_set c ?s = (r, c', s')" by (cases "demo_main simple_set c ?s")
  have "length (example_dump []) < 2 ^ 32" by (simp add: example_dump_def dict_strings_def)
  then have "crashpad_dump (example_dump []) kNoAnnotations" unfolding kNoAnnotations_def by (rule example_layout)
  moreover have "name_of_thread demo_dump 7 = own_name (processor_calls s')"
    using demo_crashes(4) [OF run a] by (simp add: demo_dump_def name_of_thread_def)
  moreover have "exception_of demo_dump = Some \<lparr>exception_code = 11, exception_flags = 1, exception_address = 0,
      exception_thread_id = 7\<rparr>" by (simp add: demo_dump_def read_example_def)
  ultimately have dump: "dump_of r s' 7 demo_dump (example_dump [])"
    using demo_crashes(1) [OF run a] by (simp add: dump_of_def)
  have m: "\<forall>m\<in>set (loaded_modules demo_dump). unat (base_address m) + unat (mod_size m) < 2 ^ 64"
    by (simp add: demo_dump_def read_example_def loaded_modules_def)
  from demo_report [OF simple_set_law _ _ c run dump annotated_world_read _ m, of "\<lambda>_ _. Some demo_dump"]
  show ?thesis using c run by (auto simp: d has_prefix_iff)
qed

end
